(* ===== verification/Prelude.thy ===== *)
theory Prelude
  imports Main "HOL-Library.Word" "HOL-Library.Sublist"
begin

text \<open>
  Shared vocabulary of the development. A Go \<open>string\<close> or \<open>[]byte\<close> is a list of bytes
  (\<open>char list\<close>, one \<open>char\<close> per byte). \<open>uint64\<close> counters are 64-bit words; \<open>int\<close>,
  \<open>int64\<close> and \<open>time.Duration\<close> are integers with the two's complement wrap-around of
  64 bits written out by \<open>i64\<close> wherever the code adds or multiplies without a bound of
  its own. A Go \<open>(value, error)\<close> result is a value of the sum type \<open>error + value\<close>.
  A \<open>time.Time\<close> is a number of nanoseconds whose zero is Go's zero time, so \<open>IsZero\<close>
  is \<open>t = 0\<close>, \<open>UTC()\<close> is the identity and \<open>Before\<close>/\<open>After\<close> are the order.
\<close>

named_theorems step_defs "definitions of the operations that a state-changing step unfolds"
named_theorems preserved "preservation of a component invariant by one operation"

type_synonym bytes = string
type_synonym u64 = "64 word"
type_synonym gotime = int
type_synonym ('e, 'a) result = "'e + 'a"

text \<open>The numeric value of a byte.\<close>

abbreviation ord_of :: "char \<Rightarrow> nat" where
  "ord_of c \<equiv> of_char c"

subsection \<open>Signed 64-bit arithmetic\<close>

definition i64 :: "int \<Rightarrow> int" where
  "i64 x = (x + 2 ^ 63) mod 2 ^ 64 - 2 ^ 63"

definition i64_range :: "int \<Rightarrow> bool" where
  "i64_range x \<longleftrightarrow> - (2 ^ 63) \<le> x \<and> x < 2 ^ 63"

lemma i64_id: "i64_range x \<Longrightarrow> i64 x = x"
  by (simp add: i64_def i64_range_def)

lemma i64_in_range [simp]: "i64_range (i64 x)"
  by (simp add: i64_def i64_range_def)

subsection \<open>Byte strings\<close>

text \<open>\<open>strings.HasPrefix\<close>, \<open>strings.HasSuffix\<close>, \<open>strings.TrimPrefix\<close>, \<open>strings.TrimSuffix\<close>.\<close>

fun has_prefix :: "'a list \<Rightarrow> 'a list \<Rightarrow> bool" where
  "has_prefix [] s = True"
| "has_prefix (p # ps) [] = False"
| "has_prefix (p # ps) (c # s) = (p = c \<and> has_prefix ps s)"

definition has_suffix :: "'a list \<Rightarrow> 'a list \<Rightarrow> bool" where
  "has_suffix p s = has_prefix (rev p) (rev s)"

definition trim_prefix :: "'a list \<Rightarrow> 'a list \<Rightarrow> 'a list" where
  "trim_prefix p s = (if has_prefix p s then drop (length p) s else s)"

definition trim_suffix :: "'a list \<Rightarrow> 'a list \<Rightarrow> 'a list" where
  "trim_suffix p s = (if has_suffix p s then take (length s - length p) s else s)"

text \<open>\<open>strings.Index\<close> (None for -1) and \<open>strings.Contains\<close>.\<close>

fun str_index :: "'a list \<Rightarrow> 'a list \<Rightarrow> nat option" where
  "str_index p [] = (if p = [] then Some 0 else None)"
| "str_index p (c # s) =
     (if has_prefix p (c # s) then Some 0 else map_option Suc (str_index p s))"

definition str_contains :: "'a list \<Rightarrow> 'a list \<Rightarrow> bool" where
  "str_contains p s = (str_index p s \<noteq> None)"

lemma has_prefix_iff: "has_prefix p s \<longleftrightarrow> (\<exists>t. s = p @ t)"
  by (induction p s rule: has_prefix.induct) auto

lemma has_prefix_append [simp]: "has_prefix p (p @ s)"
  by (simp add: has_prefix_iff)

lemma has_suffix_iff: "has_suffix p s \<longleftrightarrow> (\<exists>t. s = t @ p)"
proof
  assume "has_suffix p s"
  then obtain t where "rev s = rev p @ t" by (auto simp: has_suffix_def has_prefix_iff)
  then have "s = rev t @ p" by (metis rev_append rev_rev_ident)
  then show "\<exists>t. s = t @ p" by blast
qed (auto simp: has_suffix_def)

text \<open>ASCII case mapping, as \<open>strings.ToLower\<close> does on ASCII text; bytes above 127 are kept.\<close>

definition lower_char :: "char \<Rightarrow> char" where
  "lower_char c = (if 65 \<le> ord_of c \<and> ord_of c \<le> 90
                   then char_of (ord_of c + 32) else c)"

definition to_lower :: "bytes \<Rightarrow> bytes" where
  "to_lower s = map lower_char s"

definition byte_in :: "char \<Rightarrow> nat \<Rightarrow> nat \<Rightarrow> bool" where
  "byte_in c lo hi \<longleftrightarrow> lo \<le> ord_of c \<and> ord_of c \<le> hi"

definition is_digit :: "char \<Rightarrow> bool" where "is_digit c = byte_in c 48 57"
definition is_upper :: "char \<Rightarrow> bool" where "is_upper c = byte_in c 65 90"
definition is_lower :: "char \<Rightarrow> bool" where "is_lower c = byte_in c 97 122"

text \<open>
  \<open>strings.Split(s, sep)\<close> for a one-byte separator: always at least one piece.
\<close>

fun split_byte :: "'a \<Rightarrow> 'a list \<Rightarrow> 'a list list" where
  "split_byte sep [] = [[]]"
| "split_byte sep (c # s) =
     (if c = sep then [] # split_byte sep s
      else (case split_byte sep s of [] \<Rightarrow> [[c]] | w # ws \<Rightarrow> (c # w) # ws))"

fun join_byte :: "'a \<Rightarrow> 'a list list \<Rightarrow> 'a list" where
  "join_byte sep [] = []"
| "join_byte sep [w] = w"
| "join_byte sep (w # ws) = w @ sep # join_byte sep ws"

lemma split_byte_nonempty [simp]: "split_byte sep s \<noteq> []"
  by (cases s) (auto split: list.splits)

lemma join_split_byte [simp]: "join_byte sep (split_byte sep s) = s"
proof (induction s)
  case (Cons c s)
  obtain w ws where ws: "split_byte sep s = w # ws" by (cases "split_byte sep s") auto
  with Cons show ?case by (cases ws) auto
qed simp

lemma split_byte_no_sep: "w \<in> set (split_byte sep s) \<Longrightarrow> sep \<notin> set w"
proof (induction s arbitrary: w)
  case (Cons c s)
  then show ?case
    by (cases "split_byte sep s") (auto split: if_splits)
qed simp

subsection \<open>Decimal numbers\<close>

definition digit_char :: "nat \<Rightarrow> char" where
  "digit_char d = char_of (48 + d)"

fun show_nat :: "nat \<Rightarrow> bytes" where
  "show_nat n = (if n < 10 then [digit_char n] else show_nat (n div 10) @ [digit_char (n mod 10)])"

declare show_nat.simps [simp del]

definition show_int :: "int \<Rightarrow> bytes" where
  "show_int i = (if i < 0 then CHR ''-'' # show_nat (nat (- i)) else show_nat (nat i))"

definition digit_val :: "char \<Rightarrow> nat" where
  "digit_val c = of_char c - 48"

definition read_nat :: "bytes \<Rightarrow> nat" where
  "read_nat s = foldl (\<lambda>n c. 10 * n + digit_val c) 0 s"

lemma of_digit_char: "d < 10 \<Longrightarrow> ord_of (digit_char d) = 48 + d"
  by (simp add: digit_char_def)

lemma digit_val_char [simp]: "d < 10 \<Longrightarrow> digit_val (digit_char d) = d"
  by (simp add: digit_val_def of_digit_char)

lemma is_digit_char [simp]: "d < 10 \<Longrightarrow> is_digit (digit_char d)"
  by (simp add: is_digit_def byte_in_def of_digit_char)

lemma read_show_nat [simp]: "read_nat (show_nat n) = n"
proof (induction n rule: show_nat.induct)
  case (1 n)
  show ?case
  proof (cases "n < 10")
    case True
    then show ?thesis by (subst show_nat.simps) (simp add: read_nat_def)
  next
    case False
    with "1.IH" have "read_nat (show_nat (n div 10)) = n div 10" by simp
    with False show ?thesis by (subst show_nat.simps) (simp add: read_nat_def)
  qed
qed

lemma show_nat_inject [simp]: "show_nat m = show_nat n \<longleftrightarrow> m = n"
  by (metis read_show_nat)

lemma show_nat_digits: "c \<in> set (show_nat n) \<Longrightarrow> is_digit c"
proof (induction n rule: show_nat.induct)
  case (1 n)
  show ?case
  proof (cases "n < 10")
    case True
    with "1.prems" show ?thesis by (subst (asm) show_nat.simps) simp
  next
    case False
    with "1.prems" have "c \<in> set (show_nat (n div 10)) \<or> c = digit_char (n mod 10)"
      by (subst (asm) show_nat.simps) auto
    with "1.IH" False show ?thesis by auto
  qed
qed

lemma show_nat_nonempty [simp]: "show_nat n \<noteq> []"
  by (subst show_nat.simps) simp

subsection \<open>Sum results\<close>

definition is_ok :: "'e + 'a \<Rightarrow> bool" where
  "is_ok r = (case r of Inl _ \<Rightarrow> False | Inr _ \<Rightarrow> True)"

lemma is_ok_simps [simp]: "is_ok (Inr a)" "\<not> is_ok (Inl e)"
  by (simp_all add: is_ok_def)

lemma is_okE [elim]: "is_ok r \<Longrightarrow> (\<And>a. r = Inr a \<Longrightarrow> P) \<Longrightarrow> P"
  by (cases r) auto

text \<open>Sequencing of fallible steps over a list: the first error stops the loop.\<close>

fun forM :: "('a \<Rightarrow> 's \<Rightarrow> 'e + 's) \<Rightarrow> 'a list \<Rightarrow> 's \<Rightarrow> 'e + 's" where
  "forM f [] s = Inr s"
| "forM f (x # xs) s = (case f x s of Inl e \<Rightarrow> Inl e | Inr s' \<Rightarrow> forM f xs s')"

lemma forM_append:
  "forM f (xs @ ys) s = (case forM f xs s of Inl e \<Rightarrow> Inl e | Inr s' \<Rightarrow> forM f ys s')"
  by (induction xs arbitrary: s) (auto split: sum.splits)

lemma forM_invariant:
  assumes "forM f xs s = Inr s'" and "I s"
    and "\<And>x s s'. x \<in> set xs \<Longrightarrow> I s \<Longrightarrow> f x s = Inr s' \<Longrightarrow> I s'"
  shows "I s'"
  using assms
proof (induction xs arbitrary: s)
  case (Cons x xs)
  then obtain t where t: "f x s = Inr t" "forM f xs t = Inr s'"
    by (auto split: sum.splits)
  with Cons.prems have "I t" by auto
  with t Cons show ?case by (metis list.set_intros(2))
qed simp

end
