(* ===== verification/Json.thy ===== *)
theory Json
  imports Prelude
begin

text \<open>
  The part of Go's \<open>unicode/utf8\<close> and \<open>encoding/json\<close> the program uses: rune decoding,
  string literals, a reader for JSON text (\<open>json.Valid\<close>, the values a \<open>json.Decoder\<close>
  returns), the compact writer of \<open>json.Marshal\<close>, and the rules by which a strict
  decoder (\<open>DisallowUnknownFields\<close>) fills a struct. A JSON string is kept as the text of
  its literal, so that a \<open>json.RawMessage\<close> is copied and not re-encoded. The
  nesting limit of 10000 of the library is not modelled.
\<close>

subsection \<open>Runes\<close>

text \<open>Width of the UTF-8 sequence at the head of the bytes; 0 where it is not valid.\<close>

definition is_cont :: "char \<Rightarrow> bool" where
  "is_cont c = byte_in c 128 191"

definition rune_size :: "bytes \<Rightarrow> nat" where
  "rune_size s = (case s of
     [] \<Rightarrow> 0
   | c # s1 \<Rightarrow>
      if ord_of c < 128 then 1
      else (case s1 of [] \<Rightarrow> 0 | c1 # s2 \<Rightarrow>
        if byte_in c 194 223 then (if is_cont c1 then 2 else 0)
        else (case s2 of [] \<Rightarrow> 0 | c2 # s3 \<Rightarrow>
          if byte_in c 224 239 then
            (if is_cont c2 \<and>
                (if ord_of c = 224 then byte_in c1 160 191
                 else if ord_of c = 237 then byte_in c1 128 159 else is_cont c1) then 3 else 0)
          else (case s3 of [] \<Rightarrow> 0 | c3 # s4 \<Rightarrow>
            if byte_in c 240 244 \<and> is_cont c2 \<and> is_cont c3 \<and>
               (if ord_of c = 240 then byte_in c1 144 191
                else if ord_of c = 244 then byte_in c1 128 143 else is_cont c1) then 4 else 0))))"

lemma rune_size_Nil [simp]: "rune_size [] = 0"
  by (simp add: rune_size_def)

lemma rune_size_ascii [simp]: "ord_of c < 128 \<Longrightarrow> rune_size (c # s) = 1"
  by (simp add: rune_size_def)

text \<open>The four shapes of a valid sequence, each with the bytes it inspects.\<close>

lemma rune_size_1:
  assumes "rune_size s = 1"
  obtains c r where "s = c # r" "ord_of c < 128"
  using assms by (simp add: rune_size_def split: list.splits if_splits)

lemma rune_size_2:
  assumes "rune_size s = 2"
  obtains c d r where "s = c # d # r" "\<not> ord_of c < 128" "byte_in c 194 223" "is_cont d"
  using assms by (simp add: rune_size_def split: list.splits if_splits)

lemma rune_size_3:
  assumes "rune_size s = 3"
  obtains c d e r where "s = c # d # e # r" "\<not> ord_of c < 128" "\<not> byte_in c 194 223" "byte_in c 224 239"
    "is_cont e \<and> (if ord_of c = 224 then byte_in d 160 191
                else if ord_of c = 237 then byte_in d 128 159 else is_cont d)"
proof -
  from assms obtain c d e r where s: "s = c # d # e # r" "\<not> ord_of c < 128" "\<not> byte_in c 194 223"
    by (auto simp: rune_size_def split: list.splits if_split_asm)
  with assms show thesis
    by (cases r) (auto simp: rune_size_def that split: if_split_asm)
qed

lemma rune_size_4:
  assumes "rune_size s = 4"
  obtains c d e f r where "s = c # d # e # f # r" "\<not> ord_of c < 128" "\<not> byte_in c 194 223"
    "\<not> byte_in c 224 239"
    "byte_in c 240 244 \<and> is_cont e \<and> is_cont f \<and>
       (if ord_of c = 240 then byte_in d 144 191
        else if ord_of c = 244 then byte_in d 128 143 else is_cont d)"
proof -
  from assms obtain c d e r where s: "s = c # d # e # r" "\<not> ord_of c < 128" "\<not> byte_in c 194 223"
    by (auto simp: rune_size_def split: list.splits if_split_asm)
  with assms show thesis
    by (cases r) (auto simp: rune_size_def that split: if_split_asm)
qed

lemma rune_size_range: "rune_size s \<in> {0, 1, 2, 3, 4}"
  unfolding rune_size_def
  by (simp split: list.split)

lemma rune_size_cases [case_names zero one two three four]:
  assumes "rune_size s = 0 \<Longrightarrow> P" "rune_size s = 1 \<Longrightarrow> P" "rune_size s = 2 \<Longrightarrow> P"
    "rune_size s = 3 \<Longrightarrow> P" "rune_size s = 4 \<Longrightarrow> P"
  shows P
  using assms rune_size_range [of s] by auto

lemma rune_size_le: "rune_size s \<le> length s"
proof (cases s rule: rune_size_cases)
  case one then show ?thesis by (rule rune_size_1) (use one in simp)
next
  case two then show ?thesis by (rule rune_size_2) (use two in simp)
next
  case three then show ?thesis by (rule rune_size_3) (use three in simp)
next
  case four then show ?thesis by (rule rune_size_4) (use four in simp)
qed simp

lemma rune_size_take:
  assumes n: "rune_size s = n" "n \<noteq> 0"
  shows "rune_size (take n s @ t) = n"
proof (cases s rule: rune_size_cases)
  case one
  then obtain c r where "s = c # r" "ord_of c < 128" by (rule rune_size_1)
  moreover from one n have "n = Suc 0" by simp
  ultimately show ?thesis by simp
next
  case two
  then obtain c d r where s: "s = c # d # r" "\<not> ord_of c < 128" "byte_in c 194 223" "is_cont d"
    by (rule rune_size_2)
  moreover from two n have "n = 2" by simp
  ultimately have "take n s @ t = c # d # t" by simp
  with s two n show ?thesis by (simp add: rune_size_def)
next
  case three
  then obtain c d e r where s: "s = c # d # e # r" "\<not> ord_of c < 128" "\<not> byte_in c 194 223" "byte_in c 224 239"
    "is_cont e \<and> (if ord_of c = 224 then byte_in d 160 191
                else if ord_of c = 237 then byte_in d 128 159 else is_cont d)"
    by (rule rune_size_3)
  moreover from three n have "n = 3" by simp
  ultimately have "take n s @ t = c # d # e # t" by simp
  with s three n show ?thesis
    by (simp add: rune_size_def split del: if_split)
next
  case four
  then obtain c d e f r where s: "s = c # d # e # f # r" "\<not> ord_of c < 128" "\<not> byte_in c 194 223"
    "\<not> byte_in c 224 239"
    "byte_in c 240 244 \<and> is_cont e \<and> is_cont f \<and>
       (if ord_of c = 240 then byte_in d 144 191
        else if ord_of c = 244 then byte_in d 128 143 else is_cont d)"
    by (rule rune_size_4)
  moreover from four n have "n = 4" by simp
  ultimately have "take n s @ t = c # d # e # f # t" by simp
  with s four n show ?thesis
    by (simp add: rune_size_def split del: if_split)
qed (use n in simp)

text \<open>\<open>utf8.Valid\<close>.\<close>

fun utf8_valid :: "bytes \<Rightarrow> bool" where
  "utf8_valid [] = True"
| "utf8_valid (c # s) =
     (rune_size (c # s) \<noteq> 0 \<and> utf8_valid (drop (rune_size (c # s) - 1) s))"

text \<open>Invalid bytes replaced, one by one, by U+FFFD.\<close>

definition replacement :: bytes where
  "replacement = [char_of (239::nat), char_of (191::nat), char_of (189::nat)]"

fun to_valid :: "bytes \<Rightarrow> bytes" where
  "to_valid [] = []"
| "to_valid (c # s) = (let n = rune_size (c # s) in
     if n = 0 then replacement @ to_valid s
     else take n (c # s) @ to_valid (drop (n - 1) s))"

lemma to_valid_id: "utf8_valid s \<Longrightarrow> to_valid s = s"
proof (induction s rule: utf8_valid.induct)
  case (2 c s)
  then show ?case by (cases "rune_size (c # s)") (auto simp: Let_def)
qed simp

lemma utf8_valid_rune:
  assumes "rune_size s = n" "n \<noteq> 0" "utf8_valid t"
  shows "utf8_valid (take n s @ t)"
proof -
  from assms(1,2) obtain c r m where s: "s = c # r" "n = Suc m" by (cases s; cases n) auto
  have "m \<le> length r" using rune_size_le [of s] assms(1) s by simp
  moreover have "rune_size (c # take m r @ t) = Suc m"
    using rune_size_take [OF assms(1,2), of t] s by simp
  ultimately show ?thesis using s assms(3) by simp
qed

lemma utf8_valid_to_valid [simp]: "utf8_valid (to_valid s)"
proof (induction s rule: to_valid.induct)
  case (2 c s)
  have "utf8_valid (replacement @ to_valid s)" if "utf8_valid (to_valid s)"
    using utf8_valid_rune [of replacement 3 "to_valid s"] that
    by (simp add: replacement_def rune_size_def byte_in_def is_cont_def)
  moreover have "utf8_valid (take (rune_size (c # s)) (c # s) @ to_valid (drop (rune_size (c # s) - 1) s))"
    if "rune_size (c # s) \<noteq> 0" "utf8_valid (to_valid (drop (rune_size (c # s) - 1) s))"
    by (rule utf8_valid_rune [OF refl that])
  ultimately show ?case using 2 by (simp add: Let_def)
qed simp

lemma to_valid_idem [simp]: "to_valid (to_valid s) = to_valid s"
  by (simp add: to_valid_id)

lemma to_valid_empty [simp]: "to_valid s = [] \<longleftrightarrow> s = []"
  by (cases s) (auto simp: Let_def replacement_def)

text \<open>\<open>utf8.AppendRune\<close> for code points below 0x110000.\<close>

definition utf8_encode :: "nat \<Rightarrow> bytes" where
  "utf8_encode r =
     (if r < 128 then [char_of r]
      else if r < 2048 then [char_of (192 + r div 64), char_of (128 + r mod 64)]
      else if r < 65536 then
        [char_of (224 + r div 4096), char_of (128 + r div 64 mod 64), char_of (128 + r mod 64)]
      else [char_of (240 + r div 262144), char_of (128 + r div 4096 mod 64),
            char_of (128 + r div 64 mod 64), char_of (128 + r mod 64)])"

subsection \<open>String literals\<close>

definition hex_char :: "nat \<Rightarrow> char" where
  "hex_char n = (if n < 10 then char_of (48 + n) else char_of (87 + n))"

definition hex_val :: "char \<Rightarrow> nat option" where
  "hex_val c = (if is_digit c then Some (ord_of c - 48)
     else if byte_in c 97 102 then Some (ord_of c - 87)
     else if byte_in c 65 70 then Some (ord_of c - 55) else None)"

definition get_u4 :: "bytes \<Rightarrow> nat option" where
  "get_u4 s = (case s of a # b # c # d # _ \<Rightarrow>
      (case (hex_val a, hex_val b, hex_val c, hex_val d) of
         (Some w, Some x, Some y, Some z) \<Rightarrow> Some (((w * 16 + x) * 16 + y) * 16 + z)
       | _ \<Rightarrow> None)
    | _ \<Rightarrow> None)"

text \<open>The escapes that \<open>json.Marshal\<close> writes for an ASCII byte.\<close>

definition esc_byte :: "char \<Rightarrow> bytes" where
  "esc_byte c =
     (if c = CHR 0x22 \<or> c = CHR 0x5C then [CHR 0x5C, c]
      else if ord_of c = 8 then [CHR 0x5C, CHR ''b'']
      else if ord_of c = 12 then [CHR 0x5C, CHR ''f'']
      else if ord_of c = 10 then [CHR 0x5C, CHR ''n'']
      else if ord_of c = 13 then [CHR 0x5C, CHR ''r'']
      else if ord_of c = 9 then [CHR 0x5C, CHR ''t'']
      else if ord_of c < 32 \<or> c = CHR ''<'' \<or> c = CHR ''>'' \<or> c = CHR ''&'' then
        [CHR 0x5C, CHR ''u'', CHR ''0'', CHR ''0'', hex_char (ord_of c div 16), hex_char (ord_of c mod 16)]
      else [c])"

definition line_sep :: "bytes \<Rightarrow> bool" where
  "line_sep s = (take 2 s = [char_of (226::nat), char_of (128::nat)] \<and>
     (take 3 s = [char_of (226::nat), char_of (128::nat), char_of (168::nat)] \<or>
      take 3 s = [char_of (226::nat), char_of (128::nat), char_of (169::nat)]))"

text \<open>The body of the literal that \<open>json.Marshal\<close> writes for a Go string.\<close>

fun quote :: "bytes \<Rightarrow> bytes" where
  "quote [] = []"
| "quote (c # s) =
     (if ord_of c < 128 then esc_byte c @ quote s
      else (let n = rune_size (c # s) in
        if n = 0 then [CHR 0x5C, CHR ''u'', CHR ''f'', CHR ''f'', CHR ''f'', CHR ''d''] @ quote s
        else if line_sep (c # s) then
          [CHR 0x5C, CHR ''u'', CHR ''2'', CHR ''0'', CHR ''2'',
           hex_char (ord_of ((c # s) ! 2) mod 16)] @ quote (drop (n - 1) s)
        else take n (c # s) @ quote (drop (n - 1) s)))"

definition simple_escape :: "char \<Rightarrow> char" where
  "simple_escape e = (if e = CHR ''b'' then char_of (8::nat) else if e = CHR ''f'' then char_of (12::nat)
     else if e = CHR ''n'' then char_of (10::nat) else if e = CHR ''r'' then char_of (13::nat)
     else if e = CHR ''t'' then char_of (9::nat) else e)"

definition is_surrogate :: "nat \<Rightarrow> bool" where
  "is_surrogate r \<longleftrightarrow> 55296 \<le> r \<and> r < 57344"

text \<open>\<open>utf16.DecodeRune\<close>: a high and a low surrogate make one code point.\<close>

definition surrogate_pair :: "nat \<Rightarrow> nat \<Rightarrow> nat option" where
  "surrogate_pair r1 r2 =
     (if 55296 \<le> r1 \<and> r1 < 56320 \<and> 56320 \<le> r2 \<and> r2 < 57344
      then Some ((r1 - 55296) * 1024 + (r2 - 56320) + 65536) else None)"

text \<open>The Go string a literal body stands for (the literal is one the reader accepted).\<close>

function unquote :: "bytes \<Rightarrow> bytes" where
  "unquote [] = []"
| "unquote (c # s) =
     (if c = CHR 0x5C then
        (case s of
           [] \<Rightarrow> []
         | e # s1 \<Rightarrow>
            if e = CHR ''u'' then
              (case get_u4 s1 of
                 None \<Rightarrow> []
               | Some r \<Rightarrow>
                  if is_surrogate r then
                    (case (if take 2 (drop 4 s1) = [CHR 0x5C, CHR ''u''] then get_u4 (drop 6 s1) else None) of
                       None \<Rightarrow> replacement @ unquote (drop 4 s1)
                     | Some r2 \<Rightarrow>
                        (case surrogate_pair r r2 of
                           None \<Rightarrow> replacement @ unquote (drop 4 s1)
                         | Some q \<Rightarrow> utf8_encode q @ unquote (drop 10 s1)))
                  else utf8_encode r @ unquote (drop 4 s1))
            else simple_escape e # unquote s1)
      else if ord_of c < 128 then c # unquote s
      else (let n = rune_size (c # s) in
        if n = 0 then replacement @ unquote s
        else take n (c # s) @ unquote (drop (n - 1) s)))"
  by pat_completeness auto
termination
  by (relation "measure length") (auto simp: le_imp_less_Suc)

declare unquote.simps(2) [simp del]

lemma unquote_ascii [simp]:
  "c \<noteq> CHR 0x5C \<Longrightarrow> ord_of c < 128 \<Longrightarrow> unquote (c # s) = c # unquote s"
  by (subst unquote.simps) simp

lemma unquote_escape [simp]:
  "e \<noteq> CHR ''u'' \<Longrightarrow> unquote (CHR 0x5C # e # s) = simple_escape e # unquote s"
  by (subst unquote.simps) simp

lemma unquote_u:
  "get_u4 s = Some r \<Longrightarrow> \<not> is_surrogate r \<Longrightarrow>
   unquote (CHR 0x5C # CHR ''u'' # s) = utf8_encode r @ unquote (drop 4 s)"
  by (subst unquote.simps) simp

lemma unquote_rune:
  assumes "rune_size s = n" "n \<noteq> 0" "\<not> ord_of (hd s) < 128"
  shows "unquote (take n s @ t) = take n s @ unquote t"
proof -
  from assms(1,2) obtain c r where s: "s = c # r" by (cases s) auto
  obtain m where m: "n = Suc m" using assms(2) by (cases n) auto
  have le: "m \<le> length r" using rune_size_le [of s] assms(1) s m by simp
  have "rune_size (c # take m r @ t) = Suc m"
    using rune_size_take [OF assms(1,2), of t] s m by simp
  moreover have "c \<noteq> CHR 0x5C" using assms(3) s by auto
  ultimately show ?thesis
    using assms(3) s m le by (simp add: unquote.simps(2) [of c "take m r @ t"])
qed

lemma hex_val_char [simp]: "n < 16 \<Longrightarrow> hex_val (hex_char n) = Some n"
  by (auto simp: hex_val_def hex_char_def is_digit_def byte_in_def)

lemma hex_val_0 [simp]: "hex_val CHR ''0'' = Some 0" "hex_val CHR ''2'' = Some 2"
    "hex_val CHR ''f'' = Some 15" "hex_val CHR ''d'' = Some 13"
  by (simp_all add: hex_val_def is_digit_def byte_in_def)

lemma unquote_esc_byte:
  assumes "ord_of c < 128"
  shows "unquote (esc_byte c @ q) = c # unquote q"
proof -
  have c: "c = char_of (ord_of c)" by simp
  have "get_u4 (CHR ''0'' # CHR ''0'' # hex_char (ord_of c div 16) # hex_char (ord_of c mod 16) # q)
      = Some (ord_of c)"
    using assms by (simp add: get_u4_def)
  then have u: "unquote (CHR 0x5C # CHR ''u'' # CHR ''0'' # CHR ''0'' # hex_char (ord_of c div 16) #
      hex_char (ord_of c mod 16) # q) = c # unquote q"
    using assms by (subst unquote_u) (auto simp: is_surrogate_def utf8_encode_def)
  show ?thesis
    unfolding esc_byte_def using u assms
    by (auto simp: simple_escape_def intro: c [symmetric] dest: arg_cong [where f = "char_of :: nat \<Rightarrow> char"])
qed

lemma line_sepD:
  assumes "line_sep (c # s)"
  obtains d e r where "s = d # e # r" "c = char_of (226::nat)" "d = char_of (128::nat)"
    "e = char_of (168::nat) \<or> e = char_of (169::nat)"
  using assms by (cases s; cases "tl s") (auto simp: line_sep_def numeral_eq_Suc)

lemma unquote_line_sep:
  assumes "line_sep (c # s)"
  shows "unquote ([CHR 0x5C, CHR ''u'', CHR ''2'', CHR ''0'', CHR ''2'',
           hex_char (ord_of ((c # s) ! 2) mod 16)] @ q) = take 3 (c # s) @ unquote q"
proof -
  from assms obtain d e r where s: "s = d # e # r" "c = char_of (226::nat)" "d = char_of (128::nat)"
    and e: "e = char_of (168::nat) \<or> e = char_of (169::nat)" by (rule line_sepD)
  define k where "k = ord_of e mod 16"
  have k: "k = 8 \<and> e = char_of (168::nat) \<or> k = 9 \<and> e = char_of (169::nat)"
    using e by (auto simp: k_def)
  then have "get_u4 (CHR ''2'' # CHR ''0'' # CHR ''2'' # hex_char k # q) = Some (8224 + k)"
    by (auto simp: get_u4_def)
  then have "unquote (CHR 0x5C # CHR ''u'' # CHR ''2'' # CHR ''0'' # CHR ''2'' # hex_char k # q)
      = utf8_encode (8224 + k) @ unquote q"
    using k by (subst unquote_u) (auto simp: is_surrogate_def)
  moreover have "utf8_encode (8224 + k) = [c, d, e]"
    using k s by (auto simp: utf8_encode_def)
  ultimately show ?thesis using s by (simp add: k_def)
qed

text \<open>Reading back the literal \<open>json.Marshal\<close> writes gives the string with invalid bytes replaced.\<close>

lemma unquote_quote: "unquote (quote s) = to_valid s"
proof (induction s rule: quote.induct)
  case (2 c s)
  show ?case
  proof (cases "ord_of c < 128")
    case True
    with "2.IH"(1) show ?thesis by (simp add: unquote_esc_byte)
  next
    case False
    note IH = "2.IH"(2,3,4) [OF False refl]
    consider (bad) "rune_size (c # s) = 0" | (sep) "rune_size (c # s) \<noteq> 0" "line_sep (c # s)"
      | (rune) "rune_size (c # s) \<noteq> 0" "\<not> line_sep (c # s)" by blast
    then show ?thesis
    proof cases
      case bad
      have "get_u4 (CHR ''f'' # CHR ''f'' # CHR ''f'' # CHR ''d'' # quote s) = Some 65533"
        by (simp add: get_u4_def)
      then have "unquote (CHR 0x5C # CHR ''u'' # CHR ''f'' # CHR ''f'' # CHR ''f'' # CHR ''d'' # quote s)
          = replacement @ unquote (quote s)"
        by (subst unquote_u) (auto simp: is_surrogate_def utf8_encode_def replacement_def)
      with bad False IH(1) show ?thesis by (simp add: Let_def)
    next
      case sep
      from sep(2) have "rune_size (c # s) = 3"
        by (elim line_sepD) (auto simp: rune_size_def byte_in_def is_cont_def)
      with sep False IH(2) show ?thesis
        using unquote_line_sep [OF sep(2), of "quote (drop 2 s)"] by simp
    next
      case rune
      have "unquote (take (rune_size (c # s)) (c # s) @ quote (drop (rune_size (c # s) - 1) s))
          = take (rune_size (c # s)) (c # s) @ unquote (quote (drop (rune_size (c # s) - 1) s))"
        using rune False by (intro unquote_rune) auto
      with rune False IH(3) show ?thesis by (simp add: Let_def)
    qed
  qed
qed simp

subsection \<open>JSON values: reader and compact writer\<close>

datatype json = JNull | JBool bool | JNum bytes | JStr bytes | JArr "json list" | JObj "(bytes \<times> json) list"

definition is_ws :: "char \<Rightarrow> bool" where
  "is_ws c \<longleftrightarrow> ord_of c = 32 \<or> ord_of c = 9 \<or> ord_of c = 10 \<or> ord_of c = 13"

definition skip_ws :: "bytes \<Rightarrow> bytes" where
  "skip_ws s = dropWhile is_ws s"

text \<open>The body of a string literal after the opening quote, and what follows the closing one.\<close>

fun rd_str :: "bytes \<Rightarrow> (bytes \<times> bytes) option" where
  "rd_str [] = None"
| "rd_str (c # s) =
     (if c = CHR 0x22 then Some ([], s)
      else if ord_of c < 32 then None
      else if c = CHR 0x5C then
        (case s of
           [] \<Rightarrow> None
         | e # s1 \<Rightarrow>
            if e = CHR ''u'' then
              (if get_u4 s1 = None then None
               else map_option (\<lambda>(b, r). (c # e # take 4 s1 @ b, r)) (rd_str (drop 4 s1)))
            else if e \<in> {CHR ''b'', CHR ''f'', CHR ''n'', CHR ''r'', CHR ''t'', CHR 0x5C, CHR ''/'', CHR 0x22}
            then map_option (\<lambda>(b, r). (c # e # b, r)) (rd_str s1)
            else None)
      else map_option (\<lambda>(b, r). (c # b, r)) (rd_str s))"

text \<open>A number literal: sign, integer part, fraction, exponent.\<close>

definition rd_int_part :: "bytes \<Rightarrow> (bytes \<times> bytes) option" where
  "rd_int_part s = (case s of
     [] \<Rightarrow> None
   | c # r \<Rightarrow> if c = CHR ''0'' then Some ([c], r)
       else if is_digit c then Some (takeWhile is_digit s, dropWhile is_digit s) else None)"

definition rd_frac :: "bytes \<Rightarrow> (bytes \<times> bytes) option" where
  "rd_frac s = (case s of
     c # d # r \<Rightarrow> if c = CHR ''.'' then
         (if is_digit d then Some (c # takeWhile is_digit (d # r), dropWhile is_digit (d # r)) else None)
       else Some ([], s)
   | [c] \<Rightarrow> if c = CHR ''.'' then None else Some ([], s)
   | [] \<Rightarrow> Some ([], []))"

definition rd_exp :: "bytes \<Rightarrow> (bytes \<times> bytes) option" where
  "rd_exp s = (case s of
     [] \<Rightarrow> Some ([], [])
   | c # r \<Rightarrow>
      if c = CHR ''e'' \<or> c = CHR ''E'' then
        (let (sg, r1) = (case r of x # r' \<Rightarrow> if x = CHR ''+'' \<or> x = CHR ''-'' then ([x], r') else ([], r)
                         | [] \<Rightarrow> ([], []));
             ds = takeWhile is_digit r1
         in if ds = [] then None else Some (c # sg @ ds, dropWhile is_digit r1))
      else Some ([], s))"

definition rd_num :: "bytes \<Rightarrow> (bytes \<times> bytes) option" where
  "rd_num s =
     (let (sg, s0) = (case s of c # r \<Rightarrow> if c = CHR ''-'' then ([c], r) else ([], s) | [] \<Rightarrow> ([], []))
      in case rd_int_part s0 of
           None \<Rightarrow> None
         | Some (i, s1) \<Rightarrow>
            (case rd_frac s1 of
               None \<Rightarrow> None
             | Some (f, s2) \<Rightarrow>
                (case rd_exp s2 of
                   None \<Rightarrow> None
                 | Some (e, s3) \<Rightarrow> Some (sg @ i @ f @ e, s3))))"

text \<open>
  The value reader. The fuel is spent on every nested value, element and member;
  \<open>2 * length s + 2\<close> is always enough (\<open>rd_val_fuel\<close>).
\<close>

fun rd_val :: "nat \<Rightarrow> bytes \<Rightarrow> (json \<times> bytes) option"
and rd_arr :: "nat \<Rightarrow> bytes \<Rightarrow> (json list \<times> bytes) option"
and rd_obj :: "nat \<Rightarrow> bytes \<Rightarrow> ((bytes \<times> json) list \<times> bytes) option" where
  "rd_val 0 s = None"
| "rd_val (Suc n) s =
     (case skip_ws s of
        [] \<Rightarrow> None
      | c # r \<Rightarrow>
         if c = CHR 0x22 then map_option (\<lambda>(b, t). (JStr b, t)) (rd_str r)
         else if c = CHR ''['' then
           (case skip_ws r of
              [] \<Rightarrow> None
            | d # t \<Rightarrow> if d = CHR '']'' then Some (JArr [], t)
                else map_option (\<lambda>(vs, t). (JArr vs, t)) (rd_arr n (d # t)))
         else if c = CHR ''{'' then
           (case skip_ws r of
              [] \<Rightarrow> None
            | d # t \<Rightarrow> if d = CHR ''}'' then Some (JObj [], t)
                else map_option (\<lambda>(ms, t). (JObj ms, t)) (rd_obj n (d # t)))
         else if has_prefix ''null'' (c # r) then Some (JNull, drop 3 r)
         else if has_prefix ''true'' (c # r) then Some (JBool True, drop 3 r)
         else if has_prefix ''false'' (c # r) then Some (JBool False, drop 4 r)
         else map_option (\<lambda>(b, t). (JNum b, t)) (rd_num (c # r)))"
| "rd_arr 0 s = None"
| "rd_arr (Suc n) s =
     (case rd_val n s of
        None \<Rightarrow> None
      | Some (v, r) \<Rightarrow>
         (case skip_ws r of
            [] \<Rightarrow> None
          | c # t \<Rightarrow> if c = CHR '']'' then Some ([v], t)
              else if c = CHR '','' then map_option (\<lambda>(vs, t). (v # vs, t)) (rd_arr n t)
              else None))"
| "rd_obj 0 s = None"
| "rd_obj (Suc n) s =
     (case skip_ws s of
        [] \<Rightarrow> None
      | q # r0 \<Rightarrow>
         if q \<noteq> CHR 0x22 then None
         else (case rd_str r0 of
            None \<Rightarrow> None
          | Some (k, r1) \<Rightarrow>
             (case skip_ws r1 of
                [] \<Rightarrow> None
              | d # r2 \<Rightarrow>
                 if d \<noteq> CHR '':'' then None
                 else (case rd_val n r2 of
                    None \<Rightarrow> None
                  | Some (v, r) \<Rightarrow>
                     (case skip_ws r of
                        [] \<Rightarrow> None
                      | c # t \<Rightarrow> if c = CHR ''}'' then Some ([(k, v)], t)
                          else if c = CHR '','' then map_option (\<lambda>(ms, t). ((k, v) # ms, t)) (rd_obj n t)
                          else None)))))"

declare rd_val.simps(2) [simp del] rd_arr.simps(2) [simp del] rd_obj.simps(2) [simp del]

text \<open>
  \<open>read_doc\<close> is the one value of a text that holds exactly one: what
  \<open>Decode(v)\<close> followed by \<open>Decode(&struct{}{}) == io.EOF\<close> accepts, and what
  \<open>json.Valid\<close> accepts. \<open>read_first\<close> is what a single \<open>Decode\<close> reads.
\<close>

definition read_first :: "bytes \<Rightarrow> (json \<times> bytes) option" where
  "read_first s = rd_val (2 * length s + 2) s"

definition read_doc :: "bytes \<Rightarrow> json option" where
  "read_doc s = (case read_first s of
     None \<Rightarrow> None
   | Some (v, r) \<Rightarrow> if skip_ws r = [] then Some v else None)"

definition json_valid :: "bytes \<Rightarrow> bool" where
  "json_valid s = (read_doc s \<noteq> None)"

fun wr :: "json \<Rightarrow> bytes" where
  "wr JNull = ''null''"
| "wr (JBool b) = (if b then ''true'' else ''false'')"
| "wr (JNum l) = l"
| "wr (JStr b) = CHR 0x22 # b @ [CHR 0x22]"
| "wr (JArr vs) = CHR ''['' # join_byte CHR '','' (map wr vs) @ [CHR '']'']"
| "wr (JObj ms) = CHR ''{'' # join_byte CHR '',''
     (map (\<lambda>(k, v). CHR 0x22 # k @ CHR 0x22 # CHR '':'' # wr v) ms) @ [CHR ''}'']"

text \<open>Well-formed values: every literal is one the reader accepts whole.\<close>

definition str_ok :: "bytes \<Rightarrow> bool" where
  "str_ok b \<longleftrightarrow> rd_str (b @ [CHR 0x22]) = Some (b, [])"

definition num_ok :: "bytes \<Rightarrow> bool" where
  "num_ok l \<longleftrightarrow> rd_num l = Some (l, [])"

fun wf_json :: "json \<Rightarrow> bool" where
  "wf_json JNull = True"
| "wf_json (JBool b) = True"
| "wf_json (JNum l) = num_ok l"
| "wf_json (JStr b) = str_ok b"
| "wf_json (JArr vs) = list_all wf_json vs"
| "wf_json (JObj ms) = list_all (\<lambda>(k, v). str_ok k \<and> wf_json v) ms"

subsection \<open>Reading back what the writer prints\<close>

lemma get_u4_append: "get_u4 s = Some r \<Longrightarrow> get_u4 (s @ t) = Some r \<and> 4 \<le> length s"
  by (auto simp: get_u4_def split: list.splits)

lemma rd_str_append: "rd_str s = Some (b, r) \<Longrightarrow> rd_str (s @ t) = Some (b, r @ t)"
proof (induction s arbitrary: b r rule: rd_str.induct)
  case (2 c s)
  show ?case
  proof (cases "c = CHR 0x22 \<or> ord_of c < 32 \<or> c \<noteq> CHR 0x5C")
    case True
    with 2 show ?thesis by (auto split: if_splits)
  next
    case False
    then have c: "c \<noteq> CHR 0x22" "\<not> ord_of c < 32" "c = CHR 0x5C" by auto
    with "2.prems" obtain e s1 where s: "s = e # s1" by (cases s) auto
    show ?thesis
    proof (cases "e = CHR ''u''")
      case True
      with "2.prems" False s obtain w b' where w: "get_u4 s1 = Some w"
        and b': "rd_str (drop 4 s1) = Some (b', r)" "b = c # e # take 4 s1 @ b'"
        by (auto split: if_splits)
      from get_u4_append [OF w, of t] have "get_u4 (s1 @ t) \<noteq> None" "4 \<le> length s1" by auto
      moreover have "rd_str (drop 4 s1 @ t) = Some (b', r @ t)"
        by (rule "2.IH"(1) [OF c s True _ b'(1)]) (use w in simp)
      ultimately show ?thesis using False s True b'(2) by simp
    next
      case eu: False
      with "2.prems" False s obtain b' where b': "rd_str s1 = Some (b', r)" "b = c # e # b'"
        and e: "e \<in> {CHR ''b'', CHR ''f'', CHR ''n'', CHR ''r'', CHR ''t'', CHR 0x5C, CHR ''/'', CHR 0x22}"
        by (auto split: if_splits)
      have "rd_str (s1 @ t) = Some (b', r @ t)"
        by (rule "2.IH"(2) [OF c s eu e b'(1)])
      then show ?thesis using False s eu e b'(2) by simp
    qed
  qed
qed simp

lemma str_okD: "str_ok b \<Longrightarrow> rd_str (b @ CHR 0x22 # t) = Some (b, t)"
  unfolding str_ok_def by (drule rd_str_append [where t = t]) simp

definition num_stop :: "bytes \<Rightarrow> bool" where
  "num_stop t = (case t of [] \<Rightarrow> True
     | c # _ \<Rightarrow> \<not> is_digit c \<and> c \<noteq> CHR ''.'' \<and> c \<noteq> CHR ''e'' \<and> c \<noteq> CHR ''E'')"

lemma num_stop_while:
  "num_stop t \<Longrightarrow> takeWhile is_digit t = [] \<and> dropWhile is_digit t = t"
  by (cases t) (auto simp: num_stop_def)

lemma while_append:
  assumes "dropWhile P s = [] \<longrightarrow> takeWhile P t = [] \<and> dropWhile P t = t"
  shows "takeWhile P (s @ t) = takeWhile P s" "dropWhile P (s @ t) = dropWhile P s @ t"
proof -
  show "takeWhile P (s @ t) = takeWhile P s"
    using assms by (induction s) auto
  show "dropWhile P (s @ t) = dropWhile P s @ t"
    using assms by (induction s) auto
qed

lemma rd_int_part_append:
  assumes "rd_int_part s = Some (i, r)" "r = [] \<longrightarrow> num_stop t"
  shows "rd_int_part (s @ t) = Some (i, r @ t)"
proof (cases s)
  case (Cons c s')
  show ?thesis
  proof (cases "c = CHR ''0''")
    case False
    with assms Cons have "is_digit c" "i = takeWhile is_digit s" "r = dropWhile is_digit s"
      by (auto simp: rd_int_part_def split: if_splits)
    with while_append [of is_digit s t] False Cons assms(2) num_stop_while show ?thesis
      by (simp add: rd_int_part_def)
  qed (use assms Cons in \<open>auto simp: rd_int_part_def\<close>)
qed (use assms in \<open>simp add: rd_int_part_def\<close>)

lemma rd_frac_append:
  assumes "rd_frac s = Some (i, r)" "r = [] \<longrightarrow> num_stop t"
  shows "rd_frac (s @ t) = Some (i, r @ t)"
proof -
  consider "s = []" | c where "s = [c]" | c d s' where "s = c # d # s'"
    by (cases s; cases "tl s") auto
  then show ?thesis
  proof cases
    case 1
    with assms show ?thesis by (cases t; cases "tl t") (auto simp: rd_frac_def num_stop_def)
  next
    case (2 c)
    with assms show ?thesis by (cases t) (auto simp: rd_frac_def split: if_splits)
  next
    case (3 c d s')
    show ?thesis
    proof (cases "c = CHR ''.''")
      case True
      with assms 3 have "is_digit d" "i = c # takeWhile is_digit (d # s')" "r = dropWhile is_digit (d # s')"
        by (auto simp: rd_frac_def split: if_splits)
      with while_append [of is_digit "d # s'" t] True 3 assms(2) num_stop_while show ?thesis
        by (simp add: rd_frac_def)
    qed (use assms 3 in \<open>auto simp: rd_frac_def\<close>)
  qed
qed

lemma rd_exp_append:
  assumes "rd_exp s = Some (i, r)" "r = [] \<longrightarrow> num_stop t"
  shows "rd_exp (s @ t) = Some (i, r @ t)"
proof (cases s)
  case Nil
  with assms show ?thesis by (cases t) (auto simp: rd_exp_def num_stop_def)
next
  case (Cons c s')
  show ?thesis
  proof (cases "c = CHR ''e'' \<or> c = CHR ''E''")
    case True
    define p where "p = (case s' of x # r' \<Rightarrow> if x = CHR ''+'' \<or> x = CHR ''-'' then ([x], r') else ([], s')
                         | [] \<Rightarrow> ([], []))"
    obtain sg r1 where p: "p = (sg, r1)" by (cases p)
    from assms(1) Cons True p have r: "takeWhile is_digit r1 \<noteq> []" "i = c # sg @ takeWhile is_digit r1"
      "r = dropWhile is_digit r1"
      by (auto simp: rd_exp_def p_def [symmetric] Let_def split: if_splits)
    then have "s' \<noteq> []" using p by (auto simp: p_def)
    then have "(case s' @ t of x # r' \<Rightarrow> if x = CHR ''+'' \<or> x = CHR ''-'' then ([x], r') else ([], s' @ t)
                         | [] \<Rightarrow> ([], [])) = (sg, r1 @ t)"
      using p by (cases s') (auto simp: p_def split: if_splits)
    with True r while_append [of is_digit r1 t] assms(2) num_stop_while Cons show ?thesis
      by (simp add: rd_exp_def)
  qed (use assms Cons in \<open>auto simp: rd_exp_def\<close>)
qed

lemma rd_num_append:
  assumes "rd_num s = Some (l, [])" "num_stop t"
  shows "rd_num (s @ t) = Some (l, t)"
proof -
  define p where "p = (case s of c # r \<Rightarrow> if c = CHR ''-'' then ([c], r) else ([], s) | [] \<Rightarrow> ([], []))"
  obtain sg s0 where p: "p = (sg, s0)" by (cases p)
  from assms(1) p obtain i s1 f s2 e where
    i: "rd_int_part s0 = Some (i, s1)" and f: "rd_frac s1 = Some (f, s2)" and e: "rd_exp s2 = Some (e, [])"
    and l: "l = sg @ i @ f @ e"
    by (auto simp: rd_num_def p_def [symmetric] split: option.splits)
  from i have "s0 \<noteq> []" by (auto simp: rd_int_part_def)
  with p have "s \<noteq> []" by (auto simp: p_def)
  then have "(case s @ t of c # r \<Rightarrow> if c = CHR ''-'' then ([c], r) else ([], s @ t) | [] \<Rightarrow> ([], [])) = (sg, s0 @ t)"
    using p by (cases s) (auto simp: p_def split: if_splits)
  moreover have "rd_int_part (s0 @ t) = Some (i, s1 @ t)"
    using rd_int_part_append [OF i] assms(2) by blast
  moreover have "rd_frac (s1 @ t) = Some (f, s2 @ t)"
    using rd_frac_append [OF f] assms(2) by blast
  moreover have "rd_exp (s2 @ t) = Some (e, t)"
    using rd_exp_append [OF e] assms(2) by simp
  ultimately show ?thesis using l by (simp add: rd_num_def)
qed

lemma num_ok_hd:
  assumes "num_ok l"
  obtains c r where "l = c # r" "c = CHR ''-'' \<or> is_digit c"
proof (cases l)
  case Nil
  with assms show thesis by (simp add: num_ok_def rd_num_def rd_int_part_def)
next
  case (Cons c r)
  with assms have "c = CHR ''-'' \<or> is_digit c"
    by (auto simp: num_ok_def rd_num_def rd_int_part_def is_digit_def byte_in_def split: if_splits option.splits)
  with Cons show thesis by (rule that)
qed

lemma is_digit_simps: "is_digit c \<Longrightarrow> ord_of c \<ge> 48 \<and> ord_of c \<le> 57"
  by (simp add: is_digit_def byte_in_def)

lemma wr_hd:
  assumes "wf_json v"
  obtains c r where "wr v = c # r" "\<not> is_ws c" "c \<noteq> CHR '']''" "c \<noteq> CHR ''}''"
proof (cases v)
  case (JNum l)
  with assms obtain c r where "l = c # r" "c = CHR ''-'' \<or> is_digit c"
    by (auto elim: num_ok_hd)
  with JNum show thesis using is_digit_simps [of c]
    by (intro that [of c r]) (auto simp: is_ws_def)
next
  case (JBool b)
  then show thesis by (cases b) (auto simp: is_ws_def intro: that)
qed (use that in \<open>auto simp: is_ws_def\<close>)

lemma skip_ws_wr [simp]: "wf_json v \<Longrightarrow> skip_ws (wr v @ t) = wr v @ t"
  by (erule wr_hd) (simp add: skip_ws_def)

lemma skip_ws_Cons [simp]: "\<not> is_ws c \<Longrightarrow> skip_ws (c # t) = c # t"
  by (simp add: skip_ws_def)

lemma not_ws [simp]: "\<not> is_ws CHR '',''" "\<not> is_ws CHR '']''" "\<not> is_ws CHR ''}''"
    "\<not> is_ws CHR ''[''" "\<not> is_ws CHR ''{''" "\<not> is_ws CHR '':''" "\<not> is_ws CHR 0x22"
  by (simp_all add: is_ws_def)

lemma num_stop_simps [simp]: "num_stop []" "num_stop (CHR '','' # t)" "num_stop (CHR '']'' # t)"
    "num_stop (CHR ''}'' # t)"
  by (simp_all add: num_stop_def is_digit_def byte_in_def)

definition round_trips :: "json \<Rightarrow> bool" where
  "round_trips v \<longleftrightarrow> (\<forall>n t. num_stop t \<longrightarrow> 2 * length (wr v) < n \<longrightarrow> rd_val n (wr v @ t) = Some (v, t))"

lemma round_tripsI:
  "(\<And>m t. num_stop t \<Longrightarrow> 2 * length (wr v) \<le> m \<Longrightarrow> rd_val (Suc m) (wr v @ t) = Some (v, t)) \<Longrightarrow> round_trips v"
  unfolding round_trips_def by (metis Suc_le_D Suc_leI Suc_le_mono)

lemma round_tripsD:
  "round_trips v \<Longrightarrow> num_stop t \<Longrightarrow> 2 * length (wr v) < n \<Longrightarrow> rd_val n (wr v @ t) = Some (v, t)"
  by (simp add: round_trips_def)

lemma rd_arr_join:
  assumes "\<forall>v \<in> set (v # vs). round_trips v"
    and "2 * length (join_byte CHR '','' (map wr (v # vs))) + 1 < n"
  shows "rd_arr n (join_byte CHR '','' (map wr (v # vs)) @ CHR '']'' # t) = Some (v # vs, t)"
  using assms
proof (induction vs arbitrary: v n)
  case Nil
  then obtain m where n: "n = Suc m" by (cases n) auto
  with Nil have "rd_val m (wr v @ CHR '']'' # t) = Some (v, CHR '']'' # t)"
    by (intro round_tripsD) auto
  with n show ?case by (simp add: rd_arr.simps(2))
next
  case (Cons w vs)
  then obtain m where n: "n = Suc m" by (cases n) auto
  let ?j = "join_byte CHR '','' (map wr (w # vs))"
  have j: "join_byte CHR '','' (map wr (v # w # vs)) = wr v @ CHR '','' # ?j" by simp
  have "rd_val m (wr v @ CHR '','' # ?j @ CHR '']'' # t) = Some (v, CHR '','' # ?j @ CHR '']'' # t)"
    using Cons.prems n j by (intro round_tripsD) auto
  moreover have "rd_arr m (?j @ CHR '']'' # t) = Some (w # vs, t)"
    using Cons.prems n j by (intro Cons.IH) auto
  ultimately show ?case using n j by (simp add: rd_arr.simps(2))
qed

definition wr_member :: "bytes \<times> json \<Rightarrow> bytes" where
  "wr_member m = CHR 0x22 # fst m @ CHR 0x22 # CHR '':'' # wr (snd m)"

lemma wr_obj: "wr (JObj ms) = CHR ''{'' # join_byte CHR '','' (map wr_member ms) @ [CHR ''}'']"
  by (simp add: wr_member_def [abs_def] split_beta')

lemma rd_obj_join:
  assumes "\<forall>m \<in> set (m # ms). str_ok (fst m) \<and> round_trips (snd m)"
    and "2 * length (join_byte CHR '','' (map wr_member (m # ms))) + 1 < n"
  shows "rd_obj n (join_byte CHR '','' (map wr_member (m # ms)) @ CHR ''}'' # t) = Some (m # ms, t)"
  using assms
proof (induction ms arbitrary: m n)
  case Nil
  then obtain k where n: "n = Suc k" by (cases n) auto
  obtain a v where m: "m = (a, v)" by (cases m)
  have "rd_val k (wr v @ CHR ''}'' # t) = Some (v, CHR ''}'' # t)"
    using Nil n m by (intro round_tripsD) (auto simp: wr_member_def)
  with n m Nil show ?case by (simp add: rd_obj.simps(2) wr_member_def str_okD)
next
  case (Cons w ms)
  then obtain k where n: "n = Suc k" by (cases n) auto
  obtain a v where m: "m = (a, v)" by (cases m)
  let ?j = "join_byte CHR '','' (map wr_member (w # ms))"
  have j: "join_byte CHR '','' (map wr_member (m # w # ms)) = wr_member m @ CHR '','' # ?j" by simp
  have "rd_val k (wr v @ CHR '','' # ?j @ CHR ''}'' # t) = Some (v, CHR '','' # ?j @ CHR ''}'' # t)"
    using Cons.prems n j m by (intro round_tripsD) (auto simp: wr_member_def)
  moreover have "rd_obj k (?j @ CHR ''}'' # t) = Some (w # ms, t)"
    using Cons.prems n j by (intro Cons.IH) auto
  moreover have "wr_member m = CHR 0x22 # a @ CHR 0x22 # CHR '':'' # wr v"
    using m by (simp add: wr_member_def)
  moreover have "str_ok a" using Cons.prems(1) m by simp
  ultimately show ?case using n j m
    by (simp add: rd_obj.simps(2) str_okD del: join_byte.simps(3) list.map)
qed

lemma wf_round_trips: "wf_json v \<Longrightarrow> round_trips v"
proof (induction v)
  case JNull
  show ?case by (rule round_tripsI) (simp add: rd_val.simps(2) is_ws_def)
next
  case (JBool b)
  show ?case by (rule round_tripsI, cases b) (simp_all add: rd_val.simps(2) is_ws_def)
next
  case (JNum l)
  then have num: "num_ok l" by simp
  then obtain c r where l: "l = c # r" and c: "c = CHR ''-'' \<or> is_digit c" by (rule num_ok_hd)
  have ne: "\<not> is_ws c" "c \<noteq> CHR 0x22" "c \<noteq> CHR ''[''" "c \<noteq> CHR ''{''" "c \<noteq> CHR ''n''" "c \<noteq> CHR ''t''"
      "c \<noteq> CHR ''f''"
    using c is_digit_simps [of c] by (auto simp: is_ws_def)
  have "rd_val (Suc m) (l @ t) = Some (JNum l, t)" if "num_stop t" for m t
    using rd_num_append [OF num [unfolded num_ok_def] that] l ne by (simp add: rd_val.simps(2))
  then show ?case by (intro round_tripsI) simp
next
  case (JStr b)
  then show ?case by (intro round_tripsI) (simp add: rd_val.simps(2) str_okD)
next
  case (JArr vs)
  show ?case
  proof (cases vs)
    case Nil
    then show ?thesis by (intro round_tripsI) (simp add: rd_val.simps(2))
  next
    case (Cons v ws)
    have wf: "wf_json v" using JArr.prems Cons by simp
    have all: "\<forall>v \<in> set (v # ws). round_trips v"
      using JArr Cons by (auto simp: list_all_iff)
    have "rd_val n (wr (JArr vs) @ t) = Some (JArr vs, t)" if n: "2 * length (wr (JArr vs)) < n" for n t
    proof -
      obtain m where m: "n = Suc m" using n by (cases n) auto
      let ?j = "join_byte CHR '','' (map wr (v # ws))"
      obtain c r' where v: "wr v = c # r'" "\<not> is_ws c" "c \<noteq> CHR '']''" by (rule wr_hd [OF wf])
      then obtain r where j: "?j = c # r" by (cases ws) auto
      have "rd_arr m (?j @ CHR '']'' # t) = Some (v # ws, t)"
        using n m Cons by (intro rd_arr_join [OF all]) simp
      with j v(2,3) m Cons show ?thesis by (simp add: rd_val.simps(2) del: list.map)
    qed
    then show ?thesis by (simp add: round_trips_def)
  qed
next
  case (JObj ms)
  show ?case
  proof (cases ms)
    case Nil
    then show ?thesis by (intro round_tripsI) (simp add: rd_val.simps(2))
  next
    case (Cons v ws)
    have all: "\<forall>m \<in> set (v # ws). str_ok (fst m) \<and> round_trips (snd m)"
    proof
      fix m assume m: "m \<in> set (v # ws)"
      obtain a w where mw: "m = (a, w)" by (cases m)
      with JObj.prems m Cons have "str_ok a" "wf_json w" by (auto simp: list_all_iff)
      moreover have "round_trips w"
        using JObj.IH [of m w] m mw Cons \<open>wf_json w\<close> by simp
      ultimately show "str_ok (fst m) \<and> round_trips (snd m)" using mw by simp
    qed
    have "rd_val n (wr (JObj ms) @ t) = Some (JObj ms, t)" if n: "2 * length (wr (JObj ms)) < n" for n t
    proof -
      obtain m where m: "n = Suc m" using n by (cases n) auto
      let ?j = "join_byte CHR '','' (map wr_member (v # ws))"
      obtain r where j: "?j = CHR 0x22 # r"
        by (cases ws) (auto simp: wr_member_def)
      have "rd_obj m (?j @ CHR ''}'' # t) = Some (v # ws, t)"
        using n m Cons by (intro rd_obj_join [OF all]) (simp add: wr_obj del: wr.simps)
      with j m Cons show ?thesis by (simp add: wr_obj rd_val.simps(2) del: list.map wr.simps)
    qed
    then show ?thesis by (simp add: round_trips_def)
  qed
qed

lemma read_doc_wr [simp]: "wf_json v \<Longrightarrow> read_doc (wr v) = Some v"
  using round_tripsD [OF wf_round_trips, of v "[]" "2 * length (wr v) + 2"]
  by (simp add: read_doc_def read_first_def skip_ws_def)

text \<open>Literals \<open>json.Marshal\<close> writes for strings and integers are ones the reader accepts.\<close>

lemma get_u4_hex [simp]:
  "w < 16 \<Longrightarrow> x < 16 \<Longrightarrow>
   get_u4 (CHR ''0'' # CHR ''0'' # hex_char w # hex_char x # u) = Some (w * 16 + x)"
  by (simp add: get_u4_def)

lemma rd_str_esc:
  assumes "rd_str u = Some (b, r)" "ord_of c < 128"
  shows "rd_str (esc_byte c @ u) = Some (esc_byte c @ b, r)"
proof -
  have "ord_of c div 16 < 16" using assms(2) by simp
  then show ?thesis using assms by (auto simp: esc_byte_def)
qed

lemma rd_str_high:
  assumes "rd_str u = Some (b, r)" "\<forall>c \<in> set x. 128 \<le> ord_of c"
  shows "rd_str (x @ u) = Some (x @ b, r)"
  using assms by (induction x) auto

lemma rune_high:
  assumes "rune_size s \<noteq> 0" "\<not> ord_of (hd s) < 128"
  shows "\<forall>c \<in> set (take (rune_size s) s). 128 \<le> ord_of c"
proof (cases s rule: rune_size_cases)
  case one
  then obtain c r where "s = c # r" "ord_of c < 128" by (rule rune_size_1)
  with assms show ?thesis by simp
next
  case two
  then show ?thesis by (rule rune_size_2) (use two in \<open>auto simp: is_cont_def byte_in_def\<close>)
next
  case three
  then show ?thesis
    by (rule rune_size_3) (use three in \<open>auto simp: is_cont_def byte_in_def split: if_splits\<close>)
next
  case four
  then show ?thesis
    by (rule rune_size_4) (use four in \<open>auto simp: is_cont_def byte_in_def split: if_splits\<close>)
qed (use assms in simp)

lemma rd_str_quote: "rd_str (quote s @ CHR 0x22 # t) = Some (quote s, t)"
proof (induction s rule: quote.induct)
  case (2 c s)
  show ?case
  proof (cases "ord_of c < 128")
    case True
    with "2.IH"(1) show ?thesis by (simp add: rd_str_esc)
  next
    case False
    note IH = "2.IH"(2,3,4) [OF False refl]
    have ffd: "get_u4 (CHR ''f'' # CHR ''f'' # CHR ''f'' # CHR ''d'' # u) \<noteq> None" for u
      by (simp add: get_u4_def)
    consider (bad) "rune_size (c # s) = 0" | (sep) "rune_size (c # s) \<noteq> 0" "line_sep (c # s)"
      | (rune) "rune_size (c # s) \<noteq> 0" "\<not> line_sep (c # s)" by blast
    then show ?thesis
    proof cases
      case bad
      with False IH(1) ffd show ?thesis by (simp add: Let_def)
    next
      case sep
      have "ord_of ((c # s) ! 2) mod 16 < 16" by simp
      then have "get_u4 (CHR ''2'' # CHR ''0'' # CHR ''2'' # hex_char (ord_of ((c # s) ! 2) mod 16) # u) \<noteq> None" for u
        unfolding get_u4_def list.case hex_val_0 by (simp only: hex_val_char option.case prod.case) simp
      with sep False IH(2) show ?thesis by (simp add: Let_def)
    next
      case rune
      have "\<forall>d \<in> set (take (rune_size (c # s)) (c # s)). 128 \<le> ord_of d"
        using rune False by (intro rune_high) auto
      then have "rd_str (take (rune_size (c # s)) (c # s) @ quote (drop (rune_size (c # s) - 1) s) @ CHR 0x22 # t)
        = Some (take (rune_size (c # s)) (c # s) @ quote (drop (rune_size (c # s) - 1) s), t)"
        using rune IH(3) by (intro rd_str_high) auto
      with rune False show ?thesis by (simp add: Let_def)
    qed
  qed
qed simp

lemma str_ok_quote [simp]: "str_ok (quote s)"
  by (simp add: str_ok_def rd_str_quote)

lemma digit_char_0: "digit_char 0 = CHR ''0''"
  by code_simp

lemma show_nat_head:
  "show_nat n = (if n = 0 then [CHR ''0''] else hd (show_nat n) # tl (show_nat n)) \<and>
   (n \<noteq> 0 \<longrightarrow> hd (show_nat n) \<noteq> CHR ''0'' \<and> is_digit (hd (show_nat n)))"
proof (induction n rule: show_nat.induct)
  case (1 n)
  show ?case
  proof (cases "n < 10")
    case True
    then have "show_nat n = [digit_char n]" by (subst show_nat.simps) simp
    moreover have "digit_char n \<noteq> CHR ''0''" if "n \<noteq> 0"
      using that True digit_val_char [of n] by (auto simp: digit_val_def)
    ultimately show ?thesis using True by (auto simp: digit_char_0)
  next
    case False
    then have "n div 10 \<noteq> 0" by simp
    moreover have "show_nat n = show_nat (n div 10) @ [digit_char (n mod 10)]"
      using False by (subst show_nat.simps) simp
    ultimately show ?thesis using "1.IH" [OF False] by auto
  qed
qed

lemma rd_int_part_show: "rd_int_part (show_nat n) = Some (show_nat n, [])"
proof (cases "n = 0")
  case True
  then show ?thesis by (simp add: rd_int_part_def show_nat.simps digit_char_0)
next
  case False
  then obtain c r where "show_nat n = c # r" "c \<noteq> CHR ''0''" "is_digit c"
    using show_nat_head [of n] by (metis list.sel(1))
  moreover have "\<forall>d \<in> set (show_nat n). is_digit d" using show_nat_digits by blast
  ultimately show ?thesis
    by (simp add: rd_int_part_def)
qed

lemma num_ok_show_nat [simp]: "num_ok (show_nat n)"
proof -
  obtain c r where s: "show_nat n = c # r" by (cases "show_nat n") auto
  then have "is_digit c" using show_nat_digits [of c n] by simp
  then have "c \<noteq> CHR ''-''" using is_digit_simps [of c] by auto
  with s rd_int_part_show [of n] show ?thesis
    by (simp add: num_ok_def rd_num_def rd_frac_def rd_exp_def)
qed

lemma num_ok_show_int [simp]: "num_ok (show_int i)"
proof (cases "i < 0")
  case True
  then show ?thesis
    by (simp add: show_int_def num_ok_def rd_num_def rd_int_part_show rd_frac_def rd_exp_def)
qed (simp add: show_int_def)

text \<open>The reader consumes input, and more fuel than twice the length changes nothing.\<close>

lemma rd_str_less: "rd_str s = Some (b, r) \<Longrightarrow> length r < length s"
proof (induction s arbitrary: b r rule: rd_str.induct)
  case (2 c s)
  consider "c = CHR 0x22" | "c \<noteq> CHR 0x22" "\<not> ord_of c < 32" "c \<noteq> CHR 0x5C"
    | "c \<noteq> CHR 0x22" "\<not> ord_of c < 32" "c = CHR 0x5C"
    using "2.prems" by (auto split: if_splits)
  then show ?case
  proof cases
    case 3
    with "2.prems" obtain e s1 where s: "s = e # s1" by (cases s) auto
    show ?thesis
    proof (cases "e = CHR ''u''")
      case True
      with "2.prems" 3 s obtain b' where "get_u4 s1 \<noteq> None" "rd_str (drop 4 s1) = Some (b', r)"
        by (auto split: if_splits)
      with "2.IH"(1) [OF 3 s True] have "length r < length (drop 4 s1)" by blast
      with s show ?thesis by simp
    next
      case False
      with "2.prems" 3 s obtain b' where b: "rd_str s1 = Some (b', r)"
        and e: "e \<in> {CHR ''b'', CHR ''f'', CHR ''n'', CHR ''r'', CHR ''t'', CHR 0x5C, CHR ''/'', CHR 0x22}"
        by (auto split: if_splits)
      from "2.IH"(2) [OF 3 s False e b] s show ?thesis by simp
    qed
  qed (use 2 in \<open>fastforce+\<close>)
qed simp

lemma rd_int_part_less: "rd_int_part s = Some (i, r) \<Longrightarrow> length r < length s"
proof (cases s)
  case (Cons c s')
  assume "rd_int_part s = Some (i, r)"
  moreover have "length (dropWhile is_digit s') < Suc (length s')"
    using length_dropWhile_le [of is_digit s'] by simp
  ultimately show ?thesis using Cons by (auto simp: rd_int_part_def split: if_splits)
qed (simp add: rd_int_part_def)

lemma rd_frac_le: "rd_frac s = Some (i, r) \<Longrightarrow> length r \<le> length s"
  using length_dropWhile_le [of is_digit "tl s"]
  by (auto simp: rd_frac_def split: list.splits if_splits)

lemma rd_exp_le: "rd_exp s = Some (i, r) \<Longrightarrow> length r \<le> length s"
  using length_dropWhile_le [of is_digit "tl s"] length_dropWhile_le [of is_digit "tl (tl s)"]
  by (auto simp: rd_exp_def Let_def split: list.splits if_splits)

lemma rd_num_less:
  assumes "rd_num s = Some (l, r)"
  shows "length r < length s"
proof -
  define p where "p = (case s of c # r \<Rightarrow> if c = CHR ''-'' then ([c], r) else ([], s) | [] \<Rightarrow> ([], []))"
  obtain sg s0 where p: "p = (sg, s0)" by (cases p)
  from assms p obtain i s1 f s2 e where
    "rd_int_part s0 = Some (i, s1)" "rd_frac s1 = Some (f, s2)" "rd_exp s2 = Some (e, r)"
    by (auto simp: rd_num_def p_def [symmetric] split: option.splits)
  then have "length r < length s0"
    by (meson rd_int_part_less rd_frac_le rd_exp_le le_less_trans)
  moreover have "length s0 \<le> length s" using p by (auto simp: p_def split: list.splits if_splits)
  ultimately show ?thesis by simp
qed

lemma skip_ws_le: "skip_ws s = c # r \<Longrightarrow> length r < length s"
  by (metis Suc_le_eq length_Cons length_dropWhile_le skip_ws_def)

lemma rd_val_less:
  "rd_val n s = Some (v, r) \<Longrightarrow> length r < length s"
  "rd_arr n s = Some (vs, r) \<Longrightarrow> length r < length s"
  "rd_obj n s = Some (ms, r) \<Longrightarrow> length r < length s"
proof (induction n arbitrary: s v r vs ms)
  case (Suc n)
  {
    case 1
    then obtain c t where s: "skip_ws s = c # t" by (auto simp: rd_val.simps(2) split: list.splits)
    note ts = skip_ws_le [OF s]
    consider (str) b where "rd_str t = Some (b, r)" | (empty) d where "skip_ws t = d # r"
      | (arr) d u vs where "skip_ws t = d # u" "rd_arr n (d # u) = Some (vs, r)"
      | (obj) d u ms where "skip_ws t = d # u" "rd_obj n (d # u) = Some (ms, r)"
      | (lit) k where "r = drop k t" | (num) l where "rd_num (c # t) = Some (l, r)"
    proof (cases "c \<in> {CHR 0x22, CHR ''['', CHR ''{''}")
      case True
      then show thesis using 1 s str empty arr obj
        by (auto simp: rd_val.simps(2) split: list.splits if_split_asm)
    next
      case False
      then show thesis using 1 s lit num
        by (auto simp: rd_val.simps(2) simp del: has_prefix.simps split: if_split_asm)
    qed
    then have "length r < length (c # t)"
    proof cases
      case (arr d u vs)
      with Suc.IH(2) skip_ws_le [OF arr(1)] show ?thesis by fastforce
    next
      case (obj d u ms)
      with Suc.IH(3) skip_ws_le [OF obj(1)] show ?thesis by fastforce
    qed (auto dest: rd_str_less rd_num_less skip_ws_le)
    with ts show ?case by simp
  next
    case 2
    then obtain v t c u where v: "rd_val n s = Some (v, t)" "skip_ws t = c # u"
      by (auto simp: rd_arr.simps(2) split: option.splits list.splits)
    have "length t < length s" by (rule Suc.IH(1) [OF v(1)])
    moreover have "length r \<le> length u"
      using 2 v Suc.IH(2) by (fastforce simp: rd_arr.simps(2) split: if_splits)
    ultimately show ?case using skip_ws_le [OF v(2)] by linarith
  next
    case 3
    then obtain q r0 k r1 d r2 v t c u where v: "skip_ws s = q # r0" "rd_str r0 = Some (k, r1)"
      "skip_ws r1 = d # r2" "rd_val n r2 = Some (v, t)" "skip_ws t = c # u"
      by (auto simp: rd_obj.simps(2) split: option.splits list.splits if_splits)
    have "length t < length s"
      using skip_ws_le [OF v(1)] rd_str_less [OF v(2)] skip_ws_le [OF v(3)] Suc.IH(1) [OF v(4)] by linarith
    moreover have "length r \<le> length u"
      using 3 v Suc.IH(3) by (fastforce simp: rd_obj.simps(2) split: if_splits)
    ultimately show ?case using skip_ws_le [OF v(5)] by linarith
  }
qed simp_all

lemma rd_val_fuel:
  "2 * length s < n \<Longrightarrow> 2 * length s < m \<Longrightarrow> rd_val n s = rd_val m s"
  "2 * length s + 1 < n \<Longrightarrow> 2 * length s + 1 < m \<Longrightarrow> rd_arr n s = rd_arr m s"
  "2 * length s + 1 < n \<Longrightarrow> 2 * length s + 1 < m \<Longrightarrow> rd_obj n s = rd_obj m s"
proof (induction n arbitrary: s m)
  case (Suc n)
  {
    case 1
    then obtain m' where m: "m = Suc m'" by (cases m) auto
    have "rd_arr n (d # t) = rd_arr m' (d # t)" "rd_obj n (d # t) = rd_obj m' (d # t)"
      if "skip_ws s = c # r" "skip_ws r = d # t" for c r d t
      using 1 m skip_ws_le [OF that(1)] skip_ws_le [OF that(2)] by (intro Suc.IH(2,3); simp)+
    with m show ?case by (auto simp: rd_val.simps(2) split: list.splits)
  next
    case 2
    then obtain m' where m: "m = Suc m'" by (cases m) auto
    have "rd_val n s = rd_val m' s" using 2 m by (intro Suc.IH(1)) auto
    moreover have "rd_arr n t = rd_arr m' t" if "rd_val m' s = Some (v, r)" "skip_ws r = c # t" for v r c t
      using 2 m rd_val_less(1) [OF that(1)] skip_ws_le [OF that(2)] by (intro Suc.IH(2)) auto
    ultimately show ?case using m
      by (auto simp: rd_arr.simps(2) split: option.splits list.splits)
  next
    case 3
    then obtain m' where m: "m = Suc m'" by (cases m) auto
    have "rd_val n r2 = rd_val m' r2"
      if "skip_ws s = q # r0" "rd_str r0 = Some (k, r1)" "skip_ws r1 = d # r2" for q r0 k r1 d r2
      using 3 m skip_ws_le [OF that(1)] rd_str_less [OF that(2)] skip_ws_le [OF that(3)]
      by (intro Suc.IH(1)) auto
    moreover have "rd_obj n t = rd_obj m' t"
      if "skip_ws s = q # r0" "rd_str r0 = Some (k, r1)" "skip_ws r1 = d # r2"
         "rd_val m' r2 = Some (v, r)" "skip_ws r = c # t" for q r0 k r1 d r2 v r c t
      using 3 m skip_ws_le [OF that(1)] rd_str_less [OF that(2)] skip_ws_le [OF that(3)]
        rd_val_less(1) [OF that(4)] skip_ws_le [OF that(5)]
      by (intro Suc.IH(3)) auto
    ultimately show ?case using m
      by (auto simp: rd_obj.simps(2) split: option.splits list.splits)
  }
qed simp_all

subsection \<open>Structs: marshalling and strict decoding\<close>

text \<open>
  \<open>json.Marshal\<close> of a \<open>json.RawMessage\<close> compacts it and escapes the HTML characters and the
  two line separators inside its literals; it fails when the bytes are not one JSON value.
\<close>

fun html_lit :: "bytes \<Rightarrow> bytes" where
  "html_lit [] = []"
| "html_lit (c # s) =
     (if c = CHR ''<'' \<or> c = CHR ''>'' \<or> c = CHR ''&'' then esc_byte c @ html_lit s
      else if line_sep (c # s) then
        [CHR 0x5C, CHR ''u'', CHR ''2'', CHR ''0'', CHR ''2'', hex_char (ord_of ((c # s) ! 2) mod 16)]
        @ html_lit (drop 2 s)
      else c # html_lit s)"

fun html_json :: "json \<Rightarrow> json" where
  "html_json (JStr b) = JStr (html_lit b)"
| "html_json (JArr vs) = JArr (map html_json vs)"
| "html_json (JObj ms) = JObj (map (\<lambda>(k, v). (html_lit k, html_json v)) ms)"
| "html_json v = v"

definition marshal_raw :: "bytes \<Rightarrow> json option" where
  "marshal_raw raw = map_option html_json (read_doc raw)"

abbreviation jstring :: "bytes \<Rightarrow> json" where
  "jstring s \<equiv> JStr (quote s)"

abbreviation jint :: "int \<Rightarrow> json" where
  "jint i \<equiv> JNum (show_int i)"

text \<open>
  Object keys are matched to field names as \<open>encoding/json\<close> does, ignoring case in the
  sense of simple Unicode folding: for a field name of ASCII letters only the ASCII case
  pairs, the Kelvin sign and the long s fold onto it.
\<close>

fun fold_name :: "bytes \<Rightarrow> bytes" where
  "fold_name [] = []"
| "fold_name (c # s) =
     (if take 3 (c # s) = [char_of (226::nat), char_of (132::nat), char_of (170::nat)]
        then CHR ''k'' # fold_name (drop 2 s)
      else if take 2 (c # s) = [char_of (197::nat), char_of (191::nat)]
        then CHR ''s'' # fold_name (drop 1 s)
      else lower_char c # fold_name s)"

type_synonym 's field = "bytes \<times> (json \<Rightarrow> 's \<Rightarrow> 's option)"

fun find_field :: "'s field list \<Rightarrow> bytes \<Rightarrow> (json \<Rightarrow> 's \<Rightarrow> 's option) option" where
  "find_field [] k = None"
| "find_field ((n, f) # fs) k = (if fold_name k = fold_name n then Some f else find_field fs k)"

fun decode_members :: "'s field list \<Rightarrow> (bytes \<times> json) list \<Rightarrow> 's \<Rightarrow> 's option" where
  "decode_members fs [] s = Some s"
| "decode_members fs ((k, v) # ms) s =
     (case find_field fs (unquote k) of
        None \<Rightarrow> None
      | Some f \<Rightarrow> (case f v s of None \<Rightarrow> None | Some s' \<Rightarrow> decode_members fs ms s'))"

definition decode_struct :: "'s field list \<Rightarrow> json \<Rightarrow> 's \<Rightarrow> 's option" where
  "decode_struct fs v s = (case v of
     JNull \<Rightarrow> Some s
   | JObj ms \<Rightarrow> decode_members fs ms s
   | _ \<Rightarrow> None)"

text \<open>Field decoders: a JSON null leaves the Go value as it is.\<close>

definition f_string :: "(bytes \<Rightarrow> 's \<Rightarrow> 's) \<Rightarrow> json \<Rightarrow> 's \<Rightarrow> 's option" where
  "f_string upd v s = (case v of JStr b \<Rightarrow> Some (upd (unquote b) s) | JNull \<Rightarrow> Some s | _ \<Rightarrow> None)"

definition int_literal :: "bytes \<Rightarrow> int option" where
  "int_literal l =
     (let (neg, ds) = (case l of c # r \<Rightarrow> if c = CHR ''-'' then (True, r) else (False, l) | [] \<Rightarrow> (False, []));
          i = (if neg then - int (read_nat ds) else int (read_nat ds))
      in if ds \<noteq> [] \<and> list_all is_digit ds \<and> i64_range i then Some i else None)"

definition f_int :: "(int \<Rightarrow> 's \<Rightarrow> 's) \<Rightarrow> json \<Rightarrow> 's \<Rightarrow> 's option" where
  "f_int upd v s = (case v of
     JNum l \<Rightarrow> map_option (\<lambda>i. upd i s) (int_literal l) | JNull \<Rightarrow> Some s | _ \<Rightarrow> None)"

definition f_raw :: "(bytes \<Rightarrow> 's \<Rightarrow> 's) \<Rightarrow> json \<Rightarrow> 's \<Rightarrow> 's option" where
  "f_raw upd v s = Some (upd (wr v) s)"

fun decode_list :: "(json \<Rightarrow> 'a option) \<Rightarrow> json list \<Rightarrow> 'a list option" where
  "decode_list d [] = Some []"
| "decode_list d (v # vs) =
     (case d v of None \<Rightarrow> None | Some a \<Rightarrow> map_option ((#) a) (decode_list d vs))"

definition f_list :: "(json \<Rightarrow> 'a option) \<Rightarrow> ('a list \<Rightarrow> 's \<Rightarrow> 's) \<Rightarrow> json \<Rightarrow> 's \<Rightarrow> 's option" where
  "f_list d upd v s = (case v of
     JArr vs \<Rightarrow> map_option (\<lambda>xs. upd xs s) (decode_list d vs) | JNull \<Rightarrow> Some (upd [] s) | _ \<Rightarrow> None)"

lemma int_literal_show [simp]: "i64_range i \<Longrightarrow> int_literal (show_int i) = Some i"
proof -
  assume r: "i64_range i"
  have d: "list_all is_digit (show_nat n)" for n
    using show_nat_digits by (auto simp: list_all_iff)
  obtain c t where s: "show_nat (nat i) = c # t" by (cases "show_nat (nat i)") auto
  then have "is_digit c" using show_nat_digits [of c "nat i"] by simp
  then have "c \<noteq> CHR ''-''" using is_digit_simps [of c] by auto
  show ?thesis
  proof (cases "i < 0")
    case True
    with r d [of "nat (- i)"] show ?thesis by (simp add: int_literal_def show_int_def)
  next
    case False
    then have "show_int i = c # t" using s by (simp add: show_int_def)
    moreover have "int (read_nat (c # t)) = i" "list_all is_digit (c # t)"
      using False read_show_nat [of "nat i"] s d [of "nat i"] by auto
    ultimately show ?thesis using r \<open>c \<noteq> CHR ''-''\<close> by (simp add: int_literal_def)
  qed
qed

lemma f_simps [simp]:
  "f_string upd (JStr b) s = Some (upd (unquote b) s)"
  "f_int iupd (JNum l) s = map_option (\<lambda>i. iupd i s) (int_literal l)"
  "f_raw upd v s = Some (upd (wr v) s)"
  "f_list d lupd (JArr vs) s = map_option (\<lambda>xs. lupd xs s) (decode_list d vs)"
  by (simp_all add: f_string_def f_int_def f_raw_def f_list_def)

lemma decode_struct_obj [simp]: "decode_struct fs (JObj ms) s = decode_members fs ms s"
  by (simp add: decode_struct_def)

lemma decode_list_map:
  "(\<And>x. x \<in> set xs \<Longrightarrow> d (e x) = Some (g x)) \<Longrightarrow> decode_list d (map e xs) = Some (map g xs)"
  by (induction xs) auto

text \<open>The names the program's structs use are plain: they are their own literal.\<close>

definition plain :: "bytes \<Rightarrow> bool" where
  "plain k \<longleftrightarrow> list_all (\<lambda>c. is_lower c \<or> is_digit c \<or> c = CHR ''_'') k"

lemma plain_byte:
  assumes "is_lower c \<or> is_digit c \<or> c = CHR ''_''"
  shows "48 \<le> ord_of c" "ord_of c < 128" "c \<noteq> CHR 0x22" "c \<noteq> CHR 0x5C"
  using assms by (auto simp: is_lower_def is_digit_def byte_in_def)

lemma plain_unquote [simp]: "plain k \<Longrightarrow> unquote k = k"
proof (induction k)
  case (Cons c k)
  then have "is_lower c \<or> is_digit c \<or> c = CHR ''_''" by (simp add: plain_def)
  from plain_byte [OF this] Cons show ?case by (simp add: plain_def)
qed simp

lemma rd_str_plain: "plain k \<Longrightarrow> rd_str (k @ [CHR 0x22]) = Some (k, [])"
proof (induction k)
  case (Cons c k)
  then have "is_lower c \<or> is_digit c \<or> c = CHR ''_''" by (simp add: plain_def)
  from plain_byte [OF this] Cons show ?case by (auto simp: plain_def)
qed simp

lemma plain_str_ok: "plain k \<Longrightarrow> str_ok k"
  by (simp add: str_ok_def rd_str_plain)

lemma plain_fold [simp]: "plain k \<Longrightarrow> fold_name k = k"
proof (induction k)
  case (Cons c k)
  then have c: "is_lower c \<or> is_digit c \<or> c = CHR ''_''" by (simp add: plain_def)
  then have "lower_char c = c" by (auto simp: lower_char_def is_lower_def is_digit_def byte_in_def)
  moreover have "c \<noteq> char_of (226::nat)" "c \<noteq> char_of (197::nat)" using plain_byte [OF c] by auto
  ultimately show ?case using Cons by (simp add: plain_def take_Cons')
qed simp

lemma find_field_plain [simp]:
  "plain k \<Longrightarrow> plain n \<Longrightarrow> find_field ((n, f) # fs) k = (if k = n then Some f else find_field fs k)"
  by simp

declare find_field.simps(2) [simp del]

lemma plain_names [simp]:
  "plain ''prompt''" "plain ''cause''" "plain ''text''" "plain ''call_id''" "plain ''name''"
  "plain ''outcome''" "plain ''code''" "plain ''attempt''" "plain ''delay_ms''" "plain ''class''"
  "plain ''arguments''" "plain ''content''" "plain ''sources''" "plain ''scope''" "plain ''sha256''"
  "plain ''precedence''"
  by (simp_all add: plain_def is_lower_def is_digit_def byte_in_def)

lemmas plain_names_ok [simp] = plain_names [THEN plain_str_ok]

subsection \<open>What the reader returns is well formed\<close>

lemma rd_str_ok: "rd_str s = Some (b, r) \<Longrightarrow> s = b @ CHR 0x22 # r \<and> str_ok b"
proof (induction s arbitrary: b r rule: rd_str.induct)
  case (2 c s)
  consider "c = CHR 0x22" | "c \<noteq> CHR 0x22" "\<not> ord_of c < 32" "c \<noteq> CHR 0x5C"
    | "c \<noteq> CHR 0x22" "\<not> ord_of c < 32" "c = CHR 0x5C"
    using "2.prems" by (auto split: if_splits)
  then show ?case
  proof cases
    case 1
    with "2.prems" show ?thesis by (simp add: str_ok_def)
  next
    case 2
    with "2.prems" "2.IH"(3) show ?thesis by (fastforce simp: str_ok_def)
  next
    case 3
    with "2.prems" obtain e s1 where s: "s = e # s1" by (cases s) auto
    show ?thesis
    proof (cases "e = CHR ''u''")
      case True
      with "2.prems" 3 s obtain b' where b: "get_u4 s1 \<noteq> None" "rd_str (drop 4 s1) = Some (b', r)"
        "b = c # e # take 4 s1 @ b'" by (auto split: if_splits)
      have IH: "drop 4 s1 = b' @ CHR 0x22 # r" "str_ok b'"
        using "2.IH"(1) [OF 3 s True _ b(2)] b(1) by auto
      obtain w where w: "get_u4 s1 = Some w" using b(1) by auto
      have u: "get_u4 (take 4 s1 @ t) = Some w" "4 \<le> length s1" for t
        using w by (auto simp: get_u4_def split: list.splits)
      have "s1 = take 4 s1 @ b' @ CHR 0x22 # r" using IH(1) by (metis append_take_drop_id)
      moreover have "rd_str (b @ [CHR 0x22]) = Some (b, [])"
        using b(3) 3 True u IH(2) by (simp add: str_ok_def)
      ultimately show ?thesis using b(3) s by (simp add: str_ok_def)
    next
      case False
      with "2.prems" 3 s obtain b' where b: "rd_str s1 = Some (b', r)" "b = c # e # b'"
        and e: "e \<in> {CHR ''b'', CHR ''f'', CHR ''n'', CHR ''r'', CHR ''t'', CHR 0x5C, CHR ''/'', CHR 0x22}"
        by (auto split: if_splits)
      from "2.IH"(2) [OF 3 s False e b(1)] have "s1 = b' @ CHR 0x22 # r" "str_ok b'" by auto
      with b(2) s 3 e show ?thesis by (auto simp: str_ok_def)
    qed
  qed
qed simp

lemma takeWhile_id [simp]: "takeWhile P (takeWhile P s) = takeWhile P s" "dropWhile P (takeWhile P s) = []"
  by (induction s) auto

lemma takeWhile_cut:
  assumes "takeWhile P (i @ x @ y) = i"
  shows "takeWhile P (i @ x) = i" "dropWhile P (i @ x) = x"
proof -
  have i: "\<forall>c \<in> set i. P c" using assms by (metis set_takeWhileD)
  then have "takeWhile P (x @ y) = []" using assms by (simp add: takeWhile_append)
  then have "takeWhile P x = []" by (cases x) (auto split: if_splits)
  with i show "takeWhile P (i @ x) = i" "dropWhile P (i @ x) = x"
    by (auto simp: takeWhile_append dropWhile_append takeWhile_eq_Nil_iff dropWhile_eq_self_iff)
qed

lemma rd_int_part_cut:
  assumes "rd_int_part s = Some (i, r)"
  shows "s = i @ r" "i \<noteq> []" "r = x @ y \<Longrightarrow> rd_int_part (i @ x) = Some (i, x)"
proof -
  from assms obtain c s' where s: "s = c # s'" by (cases s) (auto simp: rd_int_part_def)
  show *: "s = i @ r" using assms s by (auto simp: rd_int_part_def split: if_splits)
  show ne: "i \<noteq> []" using assms s by (auto simp: rd_int_part_def split: if_splits)
  show "rd_int_part (i @ x) = Some (i, x)" if r: "r = x @ y"
  proof (cases "c = CHR ''0''")
    case True
    with assms s show ?thesis by (auto simp: rd_int_part_def)
  next
    case False
    with assms s have i: "is_digit c" "i = takeWhile is_digit s" by (auto simp: rd_int_part_def split: if_splits)
    obtain i' where i': "i = c # i'" using i s by simp
    have "takeWhile is_digit (i @ x @ y) = i" using i(2) * r by simp
    from takeWhile_cut [OF this] False i(1) i' show ?thesis by (simp add: rd_int_part_def)
  qed
qed

lemma rd_frac_cut:
  assumes "rd_frac s = Some (i, r)"
  shows "s = i @ r" "r = x @ y \<Longrightarrow> rd_frac (i @ x) = Some (i, x)"
proof -
  consider "s = []" | c where "s = [c]" | c d s' where "s = c # d # s'" by (cases s; cases "tl s") auto
  then have "s = i @ r \<and> (r = x @ y \<longrightarrow> rd_frac (i @ x) = Some (i, x))"
  proof cases
    case 1
    with assms show ?thesis by (auto simp: rd_frac_def)
  next
    case (2 c)
    with assms show ?thesis by (cases x) (auto simp: rd_frac_def split: if_splits)
  next
    case (3 c d s')
    show ?thesis
    proof (cases "c = CHR ''.''")
      case True
      with assms 3 have i: "is_digit d" "i = c # takeWhile is_digit (d # s')" "r = dropWhile is_digit (d # s')"
        by (auto simp: rd_frac_def split: if_splits)
      have s: "s = i @ r" using 3 i by simp
      have "rd_frac (i @ x) = Some (i, x)" if r: "r = x @ y"
      proof -
        have "takeWhile is_digit (takeWhile is_digit (d # s') @ x @ y) = takeWhile is_digit (d # s')"
          using i r by (metis takeWhile_dropWhile_id)
        from takeWhile_cut [OF this] i True show ?thesis by (simp add: rd_frac_def)
      qed
      with s show ?thesis by blast
    next
      case False
      with assms 3 have "i = []" "r = s" by (auto simp: rd_frac_def)
      with 3 False show ?thesis by (cases x; cases "tl x") (auto simp: rd_frac_def)
    qed
  qed
  then show "s = i @ r" "r = x @ y \<Longrightarrow> rd_frac (i @ x) = Some (i, x)" by auto
qed

lemma rd_exp_ok: "rd_exp s = Some (i, r) \<Longrightarrow> s = i @ r \<and> rd_exp i = Some (i, [])"
proof (cases s)
  case (Cons c s')
  assume e: "rd_exp s = Some (i, r)"
  show ?thesis
  proof (cases "c = CHR ''e'' \<or> c = CHR ''E''")
    case True
    define p where "p = (case s' of x # r' \<Rightarrow> if x = CHR ''+'' \<or> x = CHR ''-'' then ([x], r') else ([], s')
                         | [] \<Rightarrow> ([], []))"
    obtain sg r1 where p: "p = (sg, r1)" by (cases p)
    from e Cons True p have r: "takeWhile is_digit r1 \<noteq> []" "i = c # sg @ takeWhile is_digit r1"
      "r = dropWhile is_digit r1"
      by (auto simp: rd_exp_def p_def [symmetric] Let_def split: if_splits)
    have s': "s' = sg @ r1" using p by (auto simp: p_def split: list.splits if_splits)
    let ?d = "takeWhile is_digit r1"
    have "(case sg @ ?d of x # r' \<Rightarrow> if x = CHR ''+'' \<or> x = CHR ''-'' then ([x], r') else ([], sg @ ?d)
                         | [] \<Rightarrow> ([], [])) = (sg, ?d)"
      using p r(1) by (cases r1) (auto simp: p_def split: list.splits if_splits)
    with True r have "rd_exp i = Some (i, [])" by (simp add: rd_exp_def)
    with Cons s' r show ?thesis by simp
  qed (use e Cons in \<open>auto simp: rd_exp_def\<close>)
qed (simp add: rd_exp_def)

lemma rd_num_ok:
  assumes "rd_num s = Some (l, r)"
  shows "num_ok l"
proof -
  define p where "p = (case s of c # r \<Rightarrow> if c = CHR ''-'' then ([c], r) else ([], s) | [] \<Rightarrow> ([], []))"
  obtain sg s0 where p: "p = (sg, s0)" by (cases p)
  from assms p obtain i s1 f s2 e where
    i: "rd_int_part s0 = Some (i, s1)" and f: "rd_frac s1 = Some (f, s2)" and e: "rd_exp s2 = Some (e, r)"
    and l: "l = sg @ i @ f @ e"
    by (auto simp: rd_num_def p_def [symmetric] split: option.splits)
  note ic = rd_int_part_cut [OF i] and fc = rd_frac_cut [OF f] and eo = rd_exp_ok [OF e]
  have s1: "s1 = (f @ e) @ r" using fc(1) eo by simp
  have "rd_int_part (i @ f @ e) = Some (i, f @ e)" using ic(3) [OF s1] by simp
  moreover have "rd_frac (f @ e) = Some (f, e)" using fc(2) eo by blast
  moreover have "rd_exp e = Some (e, [])" using eo by simp
  moreover have "(case l of c # r \<Rightarrow> if c = CHR ''-'' then ([c], r) else ([], l) | [] \<Rightarrow> ([], [])) = (sg, i @ f @ e)"
  proof -
    obtain c i' where i': "i = c # i'" using ic(2) by (cases i) auto
    have "s0 = i @ s1" using ic(1) by simp
    with p i' l show ?thesis by (auto simp: p_def split: list.splits if_splits)
  qed
  ultimately show ?thesis unfolding num_ok_def rd_num_def by (simp add: l)
qed

lemma rd_val_wf:
  "rd_val n s = Some (v, r) \<Longrightarrow> wf_json v"
  "rd_arr n s = Some (vs, r) \<Longrightarrow> list_all wf_json vs"
  "rd_obj n s = Some (ms, r) \<Longrightarrow> list_all (\<lambda>(k, v). str_ok k \<and> wf_json v) ms"
proof (induction n arbitrary: s v r vs ms)
  case (Suc n)
  {
    case 1
    then obtain c t where s: "skip_ws s = c # t" by (auto simp: rd_val.simps(2) split: list.splits)
    show ?case
    proof (cases "c \<in> {CHR 0x22, CHR ''['', CHR ''{''}")
      case True
      then show ?thesis using 1 s Suc.IH(2,3) rd_str_ok
        by (auto simp: rd_val.simps(2) split: list.splits if_split_asm)
    next
      case False
      then show ?thesis using 1 s rd_num_ok
        by (auto simp: rd_val.simps(2) simp del: has_prefix.simps split: if_split_asm)
    qed
  next
    case 2
    then obtain v t c u where v: "rd_val n s = Some (v, t)" "skip_ws t = c # u"
      by (auto simp: rd_arr.simps(2) split: option.splits list.splits)
    from Suc.IH(1) [OF v(1)] 2 v Suc.IH(2) show ?case
      by (auto simp: rd_arr.simps(2) split: if_splits)
  next
    case 3
    then obtain q r0 k r1 d r2 v t c u where v: "skip_ws s = q # r0" "rd_str r0 = Some (k, r1)"
      "skip_ws r1 = d # r2" "rd_val n r2 = Some (v, t)" "skip_ws t = c # u"
      by (auto simp: rd_obj.simps(2) split: option.splits list.splits if_splits)
    from Suc.IH(1) [OF v(4)] rd_str_ok [OF v(2)] 3 v Suc.IH(3) show ?case
      by (auto simp: rd_obj.simps(2) split: if_splits)
  }
qed simp_all

lemma read_doc_wf: "read_doc s = Some v \<Longrightarrow> wf_json v"
  by (auto simp: read_doc_def read_first_def dest: rd_val_wf split: option.splits if_splits)

text \<open>Escaping the HTML characters keeps a literal a literal, and is done once.\<close>

lemma str_ok_Cons:
  assumes "str_ok (c # b)"
  shows "c \<noteq> CHR 0x22 \<and> 32 \<le> ord_of c \<and> (c \<noteq> CHR 0x5C \<longrightarrow> str_ok b)"
  using assms by (auto simp: str_ok_def split: if_splits)

lemma str_ok_escape:
  assumes "str_ok (CHR 0x5C # b)"
  obtains e b' where "b = e # b'" "e \<noteq> CHR ''u''" "str_ok b'"
      "e \<in> {CHR ''b'', CHR ''f'', CHR ''n'', CHR ''r'', CHR ''t'', CHR 0x5C, CHR ''/'', CHR 0x22}"
    | h b' w where "b = CHR ''u'' # h @ b'" "length h = 4" "\<forall>t. get_u4 (h @ t) = Some w" "str_ok b'"
proof -
  from assms obtain e b1 where b: "b = e # b1" by (cases b) (auto simp: str_ok_def)
  show thesis
  proof (cases "e = CHR ''u''")
    case True
    from assms b True obtain w where w: "get_u4 (b1 @ [CHR 0x22]) = Some w"
      and r: "map_option (\<lambda>(x, r). (take 4 (b1 @ [CHR 0x22]) @ x, r)) (rd_str (drop 4 (b1 @ [CHR 0x22]))) = Some (b1, [])"
      by (auto simp: str_ok_def map_option_case split: if_splits option.splits)
    have "4 \<le> length b1"
    proof (rule ccontr)
      assume "\<not> 4 \<le> length b1"
      moreover have "4 \<le> length (b1 @ [CHR 0x22])" using get_u4_append [OF w] by blast
      ultimately have "length b1 = 3" by simp
      then obtain x y z where "b1 = [x, y, z]" by (auto simp: numeral_eq_Suc length_Suc_conv)
      with w show False by (simp add: get_u4_def hex_val_def is_digit_def byte_in_def split: option.splits)
    qed
    then obtain h b' where h: "b1 = h @ b'" "length h = 4"
      by (metis append_take_drop_id length_take min.absorb2)
    then have "get_u4 (h @ t) = Some w" for t
      using w by (auto simp: get_u4_def numeral_eq_Suc length_Suc_conv split: list.splits)
    moreover have "str_ok b'" using r h by (auto simp: str_ok_def)
    ultimately show thesis using that(2) b True h by simp
  next
    case False
    with assms b show thesis using that(1)
      by (auto simp: str_ok_def split: if_splits)
  qed
qed

lemma line_sep_high: "line_sep (c # s) \<Longrightarrow> ord_of c = 226"
  by (rule line_sepD) auto

lemma line_sep_3: "line_sep (c # d # e # s) \<longleftrightarrow> line_sep [c, d, e]"
  by (simp add: line_sep_def)

lemma line_sep_ne: "line_sep (c # d # e # s) \<Longrightarrow>
    ord_of c = 226 \<and> ord_of d = 128 \<and> (ord_of e = 168 \<or> ord_of e = 169)"
  by (rule line_sepD) auto

abbreviation html_char :: "char \<Rightarrow> bool" where
  "html_char c \<equiv> c = CHR ''<'' \<or> c = CHR ''>'' \<or> c = CHR ''&''"

definition sep_escape :: "char \<Rightarrow> bytes" where
  "sep_escape e = [CHR 0x5C, CHR ''u'', CHR ''2'', CHR ''0'', CHR ''2'', hex_char (ord_of e mod 16)]"

lemma html_lit_low:
  assumes "\<forall>c \<in> set x. \<not> html_char c \<and> ord_of c < 128"
  shows "html_lit (x @ t) = x @ html_lit t"
  using assms
proof (induction x)
  case (Cons c x)
  then have "\<not> line_sep (c # x @ t)" using line_sep_high [of c "x @ t"] by auto
  with Cons show ?case by auto
qed simp

lemma hex_char_low: "n < 16 \<Longrightarrow> \<not> html_char (hex_char n) \<and> ord_of (hex_char n) < 128"
  by (auto simp: hex_char_def dest: arg_cong [where f = "of_char :: char \<Rightarrow> nat"])

lemma hex_val_low: "hex_val c = Some n \<Longrightarrow> \<not> html_char c \<and> ord_of c < 128"
  by (auto simp: hex_val_def is_digit_def byte_in_def split: if_splits)

lemma get_u4_low:
  assumes "get_u4 h = Some w" "length h = 4"
  shows "\<forall>c \<in> set h. \<not> html_char c \<and> ord_of c < 128"
proof -
  obtain a b c d where "h = [a, b, c, d]"
    using assms(2) by (auto simp: numeral_eq_Suc length_Suc_conv)
  with assms(1) show ?thesis by (auto simp: get_u4_def dest: hex_val_low split: option.splits)
qed

lemma esc_html: "html_char c \<Longrightarrow>
    esc_byte c = [CHR 0x5C, CHR ''u'', CHR ''0'', CHR ''0'', hex_char (ord_of c div 16), hex_char (ord_of c mod 16)]"
  by (auto simp: esc_byte_def)

lemma rd_str_sep:
  assumes "rd_str u = Some (b, r)"
  shows "rd_str (sep_escape e @ u) = Some (sep_escape e @ b, r)"
proof -
  have "ord_of e mod 16 < 16" by simp
  then have "get_u4 (CHR ''2'' # CHR ''0'' # CHR ''2'' # hex_char (ord_of e mod 16) # u) \<noteq> None"
    unfolding get_u4_def list.case hex_val_0 by (simp only: hex_val_char option.case prod.case) simp
  with assms show ?thesis by (simp add: sep_escape_def)
qed

text \<open>The four shapes of a literal body, as an induction principle.\<close>

lemma lit_induct [consumes 1, case_names Nil html sep esc uni char]:
  assumes "str_ok b" and "P []"
    and "\<And>c b. html_char c \<Longrightarrow> str_ok b \<Longrightarrow> P b \<Longrightarrow> P (c # b)"
    and "\<And>c d e b. line_sep (c # d # e # b) \<Longrightarrow> str_ok b \<Longrightarrow> P b \<Longrightarrow> P (c # d # e # b)"
    and "\<And>e b. e \<in> {CHR ''b'', CHR ''f'', CHR ''n'', CHR ''r'', CHR ''t'', CHR 0x5C, CHR ''/'', CHR 0x22} \<Longrightarrow>
           str_ok b \<Longrightarrow> P b \<Longrightarrow> P (CHR 0x5C # e # b)"
    and "\<And>h b w. length h = 4 \<Longrightarrow> \<forall>t. get_u4 (h @ t) = Some w \<Longrightarrow> str_ok b \<Longrightarrow> P b \<Longrightarrow>
           P (CHR 0x5C # CHR ''u'' # h @ b)"
    and "\<And>c b. \<not> html_char c \<Longrightarrow> \<not> line_sep (c # b) \<Longrightarrow> c \<noteq> CHR 0x22 \<Longrightarrow> c \<noteq> CHR 0x5C \<Longrightarrow>
           32 \<le> ord_of c \<Longrightarrow> str_ok b \<Longrightarrow> P b \<Longrightarrow> P (c # b)"
  shows "P b"
  using assms(1)
proof (induction "length b" arbitrary: b rule: less_induct)
  case less
  show ?case
  proof (cases b)
    case Nil
    with assms(2) show ?thesis by simp
  next
    case (Cons c b1)
    note c = str_ok_Cons [OF less.prems [unfolded Cons]]
    consider (esc) "c = CHR 0x5C" | (html) "c \<noteq> CHR 0x5C" "html_char c" | (sep) "c \<noteq> CHR 0x5C" "line_sep (c # b1)"
      | (char) "c \<noteq> CHR 0x5C" "\<not> html_char c" "\<not> line_sep (c # b1)" by blast
    then show ?thesis
    proof cases
      case esc
      from less.prems have "str_ok (CHR 0x5C # b1)" using Cons esc by simp
      then show ?thesis
      proof (cases rule: str_ok_escape)
        case (1 e b')
        with less.hyps [of b'] assms(5) [of e b'] Cons esc show ?thesis by simp
      next
        case (2 h b' w)
        with less.hyps [of b'] assms(6) [of h w b'] Cons esc show ?thesis by simp
      qed
    next
      case html
      with less.hyps [of b1] assms(3) [of c b1] Cons c show ?thesis by simp
    next
      case sep
      from sep(2) obtain d e r where r: "b1 = d # e # r" "c = char_of (226::nat)" "d = char_of (128::nat)"
        "e = char_of (168::nat) \<or> e = char_of (169::nat)" by (rule line_sepD)
      have o: "ord_of d = 128" "ord_of e = 168 \<or> ord_of e = 169"
        using line_sep_ne [of c d e r] sep(2) r(1) by auto
      have "str_ok b1" using c sep(1) by simp
      then have "str_ok (e # r)" using str_ok_Cons [of d "e # r"] r(1) o(1) by auto
      then have "str_ok r" using str_ok_Cons [of e r] o(2) by auto
      with less.hyps [of r] assms(4) [of c d e r] Cons sep(2) r(1) show ?thesis by simp
    next
      case char
      with less.hyps [of b1] assms(7) [of c b1] Cons c show ?thesis by simp
    qed
  qed
qed

lemma html_lit_esc: "html_char c \<Longrightarrow> html_lit (esc_byte c @ t) = esc_byte c @ html_lit t"
proof (rule html_lit_low)
  assume "html_char c"
  moreover from this have "ord_of c div 16 < 16" "ord_of c mod 16 < 16" by auto
  ultimately show "\<forall>d \<in> set (esc_byte c). \<not> html_char d \<and> ord_of d < 128"
    using hex_char_low by (auto simp: esc_html)
qed

lemma html_lit_sep: "html_lit (sep_escape e @ t) = sep_escape e @ html_lit t"
  by (rule html_lit_low) (use hex_char_low [of "ord_of e mod 16"] in \<open>auto simp: sep_escape_def\<close>)

lemma html_lit_line [simp]: "line_sep (c # d # e # b) \<Longrightarrow> html_lit (c # d # e # b) = sep_escape e @ html_lit b"
proof -
  assume sep: "line_sep (c # d # e # b)"
  then have "\<not> html_char c" using line_sep_high [OF sep] by auto
  with sep show ?thesis by (simp add: sep_escape_def)
qed

lemma html_lit_2: "\<not> html_char e \<Longrightarrow> ord_of e < 128 \<Longrightarrow>
    html_lit (CHR 0x5C # e # b) = CHR 0x5C # e # html_lit b"
  using html_lit_low [of "[CHR 0x5C, e]" b] by simp

lemma html_lit_u:
  assumes "length h = 4" "\<forall>t. get_u4 (h @ t) = Some w"
  shows "html_lit (CHR 0x5C # CHR ''u'' # h @ b) = CHR 0x5C # CHR ''u'' # h @ html_lit b"
proof -
  have "get_u4 h = Some w" using assms(2) [rule_format, of "[]"] by simp
  then have "html_lit (h @ b) = h @ html_lit b" using assms(1) get_u4_low by (intro html_lit_low) auto
  then show ?thesis using html_lit_2 [of "CHR ''u''"] by simp
qed

lemma str_ok_html: "str_ok b \<Longrightarrow> str_ok (html_lit b)"
proof (induction b rule: lit_induct)
  case (html c b)
  then show ?case using rd_str_esc [of "html_lit b @ [CHR 0x22]" "html_lit b" "[]" c]
    by (auto simp: str_ok_def)
next
  case (sep c d e b)
  then show ?case using rd_str_sep [of "html_lit b @ [CHR 0x22]" "html_lit b" "[]" e]
    by (simp add: str_ok_def del: html_lit.simps rd_str.simps)
next
  case (esc e b)
  then have "html_lit (CHR 0x5C # e # b) = CHR 0x5C # e # html_lit b" by (intro html_lit_2) auto
  with esc show ?case by (auto simp: str_ok_def)
next
  case (uni h b w)
  then show ?case by (simp add: html_lit_u str_ok_def del: html_lit.simps)
next
  case (char c b)
  then show ?case by (simp add: str_ok_def)
qed (simp add: str_ok_def)

lemma html_lit_high:
  assumes "html_lit b = x # y" "128 \<le> ord_of x"
  obtains b1 where "b = x # b1" "html_lit b1 = y"
proof (cases b)
  case (Cons c b1)
  with assms show thesis by (auto simp: esc_html intro: that split: if_splits)
qed (use assms in simp)

lemma html_lit_idem: "str_ok b \<Longrightarrow> html_lit (html_lit b) = html_lit b"
proof (induction b rule: lit_induct)
  case (html c b)
  then show ?case using html_lit_esc [of c "html_lit b"] by auto
next
  case (sep c d e b)
  then show ?case by (simp add: html_lit_sep del: html_lit.simps)
next
  case (esc e b)
  then have "html_lit (CHR 0x5C # e # b) = CHR 0x5C # e # html_lit b" for b by (intro html_lit_2) auto
  with esc show ?case by metis
next
  case (uni h b w)
  then show ?case by (simp add: html_lit_u del: html_lit.simps)
next
  case (char c b)
  have "\<not> line_sep (c # html_lit b)"
  proof
    assume "line_sep (c # html_lit b)"
    then obtain d e r where r: "html_lit b = d # e # r" "c = char_of (226::nat)" "d = char_of (128::nat)"
      "e = char_of (168::nat) \<or> e = char_of (169::nat)" by (rule line_sepD)
    have "128 \<le> ord_of d" "128 \<le> ord_of e" using r(3,4) by auto
    then obtain b1 b2 where b1: "b = d # b1" and b2: "b1 = e # b2"
      using html_lit_high [OF r(1)] html_lit_high by metis
    from char(2) show False using b1 b2 r by (auto simp: line_sep_def)
  qed
  with char show ?case by simp
qed simp

lemma html_json_ok: "wf_json v \<Longrightarrow> wf_json (html_json v) \<and> html_json (html_json v) = html_json v"
proof (induction v)
  case (JArr vs)
  then show ?case by (auto simp: list_all_iff)
next
  case (JObj ms)
  have "str_ok (html_lit k) \<and> html_lit (html_lit k) = html_lit k \<and> wf_json (html_json w) \<and>
      html_json (html_json w) = html_json w" if "(k, w) \<in> set ms" for k w
    using that JObj str_ok_html html_lit_idem by (fastforce simp: list_all_iff)
  then show ?case by (auto simp: list_all_iff)
qed (auto simp: str_ok_html html_lit_idem)

lemma marshal_raw_props:
  assumes "marshal_raw raw = Some v"
  shows "wf_json v" "read_doc (wr v) = Some v" "marshal_raw (wr v) = Some v"
  using assms html_json_ok read_doc_wf by (auto simp: marshal_raw_def)

end
