(* ===== verification/Envelope.thy ===== *)
theory Envelope
  imports Json
begin

text \<open>
  The contract every typed payload layer of the program keeps (\<open>event\<close>, \<open>transcript\<close>,
  \<open>sessioncommand\<close>): the text written for a payload decodes, under the payload's own kind,
  to that payload with its strings coerced to valid UTF-8.
\<close>

locale payload_codec =
  fixes kind_of :: "'p \<Rightarrow> 'k"
    and encode :: "'p \<Rightarrow> bytes option"
    and decode :: "'k \<Rightarrow> bytes \<Rightarrow> 'p option"
    and norm :: "'p \<Rightarrow> 'p"
    and storable :: "'p \<Rightarrow> bool"
  assumes decode_encode: "storable p \<Longrightarrow> encode p = Some raw \<Longrightarrow> decode (kind_of p) raw = Some (norm p)"
    and kind_norm: "kind_of (norm p) = kind_of p"
    and norm_idem: "norm (norm p) = norm p"
begin

text \<open>Two payloads of one kind with the same text are the same fact.\<close>

lemma encode_inject:
  assumes "storable p" "storable q" "encode p = Some raw" "encode q = Some raw" "kind_of p = kind_of q"
  shows "norm p = norm q"
  using decode_encode [OF assms(1,3)] decode_encode [OF assms(2,4)] assms(5) by simp

text \<open>A payload that was read back is stored again without change.\<close>

lemma reread_stable:
  assumes "storable p" "encode p = Some raw" "decode (kind_of p) raw = Some q"
    and "storable q" "encode q = Some raw'"
  shows "decode (kind_of q) raw' = Some q"
proof -
  have q: "q = norm p" using decode_encode [OF assms(1,2)] assms(3) by simp
  then have "decode (kind_of q) raw' = Some (norm q)" using decode_encode [OF assms(4,5)] by simp
  with q show ?thesis by (simp add: norm_idem)
qed

end

end
