(* ===== verification/Event.thy ===== *)
theory Event
  imports Envelope
begin

text \<open>
  \<open>internal/event/event.go\<close>: the serializable observation envelope. A \<open>Kind\<close> is one of
  the registered constants or some other string (\<open>KindOther\<close>); failure causes and tool
  outcomes stay strings, since they travel inside payloads. A payload is JSON text; the
  typed payload structs are the constructors of \<open>ev_payload\<close>.
\<close>

datatype kind =
    KindRunStarted | KindRunCompleted | KindRunFailed | KindRunCancelled
  | KindAssistantText | KindAssistantDelta | KindToolStarted | KindToolFinished
  | KindWarning | KindRetryScheduled | KindSessionResumed | KindSessionClosed
  | KindOther bytes

definition CauseProviderPermanent :: bytes where "CauseProviderPermanent = ''provider_permanent''"
definition CauseProviderProtocol :: bytes where "CauseProviderProtocol = ''provider_protocol''"
definition CauseProviderTransient :: bytes where "CauseProviderTransient = ''provider_transient_exhausted''"
definition CauseEngineInvariant :: bytes where "CauseEngineInvariant = ''engine_invariant''"
definition CauseBudgetExhausted :: bytes where "CauseBudgetExhausted = ''budget_exhausted''"
definition CauseContextLimit :: bytes where "CauseContextLimit = ''context_limit''"
definition CauseProviderOutput :: bytes where "CauseProviderOutput = ''provider_output_limit''"
definition CauseInterrupted :: bytes where "CauseInterrupted = ''interrupted''"
definition CauseSensitiveContent :: bytes where "CauseSensitiveContent = ''sensitive_content_blocked''"

lemmas cause_defs =
  CauseProviderPermanent_def CauseProviderProtocol_def CauseProviderTransient_def
  CauseEngineInvariant_def CauseBudgetExhausted_def CauseContextLimit_def
  CauseProviderOutput_def CauseInterrupted_def CauseSensitiveContent_def

record event =
  ev_session :: bytes
  ev_run :: bytes
  ev_cursor :: u64
  ev_time :: gotime
  ev_kind :: kind
  ev_payload :: bytes

datatype ev_payload =
    RunStartedPayload bytes
  | RunCompletedPayload
  | RunFailedPayload bytes
  | RunCancelledPayload
  | AssistantTextPayload bytes
  | AssistantDeltaPayload bytes
  | ToolStartedPayload bytes bytes
  | ToolFinishedPayload bytes bytes
  | WarningPayload bytes
  | RetryScheduledPayload int int bytes
  | SessionResumedPayload
  | SessionClosedPayload

datatype event_error = ErrUnknownKind kind | ErrInvalid

text \<open>\<open>json.Marshal\<close> of a payload struct.\<close>

fun ev_json :: "ev_payload \<Rightarrow> json" where
  "ev_json (RunStartedPayload p) = JObj [(''prompt'', jstring p)]"
| "ev_json RunCompletedPayload = JObj []"
| "ev_json (RunFailedPayload c) = JObj [(''cause'', jstring c)]"
| "ev_json RunCancelledPayload = JObj []"
| "ev_json (AssistantTextPayload t) = JObj [(''text'', jstring t)]"
| "ev_json (AssistantDeltaPayload t) = JObj [(''text'', jstring t)]"
| "ev_json (ToolStartedPayload i n) = JObj [(''call_id'', jstring i), (''name'', jstring n)]"
| "ev_json (ToolFinishedPayload i r) = JObj [(''call_id'', jstring i), (''outcome'', jstring r)]"
| "ev_json (WarningPayload c) = JObj [(''code'', jstring c)]"
| "ev_json (RetryScheduledPayload a d c) =
     JObj [(''attempt'', jint a), (''delay_ms'', jint d), (''class'', jstring c)]"
| "ev_json SessionResumedPayload = JObj []"
| "ev_json SessionClosedPayload = JObj []"

definition ev_marshal :: "ev_payload \<Rightarrow> bytes" where
  "ev_marshal p = wr (ev_json p)"

text \<open>
  \<open>payloadFactories\<close> and \<open>DecodePayload\<close> into the struct the kind registers: None where
  the kind is unknown or the text does not decode strictly.
\<close>

definition registered :: "kind \<Rightarrow> bool" where
  "registered k = (case k of KindOther _ \<Rightarrow> False | _ \<Rightarrow> True)"

definition dec1 :: "bytes \<Rightarrow> json \<Rightarrow> bytes option" where
  "dec1 n v = decode_struct [(n, f_string (\<lambda>x _. x))] v []"

definition dec2 :: "bytes \<Rightarrow> bytes \<Rightarrow> json \<Rightarrow> (bytes \<times> bytes) option" where
  "dec2 m n v = decode_struct [(m, f_string (\<lambda>x (a, b). (x, b))), (n, f_string (\<lambda>x (a, b). (a, x)))] v ([], [])"

definition dec0 :: "'a \<Rightarrow> json \<Rightarrow> 'a option" where
  "dec0 p v = decode_struct [] v p"

definition ev_decode_json :: "kind \<Rightarrow> json \<Rightarrow> ev_payload option" where
  "ev_decode_json k v = (case k of
     KindRunStarted \<Rightarrow> map_option RunStartedPayload (dec1 ''prompt'' v)
   | KindRunCompleted \<Rightarrow> dec0 RunCompletedPayload v
   | KindRunFailed \<Rightarrow> map_option RunFailedPayload (dec1 ''cause'' v)
   | KindRunCancelled \<Rightarrow> dec0 RunCancelledPayload v
   | KindAssistantText \<Rightarrow> map_option AssistantTextPayload (dec1 ''text'' v)
   | KindAssistantDelta \<Rightarrow> map_option AssistantDeltaPayload (dec1 ''text'' v)
   | KindToolStarted \<Rightarrow> map_option (\<lambda>(i, n). ToolStartedPayload i n) (dec2 ''call_id'' ''name'' v)
   | KindToolFinished \<Rightarrow> map_option (\<lambda>(i, r). ToolFinishedPayload i r) (dec2 ''call_id'' ''outcome'' v)
   | KindWarning \<Rightarrow> map_option WarningPayload (dec1 ''code'' v)
   | KindRetryScheduled \<Rightarrow> map_option (\<lambda>(a, d, c). RetryScheduledPayload a d c)
       (decode_struct [(''attempt'', f_int (\<lambda>x (a, d, c). (x, d, c))),
                       (''delay_ms'', f_int (\<lambda>x (a, d, c). (a, x, c))),
                       (''class'', f_string (\<lambda>x (a, d, c). (a, d, x)))] v (0, 0, []))
   | KindSessionResumed \<Rightarrow> dec0 SessionResumedPayload v
   | KindSessionClosed \<Rightarrow> dec0 SessionClosedPayload v
   | KindOther _ \<Rightarrow> None)"

definition ev_decode :: "kind \<Rightarrow> bytes \<Rightarrow> ev_payload option" where
  "ev_decode k raw = (case read_doc raw of None \<Rightarrow> None | Some v \<Rightarrow> ev_decode_json k v)"

definition validFailureCause :: "bytes \<Rightarrow> bool" where
  "validFailureCause c \<longleftrightarrow> c \<in> set [CauseProviderPermanent, CauseProviderProtocol, CauseProviderTransient,
     CauseEngineInvariant, CauseBudgetExhausted, CauseContextLimit,
     CauseProviderOutput, CauseInterrupted, CauseSensitiveContent]"

definition validToolOutcome :: "bytes \<Rightarrow> bool" where
  "validToolOutcome r \<longleftrightarrow>
     r \<in> set [''success'', ''error'', ''cancelled'', ''skipped'', ''interrupted'', ''blocked'']"

definition runFact :: "kind \<Rightarrow> bool" where
  "runFact k \<longleftrightarrow> k \<noteq> KindWarning \<and> k \<noteq> KindSessionResumed \<and> k \<noteq> KindSessionClosed"

fun ev_payload_ok :: "ev_payload \<Rightarrow> bool" where
  "ev_payload_ok (RunStartedPayload p) = (p \<noteq> [])"
| "ev_payload_ok (RunFailedPayload c) = validFailureCause c"
| "ev_payload_ok (AssistantTextPayload t) = (t \<noteq> [])"
| "ev_payload_ok (AssistantDeltaPayload t) = (t \<noteq> [])"
| "ev_payload_ok (ToolStartedPayload i n) = (i \<noteq> [] \<and> n \<noteq> [])"
| "ev_payload_ok (ToolFinishedPayload i r) = (i \<noteq> [] \<and> validToolOutcome r)"
| "ev_payload_ok (WarningPayload c) = (c \<noteq> [])"
| "ev_payload_ok (RetryScheduledPayload a d c) = (\<not> (a \<le> 0 \<or> d < 0 \<or> c = []))"
| "ev_payload_ok _ = True"

definition ev_validate :: "event \<Rightarrow> (event_error, unit) result" where
  "ev_validate e =
     (if ev_session e = [] \<or> ev_cursor e = 0 \<or> ev_time e = 0 then Inl ErrInvalid
      else if \<not> registered (ev_kind e) then Inl (ErrUnknownKind (ev_kind e))
      else (case ev_decode (ev_kind e) (ev_payload e) of
         None \<Rightarrow> Inl ErrInvalid
       | Some p \<Rightarrow>
          if runFact (ev_kind e) \<and> ev_run e = [] then Inl ErrInvalid
          else if \<not> runFact (ev_kind e) \<and> ev_run e \<noteq> [] then Inl ErrInvalid
          else if \<not> ev_payload_ok p then Inl ErrInvalid
          else Inr ()))"

definition ev_new :: "bytes \<Rightarrow> bytes \<Rightarrow> u64 \<Rightarrow> gotime \<Rightarrow> kind \<Rightarrow> ev_payload \<Rightarrow> (event_error, event) result" where
  "ev_new sid rid cur at k p =
     (if \<not> registered k then Inl (ErrUnknownKind k)
      else (let ev = \<lparr>ev_session = sid, ev_run = rid, ev_cursor = cur, ev_time = at, ev_kind = k,
                      ev_payload = ev_marshal p\<rparr>
        in case ev_validate ev of Inl e \<Rightarrow> Inl e | Inr _ \<Rightarrow> Inr ev))"

subsection \<open>What is written is what is read\<close>

fun ev_kind_of :: "ev_payload \<Rightarrow> kind" where
  "ev_kind_of (RunStartedPayload _) = KindRunStarted"
| "ev_kind_of RunCompletedPayload = KindRunCompleted"
| "ev_kind_of (RunFailedPayload _) = KindRunFailed"
| "ev_kind_of RunCancelledPayload = KindRunCancelled"
| "ev_kind_of (AssistantTextPayload _) = KindAssistantText"
| "ev_kind_of (AssistantDeltaPayload _) = KindAssistantDelta"
| "ev_kind_of (ToolStartedPayload _ _) = KindToolStarted"
| "ev_kind_of (ToolFinishedPayload _ _) = KindToolFinished"
| "ev_kind_of (WarningPayload _) = KindWarning"
| "ev_kind_of (RetryScheduledPayload _ _ _) = KindRetryScheduled"
| "ev_kind_of SessionResumedPayload = KindSessionResumed"
| "ev_kind_of SessionClosedPayload = KindSessionClosed"

fun ev_norm :: "ev_payload \<Rightarrow> ev_payload" where
  "ev_norm (RunStartedPayload p) = RunStartedPayload (to_valid p)"
| "ev_norm (RunFailedPayload c) = RunFailedPayload (to_valid c)"
| "ev_norm (AssistantTextPayload t) = AssistantTextPayload (to_valid t)"
| "ev_norm (AssistantDeltaPayload t) = AssistantDeltaPayload (to_valid t)"
| "ev_norm (ToolStartedPayload i n) = ToolStartedPayload (to_valid i) (to_valid n)"
| "ev_norm (ToolFinishedPayload i r) = ToolFinishedPayload (to_valid i) (to_valid r)"
| "ev_norm (WarningPayload c) = WarningPayload (to_valid c)"
| "ev_norm (RetryScheduledPayload a d c) = RetryScheduledPayload a d (to_valid c)"
| "ev_norm p = p"

fun ev_storable :: "ev_payload \<Rightarrow> bool" where
  "ev_storable (RetryScheduledPayload a d c) = (i64_range a \<and> i64_range d)"
| "ev_storable _ = True"

lemma wf_ev_json [simp]: "wf_json (ev_json p)"
  by (cases p) simp_all

lemma dec_simps [simp]:
  "plain n \<Longrightarrow> dec1 n (JObj [(n, JStr b)]) = Some (unquote b)"
  "plain m \<Longrightarrow> plain n \<Longrightarrow> m \<noteq> n \<Longrightarrow>
     dec2 m n (JObj [(m, JStr a), (n, JStr b)]) = Some (unquote a, unquote b)"
  "dec0 p (JObj []) = Some p"
  by (simp_all add: dec1_def dec2_def dec0_def)

lemma ev_decode_marshal: "ev_storable p \<Longrightarrow> ev_decode (ev_kind_of p) (ev_marshal p) = Some (ev_norm p)"
  by (cases p) (simp_all add: ev_decode_def ev_marshal_def ev_decode_json_def unquote_quote del: wr.simps)

interpretation ev: payload_codec ev_kind_of "\<lambda>p. Some (ev_marshal p)" ev_decode ev_norm ev_storable
proof
  show "ev_decode (ev_kind_of p) raw = Some (ev_norm p)"
    if "ev_storable p" "Some (ev_marshal p) = Some raw" for p raw
    using ev_decode_marshal that by auto
  show "ev_kind_of (ev_norm p) = ev_kind_of p" for p by (cases p) simp_all
  show "ev_norm (ev_norm p) = ev_norm p" for p by (cases p) simp_all
qed

lemma validFailureCause_valid [simp]: "validFailureCause c \<Longrightarrow> to_valid c = c"
  by (auto simp: validFailureCause_def cause_defs)

lemma validToolOutcome_valid [simp]: "validToolOutcome c \<Longrightarrow> to_valid c = c"
  by (auto simp: validToolOutcome_def)

lemma ev_payload_ok_norm: "ev_payload_ok p \<Longrightarrow> ev_payload_ok (ev_norm p)"
  by (cases p) auto

lemma ev_kind_of_registered [simp]: "registered (ev_kind_of p)"
  by (cases p) (simp_all add: registered_def)

text \<open>Exactly when \<open>New\<close> succeeds on a payload of its kind, and what it then stores.\<close>

definition envelope_ok :: "bytes \<Rightarrow> bytes \<Rightarrow> u64 \<Rightarrow> gotime \<Rightarrow> kind \<Rightarrow> bool" where
  "envelope_ok sid rid cur at k \<longleftrightarrow>
     sid \<noteq> [] \<and> cur \<noteq> 0 \<and> at \<noteq> 0 \<and> (runFact k \<longleftrightarrow> rid \<noteq> [])"

lemma ev_new_ok:
  assumes "ev_storable p" "ev_payload_ok p" "envelope_ok sid rid cur at (ev_kind_of p)"
  shows "ev_new sid rid cur at (ev_kind_of p) p =
    Inr \<lparr>ev_session = sid, ev_run = rid, ev_cursor = cur, ev_time = at,
         ev_kind = ev_kind_of p, ev_payload = ev_marshal p\<rparr>"
  using assms
  by (auto simp: ev_new_def ev_validate_def envelope_ok_def ev_decode_marshal ev_payload_ok_norm Let_def)

lemma ev_new_valid: "ev_new sid rid cur at k p = Inr ev \<Longrightarrow> ev_validate ev = Inr ()"
  by (auto simp: ev_new_def Let_def split: if_splits sum.splits)

lemma ev_new_fields:
  "ev_new sid rid cur at k p = Inr ev \<Longrightarrow>
     ev = \<lparr>ev_session = sid, ev_run = rid, ev_cursor = cur, ev_time = at, ev_kind = k,
           ev_payload = ev_marshal p\<rparr>"
  by (auto simp: ev_new_def Let_def split: if_splits sum.splits)

lemma ev_validate_iff:
  "ev_validate e = Inr () \<longleftrightarrow>
     registered (ev_kind e) \<and> envelope_ok (ev_session e) (ev_run e) (ev_cursor e) (ev_time e) (ev_kind e) \<and>
     (\<exists>p. ev_decode (ev_kind e) (ev_payload e) = Some p \<and> ev_payload_ok p)"
  by (auto simp: ev_validate_def envelope_ok_def split: option.splits)

subsection \<open>Properties\<close>

text \<open>
  C40: Constructing an event for a payload of the kind succeeds exactly when the envelope is
  complete (session, positive cursor, time, and a run exactly for run facts), and the payload
  is complete; the event then validates, and decodes to the payload it was built from.
\<close>

theorem event_roundtrip:
  assumes "ev_storable p" "ev_payload_ok p" "envelope_ok sid rid cur at (ev_kind_of p)"
  shows "\<exists>e. ev_new sid rid cur at (ev_kind_of p) p = Inr e \<and> ev_validate e = Inr () \<and>
    ev_decode (ev_kind e) (ev_payload e) = Some (ev_norm p)"
  using ev_new_ok [OF assms] ev_new_valid ev_decode_marshal [OF assms(1)] by fastforce

theorem event_roundtrip_witness:
  "\<exists>e. ev_new ''s'' ''run-1'' 1 1 (ev_kind_of (ToolFinishedPayload ''c'' ''success'')) (ToolFinishedPayload ''c'' ''success'') = Inr e \<and>
     ev_validate e = Inr () \<and> ev_decode (ev_kind e) (ev_payload e) = Some (ev_norm (ToolFinishedPayload ''c'' ''success''))"
  by (rule event_roundtrip) (simp_all add: validToolOutcome_def envelope_ok_def runFact_def)

end
