(* ===== verification/Transcript.thy ===== *)
theory Transcript
  imports Event
begin

text \<open>
  \<open>internal/transcript/transcript.go\<close>: the durable record envelope, its typed payloads and
  the check of one record in isolation. The failure causes are the same wire strings as
  the event package's.
\<close>

datatype record_kind =
    KindUserMessage | KindAssistantBlock | KindToolCall | KindToolResult
  | KindCancellationBoundary | KindRunOutcome | KindInstructionsLoaded | KindClosed
  | KindUnregistered bytes

record trecord =
  r_seq :: u64
  r_time :: gotime
  r_run :: bytes
  r_kind :: record_kind
  r_payload :: bytes

record instruction_source =
  is_sources :: "bytes list"
  is_scope :: bytes
  is_sha256 :: bytes
  is_precedence :: int

definition ToolResultSuccess :: bytes where "ToolResultSuccess = ''success''"
definition ToolResultError :: bytes where "ToolResultError = ''error''"
definition ToolResultCancelled :: bytes where "ToolResultCancelled = ''cancelled''"
definition ToolResultSkipped :: bytes where "ToolResultSkipped = ''skipped''"
definition ToolResultInterrupted :: bytes where "ToolResultInterrupted = ''interrupted''"
definition ToolResultBlocked :: bytes where "ToolResultBlocked = ''blocked''"

lemmas tool_outcome_defs =
  ToolResultSuccess_def ToolResultError_def ToolResultCancelled_def
  ToolResultSkipped_def ToolResultInterrupted_def ToolResultBlocked_def

definition RunOutcomeCompleted :: bytes where "RunOutcomeCompleted = ''completed''"
definition RunOutcomeFailed :: bytes where "RunOutcomeFailed = ''failed''"
definition RunOutcomeCancelled :: bytes where "RunOutcomeCancelled = ''cancelled''"
definition RunOutcomeInterrupted :: bytes where "RunOutcomeInterrupted = ''interrupted''"

lemmas run_outcome_defs =
  RunOutcomeCompleted_def RunOutcomeFailed_def RunOutcomeCancelled_def RunOutcomeInterrupted_def

datatype tpayload =
    UserMessagePayload bytes
  | AssistantBlockPayload bytes
  | ToolCallPayload (call_id: bytes) (call_name: bytes) (call_args: bytes)
  | ToolResultPayload bytes bytes bytes
  | CancellationBoundaryPayload
  | RunOutcomePayload bytes bytes
  | InstructionsLoadedPayload "instruction_source list"
  | ClosedPayload

datatype transcript_error =
    ErrInvalidRecord | ErrUnknownRecordKind record_kind | ErrDecodePayload | ErrMarshalPayload
  | ErrRecordSequence | ErrUnpairedToolCall | ErrDuplicateToolResult | ErrDuplicateToolCall
  | ErrOrphanToolResult | ErrToolRunMismatch | ErrTerminalWithOpenCall
  | ErrDuplicateSessionClose | ErrRecordsAfterClose

subsection \<open>Payload text\<close>

definition source_json :: "instruction_source \<Rightarrow> json" where
  "source_json s = JObj
     [(''sources'', JArr (map jstring (is_sources s))), (''scope'', jstring (is_scope s)),
      (''sha256'', jstring (is_sha256 s)), (''precedence'', jint (is_precedence s))]"

fun payload_json :: "tpayload \<Rightarrow> json option" where
  "payload_json (UserMessagePayload t) = Some (JObj [(''text'', jstring t)])"
| "payload_json (AssistantBlockPayload t) = Some (JObj [(''text'', jstring t)])"
| "payload_json (ToolCallPayload i n a) =
     map_option (\<lambda>v. JObj [(''call_id'', jstring i), (''name'', jstring n), (''arguments'', v)]) (marshal_raw a)"
| "payload_json (ToolResultPayload i r c) =
     Some (JObj [(''call_id'', jstring i), (''outcome'', jstring r), (''content'', jstring c)])"
| "payload_json CancellationBoundaryPayload = Some (JObj [])"
| "payload_json (RunOutcomePayload r c) =
     Some (JObj ((''outcome'', jstring r) # (if c = [] then [] else [(''cause'', jstring c)])))"
| "payload_json (InstructionsLoadedPayload ss) = Some (JObj [(''sources'', JArr (map source_json ss))])"
| "payload_json ClosedPayload = Some (JObj [])"

definition marshal_payload :: "tpayload \<Rightarrow> bytes option" where
  "marshal_payload p = map_option wr (payload_json p)"

definition string_of_json :: "json \<Rightarrow> bytes option" where
  "string_of_json v = f_string (\<lambda>x _. x) v []"

definition decode_source :: "json \<Rightarrow> instruction_source option" where
  "decode_source v = decode_struct
     [(''sources'', f_list string_of_json (\<lambda>x s. s\<lparr>is_sources := x\<rparr>)),
      (''scope'', f_string (\<lambda>x s. s\<lparr>is_scope := x\<rparr>)),
      (''sha256'', f_string (\<lambda>x s. s\<lparr>is_sha256 := x\<rparr>)),
      (''precedence'', f_int (\<lambda>x s. s\<lparr>is_precedence := x\<rparr>))] v
     \<lparr>is_sources = [], is_scope = [], is_sha256 = [], is_precedence = 0\<rparr>"

definition dec3 :: "'b field \<Rightarrow> 'b field \<Rightarrow> 'b field \<Rightarrow> json \<Rightarrow> 'b \<Rightarrow> 'b option" where
  "dec3 f g h v s = decode_struct [f, g, h] v s"

definition decode_json :: "record_kind \<Rightarrow> json \<Rightarrow> tpayload option" where
  "decode_json k v = (case k of
     KindUserMessage \<Rightarrow> map_option UserMessagePayload (dec1 ''text'' v)
   | KindAssistantBlock \<Rightarrow> map_option AssistantBlockPayload (dec1 ''text'' v)
   | KindToolCall \<Rightarrow> map_option (\<lambda>(i, n, a). ToolCallPayload i n a)
       (dec3 (''call_id'', f_string (\<lambda>x (i, n, a). (x, n, a))) (''name'', f_string (\<lambda>x (i, n, a). (i, x, a)))
             (''arguments'', f_raw (\<lambda>x (i, n, a). (i, n, x))) v ([], [], []))
   | KindToolResult \<Rightarrow> map_option (\<lambda>(i, r, c). ToolResultPayload i r c)
       (dec3 (''call_id'', f_string (\<lambda>x (i, r, c). (x, r, c))) (''outcome'', f_string (\<lambda>x (i, r, c). (i, x, c)))
             (''content'', f_string (\<lambda>x (i, r, c). (i, r, x))) v ([], [], []))
   | KindCancellationBoundary \<Rightarrow> dec0 CancellationBoundaryPayload v
   | KindRunOutcome \<Rightarrow> map_option (\<lambda>(r, c). RunOutcomePayload r c) (dec2 ''outcome'' ''cause'' v)
   | KindInstructionsLoaded \<Rightarrow> map_option InstructionsLoadedPayload
       (decode_struct [(''sources'', f_list decode_source (\<lambda>x _. x))] v [])
   | KindClosed \<Rightarrow> dec0 ClosedPayload v
   | KindUnregistered _ \<Rightarrow> None)"

definition DecodePayload :: "trecord \<Rightarrow> tpayload option" where
  "DecodePayload r = (case read_doc (r_payload r) of None \<Rightarrow> None | Some v \<Rightarrow> decode_json (r_kind r) v)"

subsection \<open>One record in isolation\<close>

definition rec_registered :: "record_kind \<Rightarrow> bool" where
  "rec_registered k = (case k of KindUnregistered _ \<Rightarrow> False | _ \<Rightarrow> True)"

text \<open>The switch on the payload type; the records' outcomes and causes are closed sets.\<close>

definition validResultOutcome :: "bytes \<Rightarrow> bool" where
  "validResultOutcome r \<longleftrightarrow> r \<in> set [ToolResultSuccess, ToolResultError, ToolResultCancelled,
     ToolResultSkipped, ToolResultInterrupted, ToolResultBlocked]"

fun payload_ok :: "tpayload \<Rightarrow> bool" where
  "payload_ok (UserMessagePayload t) = (t \<noteq> [])"
| "payload_ok (AssistantBlockPayload t) = (t \<noteq> [])"
| "payload_ok (ToolCallPayload i n a) = (\<not> (i = [] \<or> n = [] \<or> \<not> json_valid a))"
| "payload_ok (ToolResultPayload i r c) = (i \<noteq> [] \<and> validResultOutcome r)"
| "payload_ok (RunOutcomePayload r c) =
     (r \<in> set [RunOutcomeCompleted, RunOutcomeFailed, RunOutcomeCancelled, RunOutcomeInterrupted] \<and>
      \<not> ((r = RunOutcomeFailed \<or> r = RunOutcomeInterrupted) \<and> c = []) \<and>
      \<not> ((r = RunOutcomeCompleted \<or> r = RunOutcomeCancelled) \<and> c \<noteq> []) \<and>
      \<not> (c \<noteq> [] \<and> \<not> validFailureCause c))"
| "payload_ok (InstructionsLoadedPayload ss) =
     (ss \<noteq> [] \<and> list_all (\<lambda>s. \<not> (is_sources s = [] \<or> is_scope s = [] \<or> is_sha256 s = [])) ss)"
| "payload_ok _ = True"

definition Validate :: "trecord \<Rightarrow> (transcript_error, unit) result" where
  "Validate r =
     (if r_time r = 0 then Inl ErrInvalidRecord
      else if \<not> rec_registered (r_kind r) then Inl (ErrUnknownRecordKind (r_kind r))
      else (case DecodePayload r of
         None \<Rightarrow> Inl ErrDecodePayload
       | Some p \<Rightarrow>
          if r_kind r = KindClosed \<and> r_run r \<noteq> [] then Inl ErrInvalidRecord
          else if r_kind r \<noteq> KindClosed \<and> r_run r = [] then Inl ErrInvalidRecord
          else if \<not> payload_ok p then Inl ErrInvalidRecord
          else Inr ()))"

definition New :: "bytes \<Rightarrow> gotime \<Rightarrow> record_kind \<Rightarrow> tpayload \<Rightarrow> (transcript_error, trecord) result" where
  "New rid at k p =
     (if \<not> rec_registered k then Inl (ErrUnknownRecordKind k)
      else (case marshal_payload p of
         None \<Rightarrow> Inl ErrMarshalPayload
       | Some raw \<Rightarrow>
          (let r = \<lparr>r_seq = 0, r_time = at, r_run = rid, r_kind = k, r_payload = raw\<rparr>
           in case Validate r of Inl e \<Rightarrow> Inl e | Inr _ \<Rightarrow> Inr r)))"

subsection \<open>What is written is what is read\<close>

fun kind_of :: "tpayload \<Rightarrow> record_kind" where
  "kind_of (UserMessagePayload _) = KindUserMessage"
| "kind_of (AssistantBlockPayload _) = KindAssistantBlock"
| "kind_of (ToolCallPayload _ _ _) = KindToolCall"
| "kind_of (ToolResultPayload _ _ _) = KindToolResult"
| "kind_of CancellationBoundaryPayload = KindCancellationBoundary"
| "kind_of (RunOutcomePayload _ _) = KindRunOutcome"
| "kind_of (InstructionsLoadedPayload _) = KindInstructionsLoaded"
| "kind_of ClosedPayload = KindClosed"

definition norm_source :: "instruction_source \<Rightarrow> instruction_source" where
  "norm_source s = \<lparr>is_sources = map to_valid (is_sources s), is_scope = to_valid (is_scope s),
     is_sha256 = to_valid (is_sha256 s), is_precedence = is_precedence s\<rparr>"

definition norm_args :: "bytes \<Rightarrow> bytes" where
  "norm_args a = (case marshal_raw a of None \<Rightarrow> a | Some v \<Rightarrow> wr v)"

fun norm_payload :: "tpayload \<Rightarrow> tpayload" where
  "norm_payload (UserMessagePayload t) = UserMessagePayload (to_valid t)"
| "norm_payload (AssistantBlockPayload t) = AssistantBlockPayload (to_valid t)"
| "norm_payload (ToolCallPayload i n a) = ToolCallPayload (to_valid i) (to_valid n) (norm_args a)"
| "norm_payload (ToolResultPayload i r c) = ToolResultPayload (to_valid i) (to_valid r) (to_valid c)"
| "norm_payload (RunOutcomePayload r c) = RunOutcomePayload (to_valid r) (to_valid c)"
| "norm_payload (InstructionsLoadedPayload ss) = InstructionsLoadedPayload (map norm_source ss)"
| "norm_payload p = p"

fun storable :: "tpayload \<Rightarrow> bool" where
  "storable (InstructionsLoadedPayload ss) = list_all (\<lambda>s. i64_range (is_precedence s)) ss"
| "storable _ = True"

definition decode_payload :: "record_kind \<Rightarrow> bytes \<Rightarrow> tpayload option" where
  "decode_payload k raw = (case read_doc raw of None \<Rightarrow> None | Some v \<Rightarrow> decode_json k v)"

lemma DecodePayload_eq: "DecodePayload r = decode_payload (r_kind r) (r_payload r)"
  by (simp add: DecodePayload_def decode_payload_def)

lemma wf_payload_json: "payload_json p = Some v \<Longrightarrow> wf_json v"
  by (cases p) (auto simp: list_all_iff source_json_def dest: marshal_raw_props)

lemma dec3_obj [simp]: "dec3 f g h (JObj ms) s = decode_members [f, g, h] ms s"
  by (simp add: dec3_def)

lemma string_of_json [simp]: "string_of_json (JStr b) = Some (unquote b)"
  by (simp add: string_of_json_def)

lemma decode_source_json [simp]:
  assumes "i64_range (is_precedence s)"
  shows "decode_source (source_json s) = Some (norm_source s)"
proof -
  have "decode_list string_of_json (map jstring (is_sources s)) = Some (map to_valid (is_sources s))"
    by (intro decode_list_map) (simp add: unquote_quote)
  then show ?thesis using assms
    by (simp add: decode_source_def source_json_def norm_source_def unquote_quote)
qed

lemma decode_sources:
  "list_all (\<lambda>s. i64_range (is_precedence s)) ss \<Longrightarrow>
   decode_list decode_source (map source_json ss) = Some (map norm_source ss)"
  by (intro decode_list_map) (auto simp: list_all_iff)

lemma decode_json_payload:
  assumes "storable p" "payload_json p = Some v"
  shows "decode_json (kind_of p) v = Some (norm_payload p)"
proof (cases p)
  case (ToolCallPayload i n a)
  with assms(2) obtain w where "marshal_raw a = Some w"
    "v = JObj [(''call_id'', jstring i), (''name'', jstring n), (''arguments'', w)]" by auto
  with ToolCallPayload show ?thesis by (simp add: decode_json_def norm_args_def unquote_quote)
next
  case (RunOutcomePayload r c)
  have "dec2 ''outcome'' ''cause'' (JObj [(''outcome'', jstring r)]) = Some (to_valid r, [])"
    by (simp add: dec2_def unquote_quote)
  with assms RunOutcomePayload show ?thesis
    by (auto simp: decode_json_def unquote_quote split: if_splits)
next
  case (InstructionsLoadedPayload ss)
  with assms decode_sources show ?thesis by (auto simp: decode_json_def)
qed (use assms in \<open>auto simp: decode_json_def unquote_quote\<close>)

lemma norm_args_idem [simp]: "norm_args (norm_args a) = norm_args a"
  by (cases "marshal_raw a") (auto simp: norm_args_def marshal_raw_props)

interpretation tr: payload_codec kind_of marshal_payload decode_payload norm_payload storable
proof
  show "decode_payload (kind_of p) raw = Some (norm_payload p)"
    if "storable p" "marshal_payload p = Some raw" for p raw
    using that decode_json_payload wf_payload_json by (auto simp: marshal_payload_def decode_payload_def)
  show "kind_of (norm_payload p) = kind_of p" for p by (cases p) simp_all
  have "norm_source (norm_source s) = norm_source s" for s by (simp add: norm_source_def)
  then show "norm_payload (norm_payload p) = norm_payload p" for p by (cases p) simp_all
qed

lemma validResultOutcome_valid [simp]: "validResultOutcome r \<Longrightarrow> to_valid r = r"
  by (auto simp: validResultOutcome_def tool_outcome_defs)

lemma payload_ok_norm:
  assumes "payload_ok p" "marshal_payload p = Some raw"
  shows "payload_ok (norm_payload p)"
proof (cases p)
  case (ToolCallPayload i n a)
  with assms(2) obtain w where w: "marshal_raw a = Some w" by (auto simp: marshal_payload_def)
  then have "json_valid (wr w)" using marshal_raw_props(2) by (simp add: json_valid_def)
  with assms ToolCallPayload w show ?thesis by (simp add: norm_args_def)
next
  case (RunOutcomePayload r c)
  with assms(1) have ok: "r \<in> set [RunOutcomeCompleted, RunOutcomeFailed, RunOutcomeCancelled, RunOutcomeInterrupted]"
    "c = [] \<or> validFailureCause c" by auto
  have "to_valid r = r" using ok(1) by (auto simp: run_outcome_defs)
  moreover have "to_valid c = c" using ok(2) by auto
  ultimately
  show ?thesis using RunOutcomePayload assms(1) by simp
qed (use assms in \<open>auto simp: list_all_iff norm_source_def\<close>)

lemma rec_registered_kind [simp]: "rec_registered (kind_of p)"
  by (cases p) (simp_all add: rec_registered_def)

definition run_id_ok :: "bytes \<Rightarrow> record_kind \<Rightarrow> bool" where
  "run_id_ok rid k \<longleftrightarrow> (k = KindClosed \<longleftrightarrow> rid = [])"

lemma Validate_iff:
  "Validate r = Inr () \<longleftrightarrow> r_time r \<noteq> 0 \<and> rec_registered (r_kind r) \<and> run_id_ok (r_run r) (r_kind r) \<and>
     (\<exists>p. DecodePayload r = Some p \<and> payload_ok p)"
  by (auto simp: Validate_def run_id_ok_def split: option.splits)

lemma New_ok:
  assumes "storable p" "payload_ok p" "marshal_payload p = Some raw" "at \<noteq> 0" "run_id_ok rid (kind_of p)"
  shows "New rid at (kind_of p) p =
    Inr \<lparr>r_seq = 0, r_time = at, r_run = rid, r_kind = kind_of p, r_payload = raw\<rparr>"
proof -
  let ?r = "\<lparr>r_seq = 0, r_time = at, r_run = rid, r_kind = kind_of p, r_payload = raw\<rparr>"
  have "DecodePayload ?r = Some (norm_payload p)"
    using tr.decode_encode [OF assms(1,3)] by (simp add: DecodePayload_eq)
  with assms payload_ok_norm have "Validate ?r = Inr ()" by (simp add: Validate_iff)
  with assms(3) show ?thesis by (simp add: New_def)
qed

lemma New_valid: "New rid at k p = Inr r \<Longrightarrow> Validate r = Inr ()"
  by (auto simp: New_def Let_def split: if_splits sum.splits option.splits)

lemma New_fields:
  "New rid at k p = Inr r \<Longrightarrow>
   \<exists>raw. marshal_payload p = Some raw \<and>
     r = \<lparr>r_seq = 0, r_time = at, r_run = rid, r_kind = k, r_payload = raw\<rparr>"
  by (auto simp: New_def Let_def split: if_splits sum.splits option.splits)

lemma DecodePayload_seq [simp]: "DecodePayload (r\<lparr>r_seq := n\<rparr>) = DecodePayload r"
  by (simp add: DecodePayload_def cong: option.case_cong)

lemma Validate_seq [simp]: "Validate (r\<lparr>r_seq := n\<rparr>) = Validate r"
  by (cases r) (simp add: Validate_def DecodePayload_eq split: option.split)

text \<open>The fact a stored record states is the one it was built from.\<close>

lemma New_decodes:
  assumes "New rid at (kind_of p) p = Inr r" "storable p"
  shows "DecodePayload r = Some (norm_payload p)"
  using New_fields [OF assms(1)] tr.decode_encode [OF assms(2)] by (auto simp: DecodePayload_eq)


text \<open>The record of a payload at a position of the log, and what the checks say of it.\<close>

definition stored :: "nat \<Rightarrow> bytes \<Rightarrow> gotime \<Rightarrow> tpayload \<Rightarrow> trecord" where
  "stored n rid at p = \<lparr>r_seq = of_nat n, r_time = at, r_run = rid, r_kind = kind_of p,
     r_payload = (case marshal_payload p of Some raw \<Rightarrow> raw | None \<Rightarrow> [])\<rparr>"

lemma stored_fields [simp]:
  "r_seq (stored n rid at p) = of_nat n" "r_run (stored n rid at p) = rid"
  "r_kind (stored n rid at p) = kind_of p" "r_time (stored n rid at p) = at"
  by (simp_all add: stored_def)

definition storable_payload :: "tpayload \<Rightarrow> bool" where
  "storable_payload p \<longleftrightarrow> storable p \<and> payload_ok p \<and> marshal_payload p \<noteq> None"

lemma stored_decodes: "storable_payload p \<Longrightarrow> DecodePayload (stored n rid at p) = Some (norm_payload p)"
  using tr.decode_encode [of p] by (auto simp: storable_payload_def stored_def DecodePayload_eq)

lemma stored_valid:
  assumes "storable_payload p" "at \<noteq> 0" "run_id_ok rid (kind_of p)"
  shows "Validate (stored n rid at p) = Inr ()"
  using assms stored_decodes [OF assms(1)] payload_ok_norm
  by (auto simp: Validate_iff storable_payload_def)

lemma empty_object_args [simp]: "marshal_raw ''{}'' = Some (JObj [])" "json_valid ''{}''"
proof -
  have "read_doc (wr (JObj [])) = Some (JObj [])" by (rule read_doc_wr) simp
  then show "marshal_raw ''{}'' = Some (JObj [])" "json_valid ''{}''"
    by (simp_all add: marshal_raw_def json_valid_def)
qed


text \<open>A payload that is read for a kind is a payload of that kind.\<close>

lemma decode_no_members: "decode_members [] ms s = Some p \<Longrightarrow> p = s"
  by (cases ms) auto

lemma decode_json_kind: "decode_json k v = Some p \<Longrightarrow> kind_of p = k"
  by (cases k) (auto simp: decode_json_def dec0_def decode_struct_def
      split: json.splits dest!: decode_no_members)

lemma DecodePayload_kind: "DecodePayload r = Some p \<Longrightarrow> kind_of p = r_kind r"
  by (auto simp: DecodePayload_def decode_json_kind split: option.splits)

fun_cases kind_of_casesE:
  "kind_of p = KindUserMessage" "kind_of p = KindAssistantBlock" "kind_of p = KindToolCall"
  "kind_of p = KindToolResult" "kind_of p = KindRunOutcome"

lemma Validate_decodes:
  assumes "Validate r = Inr ()"
  obtains p where "DecodePayload r = Some p" "kind_of p = r_kind r" "payload_ok p"
  using assms DecodePayload_kind by (auto simp: Validate_iff)

subsection \<open>Properties\<close>

text \<open>
  C39: What \<open>New\<close> stores is what \<open>DecodePayload\<close> reads back: the typed payload it was given,
  with its strings coerced to valid UTF-8, of the record's own kind; and the record it builds
  passes \<open>Validate\<close>.
\<close>

theorem record_roundtrip:
  assumes "New rid at (kind_of p) p = Inr r" "storable p"
  shows "DecodePayload r = Some (norm_payload p) \<and> r_kind r = kind_of p \<and> Validate r = Inr ()"
  using New_decodes [OF assms] New_valid [OF assms(1)] New_fields [OF assms(1)] by auto

theorem record_roundtrip_witness:
  "DecodePayload (stored 0 ''run-1'' 1 (UserMessagePayload ''hi'')) = Some (norm_payload (UserMessagePayload ''hi'')) \<and>
   r_kind (stored 0 ''run-1'' 1 (UserMessagePayload ''hi'')) = kind_of (UserMessagePayload ''hi'') \<and>
   Validate (stored 0 ''run-1'' 1 (UserMessagePayload ''hi'')) = Inr ()"
proof (rule record_roundtrip)
  have "marshal_payload (UserMessagePayload ''hi'') = Some (wr (JObj [(''text'', jstring ''hi'')]))"
    by (simp add: marshal_payload_def)
  then show "New ''run-1'' 1 (kind_of (UserMessagePayload ''hi'')) (UserMessagePayload ''hi'') =
      Inr (stored 0 ''run-1'' 1 (UserMessagePayload ''hi''))"
    by (subst New_ok) (auto simp: run_id_ok_def stored_def)
qed simp

end
