(* ===== verification/Jsonl.thy ===== *)
theory Jsonl
  imports Transcript
begin

text \<open>
  The durable logs of \<open>internal/store\<close> byte by byte: one JSON document per line. This theory
  has the text of one record and one event (\<open>json.Encoder\<close> without HTML escaping), the
  scanner, \<open>readJSONLines\<close> and the text \<open>appendJSONLines\<close> writes, and the contract of a log
  over any line codec. RFC 3339 text of times is the standard library's; it is an argument,
  of which only \<open>clock_ok\<close> is used: what is printed is plain text and reads back.
\<close>

subsection \<open>Printed JSON holds no control byte\<close>

lemma rd_str_no_ctrl: "rd_str s = Some (b, r) \<Longrightarrow> c \<in> set b \<Longrightarrow> 32 \<le> ord_of c"
proof -
  have hex: "hex_val x \<noteq> None \<Longrightarrow> 32 \<le> ord_of x" for x
    by (auto simp: hex_val_def is_digit_def byte_in_def split: if_splits)
  have u4: "get_u4 s \<noteq> None \<Longrightarrow> x \<in> set (take 4 s) \<Longrightarrow> 32 \<le> ord_of x" for s x
    using hex by (auto simp: get_u4_def take_Cons' split: list.splits option.splits if_splits)
  show "rd_str s = Some (b, r) \<Longrightarrow> c \<in> set b \<Longrightarrow> 32 \<le> ord_of c"
  proof (induction s arbitrary: b r rule: rd_str.induct)
    case (2 d s)
    consider "d = CHR 0x22" | "d \<noteq> CHR 0x22" "\<not> ord_of d < 32" "d \<noteq> CHR 0x5C"
      | "d \<noteq> CHR 0x22" "\<not> ord_of d < 32" "d = CHR 0x5C"
      using "2.prems" by (auto split: if_splits)
    then show ?case
    proof cases
      case 1
      with "2.prems" show ?thesis by simp
    next
      case 2
      with "2.prems" obtain b' where "rd_str s = Some (b', r)" "b = d # b'" by auto
      with 2 "2.IH"(3) [OF 2(1,2,3)] "2.prems"(2) show ?thesis by auto
    next
      case 3
      with "2.prems" obtain e s1 where s: "s = e # s1" by (cases s) auto
      show ?thesis
      proof (cases "e = CHR ''u''")
        case True
        with "2.prems" 3 s obtain b' where b: "get_u4 s1 \<noteq> None" "rd_str (drop 4 s1) = Some (b', r)"
          "b = d # e # take 4 s1 @ b'" by (auto split: if_splits)
        with "2.IH"(1) [OF 3 s True _ b(2)] 3 True u4 [OF b(1)] "2.prems"(2) show ?thesis by auto
      next
        case False
        with "2.prems" 3 s obtain b' where b: "rd_str s1 = Some (b', r)" "b = d # e # b'"
          and e: "e \<in> {CHR ''b'', CHR ''f'', CHR ''n'', CHR ''r'', CHR ''t'', CHR 0x5C, CHR ''/'', CHR 0x22}"
          by (auto split: if_splits)
        from e have "32 \<le> ord_of e" by auto
        with "2.IH"(2) [OF 3 s False e b(1)] b 3 "2.prems"(2) show ?thesis by auto
      qed
    qed
  qed simp
qed

lemma str_ok_no_ctrl: "str_ok b \<Longrightarrow> c \<in> set b \<Longrightarrow> 32 \<le> ord_of c"
  unfolding str_ok_def by (rule rd_str_no_ctrl)

lemma digit_no_ctrl: "is_digit c \<Longrightarrow> 32 \<le> ord_of c"
  by (simp add: is_digit_def byte_in_def)

lemma rd_num_no_ctrl: "rd_num s = Some (l, r) \<Longrightarrow> c \<in> set l \<Longrightarrow> 32 \<le> ord_of c"
proof -
  have dig: "x \<in> set (takeWhile is_digit t) \<Longrightarrow> 32 \<le> ord_of x" for x t
    by (auto dest: set_takeWhileD digit_no_ctrl)
  have i: "rd_int_part t = Some (i, t') \<Longrightarrow> x \<in> set i \<Longrightarrow> 32 \<le> ord_of x" for t t' i x
    using dig [of x t] by (auto simp: rd_int_part_def split: list.splits if_splits)
  have f: "rd_frac t = Some (i, t') \<Longrightarrow> x \<in> set i \<Longrightarrow> 32 \<le> ord_of x" for t t' i x
    using dig by (fastforce simp: rd_frac_def split: list.splits if_splits dest: digit_no_ctrl)
  have e: "32 \<le> ord_of x" if ex: "rd_exp t = Some (i, t')" and x: "x \<in> set i" for t t' i x
  proof -
    from ex x obtain d u where t: "t = d # u" "d = CHR ''e'' \<or> d = CHR ''E''"
      by (auto simp: rd_exp_def split: list.splits if_splits)
    define p where "p = (case u of y # r' \<Rightarrow> if y = CHR ''+'' \<or> y = CHR ''-'' then ([y], r') else ([], u) | [] \<Rightarrow> ([], []))"
    have "set (fst p) \<subseteq> {CHR ''+'', CHR ''-''}" by (auto simp: p_def split: list.split)
    moreover have "i = d # fst p @ takeWhile is_digit (snd p)"
      using ex t by (auto simp: rd_exp_def p_def [symmetric] Let_def split: if_splits prod.splits)
    ultimately show ?thesis using t(2) x dig by auto
  qed
  assume num: "rd_num s = Some (l, r)" and c: "c \<in> set l"
  define sg where "sg = (case s of x # t \<Rightarrow> if x = CHR ''-'' then [x] else [] | [] \<Rightarrow> [])"
  define s0 where "s0 = (case s of x # t \<Rightarrow> if x = CHR ''-'' then t else s | [] \<Rightarrow> [])"
  have pair: "(case s of x # t \<Rightarrow> if x = CHR ''-'' then ([x], t) else ([], s) | [] \<Rightarrow> ([], [])) = (sg, s0)"
    by (auto simp: sg_def s0_def split: list.split)
  have "rd_num s = (case rd_int_part s0 of None \<Rightarrow> None
      | Some (a, s1) \<Rightarrow> (case rd_frac s1 of None \<Rightarrow> None
        | Some (b, s2) \<Rightarrow> (case rd_exp s2 of None \<Rightarrow> None | Some (d, s3) \<Rightarrow> Some (sg @ a @ b @ d, s3))))"
    by (simp only: rd_num_def pair Let_def prod.case)
  with num obtain a s1 where a: "rd_int_part s0 = Some (a, s1)"
    and *: "(case rd_frac s1 of None \<Rightarrow> None
        | Some (b, s2) \<Rightarrow> (case rd_exp s2 of None \<Rightarrow> None | Some (d, s3) \<Rightarrow> Some (sg @ a @ b @ d, s3))) = Some (l, r)"
    by (cases "rd_int_part s0") auto
  from * obtain b s2 where b: "rd_frac s1 = Some (b, s2)"
    and **: "(case rd_exp s2 of None \<Rightarrow> None | Some (d, s3) \<Rightarrow> Some (sg @ a @ b @ d, s3)) = Some (l, r)"
    by (cases "rd_frac s1") auto
  from ** obtain d where "rd_exp s2 = Some (d, r)" "l = sg @ a @ b @ d" by (cases "rd_exp s2") auto
  note a b this
  moreover have "x \<in> set sg \<Longrightarrow> 32 \<le> ord_of x" for x by (auto simp: sg_def split: list.splits if_splits)
  ultimately show ?thesis using c i f e by auto
qed

lemma set_join_byte: "x \<in> set (join_byte s ws) \<Longrightarrow> x = s \<or> (\<exists>w \<in> set ws. x \<in> set w)"
  by (induction s ws rule: join_byte.induct) auto

lemma wr_no_ctrl: "wf_json v \<Longrightarrow> c \<in> set (wr v) \<Longrightarrow> 32 \<le> ord_of c"
proof (induction v)
  case (JNum l)
  then show ?case using rd_num_no_ctrl by (auto simp: num_ok_def)
next
  case (JStr b)
  then show ?case using str_ok_no_ctrl by auto
next
  case (JArr vs)
  from JArr.prems(2) consider "c = CHR ''[''" | "c = CHR '']''" | "c \<in> set (join_byte CHR '','' (map wr vs))" by auto
  then show ?case
  proof cases
    case 3
    from set_join_byte [OF this] consider "c = CHR '',''" | v where "v \<in> set vs" "c \<in> set (wr v)" by auto
    then show ?thesis using JArr.IH JArr.prems(1) by cases (auto simp: list_all_iff)
  qed auto
next
  case (JObj ms)
  let ?w = "\<lambda>(k, v). CHR 0x22 # k @ CHR 0x22 # CHR '':'' # wr v"
  from JObj.prems(2) consider "c = CHR ''{''" | "c = CHR ''}''" | "c \<in> set (join_byte CHR '','' (map ?w ms))" by auto
  then show ?case
  proof cases
    case 3
    from set_join_byte [OF this] consider "c = CHR '',''" | k v where "(k, v) \<in> set ms" "c \<in> set (?w (k, v))" by auto
    then show ?thesis
    proof cases
      case (2 k v)
      with JObj.prems(1) have ok: "str_ok k" "wf_json v" by (auto simp: list_all_iff)
      from 2(2) consider "c = CHR 0x22" | "c = CHR '':''" | "c \<in> set k" | "c \<in> set (wr v)" by auto
      then show ?thesis
      proof cases
        case 4
        with JObj.IH [OF 2(1), of v] ok show ?thesis by simp
      qed (use ok str_ok_no_ctrl in auto)
    qed auto
  qed auto
qed (auto split: if_splits)

subsection \<open>A log of lines\<close>

definition nl :: char where "nl = CHR 0x0A"

definition max_line :: nat where "max_line = 4 * 1024 * 1024"

text \<open>
  \<open>bufio.Scanner\<close> with \<open>ScanLines\<close>: pieces between newlines, the last one only when it is not
  empty, each without one trailing carriage return; a piece that does not fit the buffer
  together with its newline stops the scan with an error.
\<close>

definition drop_cr :: "bytes \<Rightarrow> bytes" where
  "drop_cr l = (if l \<noteq> [] \<and> last l = CHR 0x0D then butlast l else l)"

definition raw_lines :: "bytes \<Rightarrow> bytes list" where
  "raw_lines s = (let ps = split_byte nl s in if last ps = [] then butlast ps else ps)"

definition scan_lines :: "bytes \<Rightarrow> bytes list option" where
  "scan_lines s = (if list_all (\<lambda>l. length l < max_line) (raw_lines s)
     then Some (map drop_cr (raw_lines s)) else None)"

fun decode_lines :: "(bytes \<Rightarrow> 'a option) \<Rightarrow> bytes list \<Rightarrow> 'a list option" where
  "decode_lines dec [] = Some []"
| "decode_lines dec (l # ls) =
     (case dec l of None \<Rightarrow> None | Some a \<Rightarrow> map_option ((#) a) (decode_lines dec ls))"

text \<open>
  \<open>readJSONLines\<close>: a fl that does not exist is empty; None is \<open>ErrCorrupt\<close>. A final line
  without newline is a partial append.
\<close>

definition readJSONLines :: "(bytes \<Rightarrow> 'a option) \<Rightarrow> bytes option \<Rightarrow> 'a list option" where
  "readJSONLines dec fl = (case fl of
     None \<Rightarrow> Some []
   | Some data \<Rightarrow>
      (case scan_lines data of
         None \<Rightarrow> None
       | Some ls \<Rightarrow> (case decode_lines dec ls of
           None \<Rightarrow> None
         | Some as \<Rightarrow> if data \<noteq> [] \<and> last data \<noteq> nl then None else Some as)))"

text \<open>The text \<open>appendJSONLines\<close> writes; None when a value cannot be encoded.\<close>

fun encode_lines :: "('a \<Rightarrow> bytes option) \<Rightarrow> 'a list \<Rightarrow> bytes option" where
  "encode_lines enc [] = Some []"
| "encode_lines enc (a # as) =
     (case enc a of None \<Rightarrow> None | Some l \<Rightarrow> map_option (\<lambda>t. l @ nl # t) (encode_lines enc as))"

definition appendJSONLines :: "('a \<Rightarrow> bytes option) \<Rightarrow> 'a list \<Rightarrow> bytes option \<Rightarrow> bytes option option" where
  "appendJSONLines enc as fl =
     (if as = [] then Some fl
      else map_option (\<lambda>t. Some ((case fl of None \<Rightarrow> [] | Some d \<Rightarrow> d) @ t)) (encode_lines enc as))"

lemma split_no_sep': "sep \<notin> set w \<Longrightarrow> split_byte sep w = [w]"
  by (induction w) auto

lemma split_append': "split_byte sep (p @ sep # q) = split_byte sep p @ split_byte sep q"
  by (induction p) (auto split: list.splits)

lemma raw_lines_line: "nl \<notin> set l \<Longrightarrow> raw_lines (l @ nl # s) = l # raw_lines s"
  using split_append' [of nl l s] split_no_sep' [of nl l] by (simp add: raw_lines_def Let_def)

lemma raw_lines_tail: "nl \<notin> set l \<Longrightarrow> l \<noteq> [] \<Longrightarrow> raw_lines l = [l]"
  by (simp add: raw_lines_def split_no_sep')

lemma raw_lines_nil [simp]: "raw_lines [] = []"
  by (simp add: raw_lines_def)

lemma raw_lines_append: "raw_lines (p @ nl # s) = raw_lines (p @ [nl]) @ raw_lines s"
  using split_append' [of nl p s] split_append' [of nl p "[]"]
  by (simp add: raw_lines_def Let_def butlast_append)

lemma decode_lines_append:
  "decode_lines dec (xs @ ys) = (case decode_lines dec xs of None \<Rightarrow> None
     | Some as \<Rightarrow> map_option ((@) as) (decode_lines dec ys))"
  by (induction xs) (cases "decode_lines dec ys"; auto split: option.splits)+

text \<open>
  The contract of a log: what a codec of single lines must keep, and what then holds of whole
  files, appended to and cut anywhere.
\<close>

locale line_codec =
  fixes enc :: "'a \<Rightarrow> bytes option"
    and dec :: "bytes \<Rightarrow> 'a option"
    and ok :: "'a \<Rightarrow> bool"
  assumes enc_ok: "ok a \<Longrightarrow> \<exists>l. enc a = Some l \<and> dec l = Some a \<and> (\<forall>c \<in> set l. 32 \<le> ord_of c) \<and>
      length l < max_line"
begin

lemma enc_props:
  assumes "ok a" "enc a = Some l"
  shows "dec l = Some a" "nl \<notin> set l" "drop_cr l = l" "length l < max_line"
proof -
  from enc_ok [OF assms(1)] assms(2) have *: "dec l = Some a" "\<forall>c \<in> set l. 32 \<le> ord_of c" "length l < max_line"
    by auto
  then show "dec l = Some a" "nl \<notin> set l" "length l < max_line" by (auto simp: nl_def)
  have "l \<noteq> [] \<Longrightarrow> last l \<noteq> CHR 0x0D" using *(2) last_in_set [of l] by fastforce
  then show "drop_cr l = l" by (auto simp: drop_cr_def)
qed

lemma encode_some: "\<forall>a \<in> set as. ok a \<Longrightarrow> \<exists>t. encode_lines enc as = Some t"
  by (induction as) (auto dest!: enc_ok)

lemma read_encoded:
  "\<forall>a \<in> set as. ok a \<Longrightarrow> encode_lines enc as = Some t \<Longrightarrow>
     readJSONLines dec (Some t) = Some as \<and> (t = [] \<or> last t = nl)"
proof (induction as arbitrary: t)
  case Nil
  then show ?case by (simp add: readJSONLines_def scan_lines_def)
next
  case (Cons a as)
  from Cons.prems obtain l u where l: "enc a = Some l" and u: "encode_lines enc as = Some u" "t = l @ nl # u"
    by (auto split: option.splits)
  note p = enc_props [OF _ l]
  have ok: "ok a" using Cons.prems(1) by simp
  have IH: "readJSONLines dec (Some u) = Some as" "u = [] \<or> last u = nl" using Cons.IH [OF _ u(1)] Cons.prems(1) by auto
  have lines: "raw_lines t = l # raw_lines u" using raw_lines_line [OF p(2) [OF ok]] u(2) by simp
  have last: "last t = nl" using IH(2) u(2) by (auto simp: last_append)
  show ?case using IH(1) p ok lines last u(2)
    by (auto simp: readJSONLines_def scan_lines_def split: option.splits if_splits)
qed

text \<open>Reading back after an append gives the old values and then the new ones.\<close>

lemma read_append:
  assumes "readJSONLines dec fl = Some old" "\<forall>a \<in> set as. ok a"
  shows "\<exists>fl'. appendJSONLines enc as fl = Some fl' \<and> readJSONLines dec fl' = Some (old @ as)"
proof (cases "as = []")
  case True
  with assms show ?thesis by (simp add: appendJSONLines_def)
next
  case False
  from encode_some [OF assms(2)] obtain t where t: "encode_lines enc as = Some t" by blast
  note rt = read_encoded [OF assms(2) t]
  define d where "d = (case fl of None \<Rightarrow> [] | Some d \<Rightarrow> d)"
  have "readJSONLines dec (Some d) = Some old"
    using assms(1) by (cases fl) (simp_all add: d_def readJSONLines_def scan_lines_def)
  then have d: "d = [] \<or> last d = nl" "list_all (\<lambda>l. length l < max_line) (raw_lines d)"
    "decode_lines dec (map drop_cr (raw_lines d)) = Some old"
    by (auto simp: readJSONLines_def scan_lines_def split: if_splits option.splits)
  have tne: "t \<noteq> []" using t False by (cases as) (auto split: option.splits)
  have lines: "raw_lines (d @ t) = raw_lines d @ raw_lines t"
  proof (cases "d = []")
    case False
    with d(1) obtain p where "d = p @ [nl]" by (metis append_butlast_last_id)
    then show ?thesis using raw_lines_append [of p t] by simp
  qed simp
  have "readJSONLines dec (Some (d @ t)) = Some (old @ as)"
    using rt d tne by (auto simp: readJSONLines_def scan_lines_def lines decode_lines_append
        split: option.splits if_splits)
  with t False show ?thesis by (simp add: appendJSONLines_def d_def)
qed

text \<open>
  A torn append: any strict prefix of the text of an append, written after a readable fl,
  is rejected when it ends inside a line, and otherwise reads as the old values and the first
  few new ones.
\<close>

lemma torn_prefix:
  "\<forall>a \<in> set as. ok a \<Longrightarrow> encode_lines enc as = Some t \<Longrightarrow> t = p @ q \<Longrightarrow>
     (p \<noteq> [] \<and> last p \<noteq> nl) \<or> (\<exists>n \<le> length as. encode_lines enc (take n as) = Some p)"
proof (induction as arbitrary: t p)
  case Nil
  then show ?case by simp
next
  case (Cons a as)
  from Cons.prems obtain l u where l: "enc a = Some l" and u: "encode_lines enc as = Some u" "t = l @ nl # u"
    by (auto split: option.splits)
  have ok: "ok a" using Cons.prems(1) by simp
  note pr = enc_props [OF ok l]
  show ?case
  proof (cases "length p \<le> length l")
    case True
    have "l @ nl # u = p @ q" using Cons.prems(3) u(2) by simp
    with True obtain r where r: "l = p @ r" by (auto simp: append_eq_append_conv2)
    show ?thesis
    proof (cases "p = []")
      case False
      then have "last p \<in> set l" using r by simp
      with pr(2) have "last p \<noteq> nl" by metis
      with False show ?thesis by blast
    qed (auto intro!: exI [of _ 0])
  next
    case False
    have "l @ nl # u = p @ q" using Cons.prems(3) u(2) by simp
    with False obtain p' where p': "p = l @ nl # p'" "u = p' @ q"
      by (auto simp: append_eq_append_conv2 Cons_eq_append_conv)
    from Cons.IH [OF _ u(1) p'(2)] Cons.prems(1)
    consider "p' \<noteq> []" "last p' \<noteq> nl" | n where "n \<le> length as" "encode_lines enc (take n as) = Some p'" by auto
    then show ?thesis
    proof cases
      case 1
      with p' show ?thesis by (simp add: last_append)
    next
      case 2
      then have "encode_lines enc (take (Suc n) (a # as)) = Some p" using l p' by simp
      with 2 show ?thesis by (intro disjI2 exI [of _ "Suc n"]) auto
    qed
  qed
qed

lemma read_torn:
  assumes "readJSONLines dec fl = Some old" "\<forall>a \<in> set as. ok a" "encode_lines enc as = Some (p @ q)"
  shows "readJSONLines dec (Some ((case fl of None \<Rightarrow> [] | Some d \<Rightarrow> d) @ p)) = None \<or>
    (\<exists>n \<le> length as. readJSONLines dec (Some ((case fl of None \<Rightarrow> [] | Some d \<Rightarrow> d) @ p)) = Some (old @ take n as))"
proof (cases "p = []")
  case True
  have "readJSONLines dec (Some (case fl of None \<Rightarrow> [] | Some d \<Rightarrow> d)) = Some old"
    using assms(1) by (cases fl) (simp_all add: readJSONLines_def scan_lines_def)
  with True show ?thesis by (intro disjI2 exI [of _ 0]) simp
next
  case False
  from torn_prefix [OF assms(2,3) refl] False
  consider "last p \<noteq> nl" | n where "n \<le> length as" "encode_lines enc (take n as) = Some p" by auto
  then show ?thesis
  proof cases
    case 1
    with False show ?thesis by (auto simp: readJSONLines_def split: option.splits)
  next
    case 2
    have "\<forall>a \<in> set (take n as). ok a" using assms(2) by (meson in_set_takeD)
    from read_append [OF assms(1) this] 2(2) False obtain f where
      "appendJSONLines enc (take n as) fl = Some f" "readJSONLines dec f = Some (old @ take n as)" by blast
    moreover have "take n as \<noteq> []" using 2(2) False by (metis encode_lines.simps(1) option.inject)
    ultimately show ?thesis using 2 by (auto simp: appendJSONLines_def)
  qed
qed

end

end
