(* ===== verification/Logs.thy ===== *)
theory Logs
  imports Jsonl
begin

text \<open>
  The log lines of \<open>transcript.Record\<close> and \<open>event.Event\<close>: the struct's JSON with its kind as wire
  text, and its strict decoding. Both are codecs of \<open>line_codec\<close>.
\<close>

text \<open>The RFC 3339 text of a time, printed and parsed by the standard library.\<close>

record clock_text =
  ct_show :: "gotime \<Rightarrow> bytes"
  ct_read :: "bytes \<Rightarrow> gotime option"

definition safe_char :: "char \<Rightarrow> bool" where
  "safe_char c \<longleftrightarrow> 32 \<le> ord_of c \<and> ord_of c < 127 \<and> c \<noteq> CHR 0x22 \<and> c \<noteq> CHR 0x5C"

definition clock_ok :: "clock_text \<Rightarrow> gotime \<Rightarrow> bool" where
  "clock_ok ct t \<longleftrightarrow> list_all safe_char (ct_show ct t) \<and> ct_read ct (ct_show ct t) = Some t"

text \<open>The literal body of a string when HTML escaping is off.\<close>

fun quote_plain :: "bytes \<Rightarrow> bytes" where
  "quote_plain [] = []"
| "quote_plain (c # s) =
     (if ord_of c < 128 then
        (if c = CHR ''<'' \<or> c = CHR ''>'' \<or> c = CHR ''&'' then [c] else esc_byte c) @ quote_plain s
      else (let n = rune_size (c # s) in
        if n = 0 then [CHR 0x5C, CHR ''u'', CHR ''f'', CHR ''f'', CHR ''f'', CHR ''d''] @ quote_plain s
        else if line_sep (c # s) then
          [CHR 0x5C, CHR ''u'', CHR ''2'', CHR ''0'', CHR ''2'',
           hex_char (ord_of ((c # s) ! 2) mod 16)] @ quote_plain (drop (n - 1) s)
        else take n (c # s) @ quote_plain (drop (n - 1) s)))"

definition f_u64 :: "(u64 \<Rightarrow> 's \<Rightarrow> 's) \<Rightarrow> json \<Rightarrow> 's \<Rightarrow> 's option" where
  "f_u64 upd v s = (case v of
     JNum l \<Rightarrow> (if l \<noteq> [] \<and> list_all is_digit l \<and> read_nat l < 2 ^ 64
               then Some (upd (of_nat (read_nat l)) s) else None)
   | JNull \<Rightarrow> Some s | _ \<Rightarrow> None)"

definition f_time :: "clock_text \<Rightarrow> (gotime \<Rightarrow> 's \<Rightarrow> 's) \<Rightarrow> json \<Rightarrow> 's \<Rightarrow> 's option" where
  "f_time ct upd v s = (case v of
     JStr b \<Rightarrow> map_option (\<lambda>t. upd t s) (ct_read ct b) | JNull \<Rightarrow> Some s | _ \<Rightarrow> None)"

subsection \<open>Wire names of the kinds\<close>

fun record_kind_text :: "record_kind \<Rightarrow> bytes" where
  "record_kind_text KindUserMessage = ''user_message''"
| "record_kind_text KindAssistantBlock = ''assistant_block''"
| "record_kind_text KindToolCall = ''tool_call''"
| "record_kind_text KindToolResult = ''tool_result''"
| "record_kind_text KindCancellationBoundary = ''cancellation_boundary''"
| "record_kind_text KindRunOutcome = ''run_outcome''"
| "record_kind_text KindInstructionsLoaded = ''instructions_loaded''"
| "record_kind_text KindClosed = ''session_closed''"
| "record_kind_text (KindUnregistered b) = b"

definition record_kinds :: "record_kind list" where
  "record_kinds = [KindUserMessage, KindAssistantBlock, KindToolCall, KindToolResult,
     KindCancellationBoundary, KindRunOutcome, KindInstructionsLoaded, KindClosed]"

definition record_kind_parse :: "bytes \<Rightarrow> record_kind" where
  "record_kind_parse b = (case find (\<lambda>k. record_kind_text k = b) record_kinds of
     Some k \<Rightarrow> k | None \<Rightarrow> KindUnregistered b)"

fun event_kind_text :: "kind \<Rightarrow> bytes" where
  "event_kind_text KindRunStarted = ''run_started''"
| "event_kind_text KindRunCompleted = ''run_completed''"
| "event_kind_text KindRunFailed = ''run_failed''"
| "event_kind_text KindRunCancelled = ''run_cancelled''"
| "event_kind_text KindAssistantText = ''assistant_text''"
| "event_kind_text KindAssistantDelta = ''assistant_delta''"
| "event_kind_text KindToolStarted = ''tool_started''"
| "event_kind_text KindToolFinished = ''tool_finished''"
| "event_kind_text KindWarning = ''warning''"
| "event_kind_text KindRetryScheduled = ''retry_scheduled''"
| "event_kind_text KindSessionResumed = ''session_resumed''"
| "event_kind_text KindSessionClosed = ''session_closed''"
| "event_kind_text (KindOther b) = b"

definition event_kinds :: "kind list" where
  "event_kinds = [KindRunStarted, KindRunCompleted, KindRunFailed, KindRunCancelled, KindAssistantText,
     KindAssistantDelta, KindToolStarted, KindToolFinished, KindWarning, KindRetryScheduled,
     KindSessionResumed, KindSessionClosed]"

definition event_kind_parse :: "bytes \<Rightarrow> kind" where
  "event_kind_parse b = (case find (\<lambda>k. event_kind_text k = b) event_kinds of
     Some k \<Rightarrow> k | None \<Rightarrow> KindOther b)"

subsection \<open>Records\<close>

definition u64_json :: "u64 \<Rightarrow> json" where
  "u64_json n = JNum (show_nat (unat n))"

definition record_json :: "clock_text \<Rightarrow> trecord \<Rightarrow> json option" where
  "record_json ct r = map_option (\<lambda>v. JObj (
      [(''seq'', u64_json (r_seq r)), (''time'', JStr (ct_show ct (r_time r)))] @
      (if r_run r = [] then [] else [(''run_id'', JStr (quote_plain (r_run r)))]) @
      [(''kind'', JStr (quote_plain (record_kind_text (r_kind r)))), (''payload'', v)]))
    (read_doc (r_payload r))"

definition record_line :: "clock_text \<Rightarrow> trecord \<Rightarrow> bytes option" where
  "record_line ct r = map_option wr (record_json ct r)"

definition record_read :: "clock_text \<Rightarrow> bytes \<Rightarrow> trecord option" where
  "record_read ct line = (case read_doc line of
     None \<Rightarrow> None
   | Some v \<Rightarrow> decode_struct
      [(''seq'', f_u64 (\<lambda>x r. r\<lparr>r_seq := x\<rparr>)), (''time'', f_time ct (\<lambda>x r. r\<lparr>r_time := x\<rparr>)),
       (''run_id'', f_string (\<lambda>x r. r\<lparr>r_run := x\<rparr>)),
       (''kind'', f_string (\<lambda>x r. r\<lparr>r_kind := record_kind_parse x\<rparr>)),
       (''payload'', f_raw (\<lambda>x r. r\<lparr>r_payload := x\<rparr>))] v
      \<lparr>r_seq = 0, r_time = 0, r_run = [], r_kind = KindUnregistered [], r_payload = []\<rparr>)"

subsection \<open>Events\<close>

definition event_json :: "clock_text \<Rightarrow> event \<Rightarrow> json option" where
  "event_json ct e = map_option (\<lambda>v. JObj
      [(''session_id'', JStr (quote_plain (ev_session e))), (''run_id'', JStr (quote_plain (ev_run e))),
       (''cursor'', u64_json (ev_cursor e)), (''time'', JStr (ct_show ct (ev_time e))),
       (''kind'', JStr (quote_plain (event_kind_text (ev_kind e)))), (''payload'', v)])
    (read_doc (ev_payload e))"

definition event_line :: "clock_text \<Rightarrow> event \<Rightarrow> bytes option" where
  "event_line ct e = map_option wr (event_json ct e)"

definition event_read :: "clock_text \<Rightarrow> bytes \<Rightarrow> event option" where
  "event_read ct line = (case read_doc line of
     None \<Rightarrow> None
   | Some v \<Rightarrow> decode_struct
      [(''session_id'', f_string (\<lambda>x e. e\<lparr>ev_session := x\<rparr>)), (''run_id'', f_string (\<lambda>x e. e\<lparr>ev_run := x\<rparr>)),
       (''cursor'', f_u64 (\<lambda>x e. e\<lparr>ev_cursor := x\<rparr>)), (''time'', f_time ct (\<lambda>x e. e\<lparr>ev_time := x\<rparr>)),
       (''kind'', f_string (\<lambda>x e. e\<lparr>ev_kind := event_kind_parse x\<rparr>)),
       (''payload'', f_raw (\<lambda>x e. e\<lparr>ev_payload := x\<rparr>))] v
      \<lparr>ev_session = [], ev_run = [], ev_cursor = 0, ev_time = 0, ev_kind = KindOther [], ev_payload = []\<rparr>)"

subsection \<open>Both are line codecs\<close>

lemma safe_text:
  assumes "list_all safe_char s"
  shows "quote_plain s = s" "str_ok s" "unquote s = s"
proof -
  have "quote_plain s = s \<and> rd_str (s @ [CHR 0x22]) = Some (s, []) \<and> unquote s = s"
    using assms
  proof (induction s)
    case (Cons c s)
    then have c: "32 \<le> ord_of c" "ord_of c < 127" "c \<noteq> CHR 0x22" "c \<noteq> CHR 0x5C" by (auto simp: safe_char_def)
    then have "(if c = CHR ''<'' \<or> c = CHR ''>'' \<or> c = CHR ''&'' then [c] else esc_byte c) = [c]"
      by (auto simp: esc_byte_def)
    with c Cons show ?case by (auto simp: safe_char_def)
  qed simp
  then show "quote_plain s = s" "str_ok s" "unquote s = s" by (auto simp: str_ok_def)
qed

lemma kind_parse [simp]:
  "rec_registered k \<Longrightarrow> record_kind_parse (record_kind_text k) = k"
  "registered j \<Longrightarrow> event_kind_parse (event_kind_text j) = j"
  by (cases k; simp add: record_kind_parse_def record_kinds_def rec_registered_def)
     (cases j; simp add: event_kind_parse_def event_kinds_def registered_def)

lemma kind_text_safe [simp]:
  "rec_registered k \<Longrightarrow> list_all safe_char (record_kind_text k)"
  "registered j \<Longrightarrow> list_all safe_char (event_kind_text j)"
  by (cases k; simp add: safe_char_def rec_registered_def)
     (cases j; simp add: safe_char_def registered_def)

lemma plain_log_names [simp]:
  "plain ''seq''" "plain ''time''" "plain ''run_id''" "plain ''kind''" "plain ''payload''"
  "plain ''session_id''" "plain ''cursor''"
  by (simp_all add: plain_def is_lower_def is_digit_def byte_in_def)

lemmas plain_log_names_ok [simp] = plain_log_names [THEN plain_str_ok]

lemma f_u64_show [simp]: "f_u64 upd (u64_json n) s = Some (upd n s)"
proof -
  have "unat n < 2 ^ LENGTH(64)" by (rule unsigned_less)
  then have "unat n < 2 ^ 64" by simp
  then show ?thesis
    by (simp add: f_u64_def u64_json_def list_all_iff show_nat_digits)
qed

lemma wf_u64_json [simp]: "wf_json (u64_json n)"
  by (simp add: u64_json_def)

definition compact :: "bytes \<Rightarrow> bool" where
  "compact raw \<longleftrightarrow> (\<exists>v. wf_json v \<and> raw = wr v)"

lemma compactD: "compact raw \<Longrightarrow> \<exists>v. read_doc raw = Some v \<and> wr v = raw \<and> wf_json v"
  by (auto simp: compact_def)

definition record_ok :: "clock_text \<Rightarrow> trecord \<Rightarrow> bool" where
  "record_ok ct r \<longleftrightarrow> clock_ok ct (r_time r) \<and> list_all safe_char (r_run r) \<and> rec_registered (r_kind r) \<and>
     compact (r_payload r) \<and> (case record_line ct r of None \<Rightarrow> False | Some l \<Rightarrow> length l < max_line)"

definition event_ok :: "clock_text \<Rightarrow> event \<Rightarrow> bool" where
  "event_ok ct e \<longleftrightarrow> clock_ok ct (ev_time e) \<and> list_all safe_char (ev_session e) \<and>
     list_all safe_char (ev_run e) \<and> registered (ev_kind e) \<and> compact (ev_payload e) \<and>
     (case event_line ct e of None \<Rightarrow> False | Some l \<Rightarrow> length l < max_line)"

lemma record_json_ok:
  assumes "record_ok ct r"
  obtains v where "record_json ct r = Some v" "wf_json v" "record_read ct (wr v) = Some r"
proof -
  from assms obtain w where w: "read_doc (r_payload r) = Some w" "wr w = r_payload r" "wf_json w"
    by (auto simp: record_ok_def dest!: compactD)
  from assms have clk: "list_all safe_char (ct_show ct (r_time r))" "ct_read ct (ct_show ct (r_time r)) = Some (r_time r)"
    and run: "list_all safe_char (r_run r)" and k: "rec_registered (r_kind r)"
    by (auto simp: record_ok_def clock_ok_def)
  note safe = safe_text [OF clk(1)] safe_text [OF run] safe_text [OF kind_text_safe(1) [OF k]]
  obtain v where v: "record_json ct r = Some v" by (simp add: record_json_def w)
  have wf: "wf_json v" using v w safe by (auto simp: record_json_def split: if_splits)
  have "record_read ct (wr v) = Some r"
  proof (cases r)
    case (fields sq tm rn kd pl)
    show ?thesis using v wf w safe clk(2) k fields
      by (auto simp: record_read_def record_json_def f_string_def f_raw_def f_time_def
          simp del: wr.simps split: if_splits)
  qed
  with v wf that show ?thesis by blast
qed

lemma event_json_ok:
  assumes "event_ok ct e"
  obtains v where "event_json ct e = Some v" "wf_json v" "event_read ct (wr v) = Some e"
proof -
  from assms obtain w where w: "read_doc (ev_payload e) = Some w" "wr w = ev_payload e" "wf_json w"
    by (auto simp: event_ok_def dest!: compactD)
  from assms have clk: "list_all safe_char (ct_show ct (ev_time e))" "ct_read ct (ct_show ct (ev_time e)) = Some (ev_time e)"
    and ids: "list_all safe_char (ev_session e)" "list_all safe_char (ev_run e)" and k: "registered (ev_kind e)"
    by (auto simp: event_ok_def clock_ok_def)
  note safe = safe_text [OF clk(1)] safe_text [OF ids(1)] safe_text [OF ids(2)] safe_text [OF kind_text_safe(2) [OF k]]
  obtain v where v: "event_json ct e = Some v" by (simp add: event_json_def w)
  have wf: "wf_json v" using v w safe by (auto simp: event_json_def)
  have "event_read ct (wr v) = Some e"
  proof (cases e)
    case (fields sd rn cu tm kd pl)
    show ?thesis using v wf w safe clk(2) k fields
      by (auto simp: event_read_def event_json_def f_string_def f_raw_def f_time_def simp del: wr.simps)
  qed
  with v wf that show ?thesis by blast
qed

interpretation records: line_codec "record_line ct" "record_read ct" "record_ok ct" for ct
proof
  fix r assume r: "record_ok ct r"
  from record_json_ok [OF r] obtain v where "record_json ct r = Some v" "wf_json v" "record_read ct (wr v) = Some r" .
  with r wr_no_ctrl show "\<exists>l. record_line ct r = Some l \<and> record_read ct l = Some r \<and>
      (\<forall>c \<in> set l. 32 \<le> ord_of c) \<and> length l < max_line"
    by (auto simp: record_line_def record_ok_def)
qed

interpretation events: line_codec "event_line ct" "event_read ct" "event_ok ct" for ct
proof
  fix e assume e: "event_ok ct e"
  from event_json_ok [OF e] obtain v where "event_json ct e = Some v" "wf_json v" "event_read ct (wr v) = Some e" .
  with e wr_no_ctrl show "\<exists>l. event_line ct e = Some l \<and> event_read ct l = Some e \<and>
      (\<forall>c \<in> set l. 32 \<le> ord_of c) \<and> length l < max_line"
    by (auto simp: event_line_def event_ok_def)
qed

text \<open>What \<open>New\<close> builds is compact.\<close>

lemma New_compact: "New rid at k p = Inr r \<Longrightarrow> compact (r_payload r)"
  using New_fields [of rid at k p r] wf_payload_json [of p]
  by (auto simp: compact_def marshal_payload_def)

lemma ev_new_compact: "ev_new sid rid cur at k p = Inr e \<Longrightarrow> compact (ev_payload e)"
  using ev_new_fields [of sid rid cur at k p e]
  by (auto simp: compact_def ev_marshal_def intro!: exI [of _ "ev_json p"])

end
