(* ===== verification/Pairing.thy ===== *)
theory Pairing
  imports Transcript
begin

text \<open>
  \<open>internal/transcript/validate.go\<close>: the end-to-end checks of a record log. \<open>pairs\<close> holds
  the three Go maps of \<open>toolPairs\<close> as association lists in insertion order (a key is
  inserted at most once). The declarative counterpart \<open>paired_log\<close> states the same
  condition over positions of the log.
\<close>

record pairs =
  calls :: "(bytes \<times> u64) list"
  results :: "(bytes \<times> u64) list"
  call_runs :: "(bytes \<times> bytes) list"

definition no_pairs :: pairs where
  "no_pairs = \<lparr>calls = [], results = [], call_runs = []\<rparr>"

definition pair_step :: "trecord \<Rightarrow> pairs \<Rightarrow> (transcript_error, pairs) result" where
  "pair_step rec m = (case r_kind rec of
     KindToolCall \<Rightarrow> (case DecodePayload rec of
         Some (ToolCallPayload i n a) \<Rightarrow>
           (if map_of (calls m) i \<noteq> None then Inl ErrDuplicateToolCall
            else Inr (m\<lparr>calls := calls m @ [(i, r_seq rec)],
                        call_runs := call_runs m @ [(i, r_run rec)]\<rparr>))
       | _ \<Rightarrow> Inl ErrDecodePayload)
   | KindToolResult \<Rightarrow> (case DecodePayload rec of
         Some (ToolResultPayload i oc c) \<Rightarrow>
           (if map_of (calls m) i = None then Inl ErrOrphanToolResult
            else if map_of (results m) i \<noteq> None then Inl ErrDuplicateToolResult
            else if map_of (call_runs m) i \<noteq> Some (r_run rec) then Inl ErrToolRunMismatch
            else Inr (m\<lparr>results := results m @ [(i, r_seq rec)]\<rparr>))
       | _ \<Rightarrow> Inl ErrDecodePayload)
   | KindRunOutcome \<Rightarrow>
       (if list_ex (\<lambda>(i, rid). rid = r_run rec \<and> map_of (results m) i = None) (call_runs m)
        then Inl ErrTerminalWithOpenCall else Inr m)
   | _ \<Rightarrow> Inr m)"

definition toolPairs :: "trecord list \<Rightarrow> (transcript_error, pairs) result" where
  "toolPairs records = forM pair_step records no_pairs"

text \<open>
  The loop of \<open>ValidateRecords\<close>; its state is the number of records seen and \<open>closed\<close>.
\<close>

definition record_step :: "trecord \<Rightarrow> nat \<times> bool \<Rightarrow> (transcript_error, nat \<times> bool) result" where
  "record_step rec st = (case st of (i, closed) \<Rightarrow>
     if r_seq rec \<noteq> of_nat (i + 1) then Inl ErrRecordSequence
     else (case Validate rec of
         Inl e \<Rightarrow> Inl e
       | Inr _ \<Rightarrow>
          if closed then (if r_kind rec = KindClosed then Inl ErrDuplicateSessionClose
                          else Inl ErrRecordsAfterClose)
          else Inr (i + 1, r_kind rec = KindClosed)))"

definition ValidateRecords :: "trecord list \<Rightarrow> (transcript_error, unit) result" where
  "ValidateRecords records =
     (case forM record_step records (0, False) of
        Inl e \<Rightarrow> Inl e
      | Inr _ \<Rightarrow> (case toolPairs records of Inl e \<Rightarrow> Inl e | Inr _ \<Rightarrow> Inr ()))"

definition ValidateTranscript :: "trecord list \<Rightarrow> (transcript_error, unit) result" where
  "ValidateTranscript records =
     (case ValidateRecords records of
        Inl e \<Rightarrow> Inl e
      | Inr _ \<Rightarrow> (case toolPairs records of
          Inl e \<Rightarrow> Inl e
        | Inr m \<Rightarrow> if list_ex (\<lambda>(i, _). map_of (results m) i = None) (calls m)
                   then Inl ErrUnpairedToolCall else Inr ()))"

definition collect_open :: "pairs \<Rightarrow> trecord \<Rightarrow> tpayload list \<Rightarrow> (transcript_error, tpayload list) result" where
  "collect_open m rec acc =
     (if r_kind rec \<noteq> KindToolCall then Inr acc
      else (case DecodePayload rec of
         Some (ToolCallPayload i n a) \<Rightarrow>
           Inr (if map_of (results m) i = None then acc @ [ToolCallPayload i n a] else acc)
       | _ \<Rightarrow> Inl ErrDecodePayload))"

definition OpenToolCalls :: "trecord list \<Rightarrow> (transcript_error, tpayload list) result" where
  "OpenToolCalls records =
     (case ValidateRecords records of
        Inl e \<Rightarrow> Inl e
      | Inr _ \<Rightarrow> (case toolPairs records of
          Inl e \<Rightarrow> Inl e
        | Inr m \<Rightarrow> forM (collect_open m) records []))"

definition collect_open_for :: "bytes \<Rightarrow> pairs \<Rightarrow> trecord \<Rightarrow> tpayload list \<Rightarrow> (transcript_error, tpayload list) result" where
  "collect_open_for rid m rec acc =
     (if r_kind rec \<noteq> KindToolCall then Inr acc
      else (case DecodePayload rec of
         Some (ToolCallPayload i n a) \<Rightarrow>
           (if map_of (results m) i \<noteq> None then Inr acc
            else if r_run rec \<noteq> rid then Inl ErrUnpairedToolCall
            else Inr (acc @ [ToolCallPayload i n a]))
       | _ \<Rightarrow> Inl ErrDecodePayload))"

definition OpenToolCallsForRun :: "trecord list \<Rightarrow> bytes \<Rightarrow> (transcript_error, tpayload list) result" where
  "OpenToolCallsForRun records rid =
     (if rid = [] then Inl ErrUnpairedToolCall
      else (case ValidateRecords records of
        Inl e \<Rightarrow> Inl e
      | Inr _ \<Rightarrow> (case toolPairs records of
          Inl e \<Rightarrow> Inl e
        | Inr m \<Rightarrow> forM (collect_open_for rid m) records [])))"


subsection \<open>The pairing condition over the facts of the log\<close>

definition call_facts :: "trecord list \<Rightarrow> (bytes \<times> bytes) list" where
  "call_facts rs = concat (map (\<lambda>r. case (r_kind r, DecodePayload r) of
     (KindToolCall, Some (ToolCallPayload i n a)) \<Rightarrow> [(i, r_run r)] | _ \<Rightarrow> []) rs)"

definition result_facts :: "trecord list \<Rightarrow> (bytes \<times> bytes) list" where
  "result_facts rs = concat (map (\<lambda>r. case (r_kind r, DecodePayload r) of
     (KindToolResult, Some (ToolResultPayload i oc c)) \<Rightarrow> [(i, r_run r)] | _ \<Rightarrow> []) rs)"

lemma facts_simps [simp]:
  "call_facts [] = []" "result_facts [] = []"
  "call_facts (xs @ ys) = call_facts xs @ call_facts ys"
  "result_facts (xs @ ys) = result_facts xs @ result_facts ys"
  by (simp_all add: call_facts_def result_facts_def)

lemma facts_single:
  "call_facts [r] = (case (r_kind r, DecodePayload r) of
     (KindToolCall, Some (ToolCallPayload i n a)) \<Rightarrow> [(i, r_run r)] | _ \<Rightarrow> [])"
  "result_facts [r] = (case (r_kind r, DecodePayload r) of
     (KindToolResult, Some (ToolResultPayload i oc c)) \<Rightarrow> [(i, r_run r)] | _ \<Rightarrow> [])"
  by (simp_all add: call_facts_def result_facts_def)

definition pair_ok :: "trecord list \<Rightarrow> trecord \<Rightarrow> bool" where
  "pair_ok pre rec \<longleftrightarrow> (case r_kind rec of
     KindToolCall \<Rightarrow> (case DecodePayload rec of
         Some (ToolCallPayload i n a) \<Rightarrow> i \<notin> fst ` set (call_facts pre) | _ \<Rightarrow> False)
   | KindToolResult \<Rightarrow> (case DecodePayload rec of
         Some (ToolResultPayload i oc c) \<Rightarrow>
           (i, r_run rec) \<in> set (call_facts pre) \<and> i \<notin> fst ` set (result_facts pre) | _ \<Rightarrow> False)
   | KindRunOutcome \<Rightarrow>
       (\<forall>(i, rid) \<in> set (call_facts pre). rid = r_run rec \<longrightarrow> i \<in> fst ` set (result_facts pre))
   | _ \<Rightarrow> True)"

text \<open>What the three maps hold after a log.\<close>

definition tracks :: "trecord list \<Rightarrow> pairs \<Rightarrow> bool" where
  "tracks rs m \<longleftrightarrow> call_runs m = call_facts rs \<and> map fst (calls m) = map fst (call_facts rs) \<and>
     map fst (results m) = map fst (result_facts rs) \<and>
     distinct (map fst (call_facts rs)) \<and> distinct (map fst (result_facts rs)) \<and>
     set (result_facts rs) \<subseteq> set (call_facts rs)"

lemma map_of_none: "map_of al k = None \<longleftrightarrow> k \<notin> fst ` set al"
  by (rule map_of_eq_None_iff)

lemma tracks_mem:
  assumes "tracks rs m"
  shows "map_of (calls m) i = None \<longleftrightarrow> i \<notin> fst ` set (call_facts rs)"
    and "map_of (results m) i = None \<longleftrightarrow> i \<notin> fst ` set (result_facts rs)"
    and "map_of (call_runs m) i = Some rid \<longleftrightarrow> (i, rid) \<in> set (call_facts rs)"
proof -
  have "fst ` set (calls m) = fst ` set (call_facts rs)" "fst ` set (results m) = fst ` set (result_facts rs)"
    using assms unfolding tracks_def by (metis list.set_map)+
  then show "map_of (calls m) i = None \<longleftrightarrow> i \<notin> fst ` set (call_facts rs)"
    "map_of (results m) i = None \<longleftrightarrow> i \<notin> fst ` set (result_facts rs)"
    by (simp_all add: map_of_none)
  show "map_of (call_runs m) i = Some rid \<longleftrightarrow> (i, rid) \<in> set (call_facts rs)"
    using assms by (simp add: tracks_def)
qed

lemma pair_step_tracks:
  assumes "tracks rs m"
  shows "is_ok (pair_step rec m) \<longleftrightarrow> pair_ok rs rec"
    and "pair_step rec m = Inr m' \<Longrightarrow> tracks (rs @ [rec]) m'"
proof -
  note mem = tracks_mem [OF assms]
  have runs: "call_runs m = call_facts rs" using assms by (simp add: tracks_def)
  have some: "map_of (call_runs m) i \<noteq> Some rid \<longleftrightarrow> (i, rid) \<notin> set (call_facts rs)" for i rid
    by (simp add: mem)
  have call: "(i, rid) \<in> set (call_facts rs) \<Longrightarrow> i \<in> fst ` set (call_facts rs)" for i rid
    by force
  show "is_ok (pair_step rec m) \<longleftrightarrow> pair_ok rs rec"
    unfolding pair_step_def pair_ok_def some
    by (cases "r_kind rec")
       (auto simp: mem runs list_ex_iff call split: option.split tpayload.split)
  show "tracks (rs @ [rec]) m'" if "pair_step rec m = Inr m'"
    using that assms mem unfolding pair_step_def
    by (cases "r_kind rec")
       (auto simp: tracks_def facts_single split: option.splits tpayload.splits if_splits)
qed

lemma toolPairs_snoc:
  "toolPairs (rs @ [rec]) = (case toolPairs rs of Inl e \<Rightarrow> Inl e | Inr m \<Rightarrow> pair_step rec m)"
  by (auto simp: toolPairs_def forM_append split: sum.splits)

lemma toolPairs_tracks: "toolPairs rs = Inr m \<Longrightarrow> tracks rs m"
proof (induction rs arbitrary: m rule: rev_induct)
  case Nil
  then show ?case by (auto simp: toolPairs_def no_pairs_def tracks_def)
next
  case (snoc rec rs)
  then show ?case by (auto simp: toolPairs_snoc pair_step_tracks(2) split: sum.splits)
qed

lemma toolPairs_snoc_ok: "is_ok (toolPairs (rs @ [rec])) \<longleftrightarrow> is_ok (toolPairs rs) \<and> pair_ok rs rec"
  using toolPairs_tracks pair_step_tracks(1)
  by (cases "toolPairs rs") (auto simp: toolPairs_snoc)

subsection \<open>A valid log, record by record\<close>

definition closed_log :: "trecord list \<Rightarrow> bool" where
  "closed_log rs \<longleftrightarrow> rs \<noteq> [] \<and> r_kind (last rs) = KindClosed"

lemma record_loop_state:
  "forM record_step rs (0, False) = Inr st \<Longrightarrow> st = (length rs, closed_log rs)"
proof (induction rs arbitrary: st rule: rev_induct)
  case (snoc r rs)
  then show ?case
    by (auto simp: forM_append record_step_def closed_log_def split: sum.splits if_splits prod.splits)
qed (simp add: closed_log_def)

abbreviation valid_log :: "trecord list \<Rightarrow> bool" where
  "valid_log rs \<equiv> ValidateRecords rs = Inr ()"

lemma valid_log_iff: "valid_log rs \<longleftrightarrow> is_ok (forM record_step rs (0, False)) \<and> is_ok (toolPairs rs)"
  by (auto simp: ValidateRecords_def split: sum.splits)

lemma valid_log_nil [simp]: "valid_log []"
  by (simp add: ValidateRecords_def toolPairs_def)

lemma record_loop_snoc:
  "is_ok (forM record_step (rs @ [r]) (0, False)) \<longleftrightarrow>
     is_ok (forM record_step rs (0, False)) \<and> \<not> closed_log rs \<and>
     r_seq r = of_nat (length rs + 1) \<and> Validate r = Inr ()"
proof (cases "forM record_step rs (0, False)")
  case (Inr st)
  with record_loop_state have st: "st = (length rs, closed_log rs)" by blast
  show ?thesis
    by (auto simp: forM_append Inr st record_step_def split: sum.splits)
qed (simp add: forM_append)

lemma valid_log_snoc:
  "valid_log (rs @ [r]) \<longleftrightarrow> valid_log rs \<and> \<not> closed_log rs \<and>
     r_seq r = of_nat (length rs + 1) \<and> Validate r = Inr () \<and> pair_ok rs r"
  unfolding valid_log_iff record_loop_snoc toolPairs_snoc_ok by blast

lemma valid_log_prefix: "valid_log (rs @ qs) \<Longrightarrow> valid_log rs"
  by (induction qs rule: rev_induct) (auto simp: valid_log_snoc simp flip: append_assoc)

lemma valid_log_pairs:
  assumes "valid_log rs"
  obtains m where "toolPairs rs = Inr m" "tracks rs m"
  using assms toolPairs_tracks by (auto simp: valid_log_iff)


subsection \<open>Open calls\<close>

definition open_facts :: "trecord list \<Rightarrow> (bytes \<times> bytes) list" where
  "open_facts rs = filter (\<lambda>f. fst f \<notin> fst ` set (result_facts rs)) (call_facts rs)"

lemma open_facts_empty: "open_facts rs = [] \<longleftrightarrow> fst ` set (call_facts rs) \<subseteq> fst ` set (result_facts rs)"
  by (simp add: open_facts_def filter_empty_conv image_subset_iff case_prod_beta)

lemma ValidateTranscript_iff:
  "ValidateTranscript rs = Inr () \<longleftrightarrow> valid_log rs \<and> open_facts rs = []"
proof (cases "valid_log rs")
  case True
  then obtain m where m: "toolPairs rs = Inr m" "tracks rs m" by (rule valid_log_pairs)
  have keys: "fst ` set (calls m) = fst ` set (call_facts rs)"
    using m(2) unfolding tracks_def by (metis list.set_map)
  have "list_ex (\<lambda>(i, _). map_of (results m) i = None) (calls m) \<longleftrightarrow>
      (\<exists>i \<in> fst ` set (calls m). i \<notin> fst ` set (result_facts rs))"
    unfolding bex_simps(7) by (simp add: list_ex_iff tracks_mem(2) [OF m(2)] case_prod_beta)
  then have "list_ex (\<lambda>(i, _). map_of (results m) i = None) (calls m) \<longleftrightarrow> open_facts rs \<noteq> []"
    unfolding keys open_facts_empty by blast
  with True m show ?thesis by (simp add: ValidateTranscript_def)
next
  case False
  then show ?thesis by (auto simp: ValidateTranscript_def split: sum.splits)
qed

lemma pair_ok_decodes:
  assumes "pair_ok pre rec"
  shows "r_kind rec = KindToolCall \<Longrightarrow> \<exists>i n a. DecodePayload rec = Some (ToolCallPayload i n a)"
    and "r_kind rec = KindToolResult \<Longrightarrow> \<exists>i oc c. DecodePayload rec = Some (ToolResultPayload i oc c)"
  using assms by (auto simp: pair_ok_def split: option.splits tpayload.splits)

lemma valid_log_decodes:
  assumes "valid_log rs" "rec \<in> set rs"
  shows "r_kind rec = KindToolCall \<Longrightarrow> \<exists>i n a. DecodePayload rec = Some (ToolCallPayload i n a)"
    and "r_kind rec = KindToolResult \<Longrightarrow> \<exists>i oc c. DecodePayload rec = Some (ToolResultPayload i oc c)"
proof -
  have "\<exists>pre. pair_ok pre rec"
    using assms by (induction rs rule: rev_induct) (auto simp: valid_log_snoc)
  then show "r_kind rec = KindToolCall \<Longrightarrow> \<exists>i n a. DecodePayload rec = Some (ToolCallPayload i n a)"
    "r_kind rec = KindToolResult \<Longrightarrow> \<exists>i oc c. DecodePayload rec = Some (ToolResultPayload i oc c)"
    using pair_ok_decodes by blast+
qed

fun call_id :: "tpayload \<Rightarrow> bytes" where
  "call_id (ToolCallPayload i _ _) = i"
| "call_id (ToolResultPayload i _ _) = i"
| "call_id _ = []"

definition open_payloads :: "pairs \<Rightarrow> trecord list \<Rightarrow> tpayload list" where
  "open_payloads m qs = concat (map (\<lambda>rec. case (r_kind rec, DecodePayload rec) of
     (KindToolCall, Some (ToolCallPayload i n a)) \<Rightarrow>
        if map_of (results m) i = None then [ToolCallPayload i n a] else [] | _ \<Rightarrow> []) qs)"

definition open_in :: "pairs \<Rightarrow> trecord list \<Rightarrow> (bytes \<times> bytes) list" where
  "open_in m qs = filter (\<lambda>f. map_of (results m) (fst f) = None) (call_facts qs)"

lemma open_in_Cons: "open_in m (q # qs) = open_in m [q] @ open_in m qs"
  and open_payloads_Cons: "open_payloads m (q # qs) = open_payloads m [q] @ open_payloads m qs"
  by (simp_all add: open_in_def open_payloads_def call_facts_def)

lemma open_nil [simp]: "open_in m [] = []" "open_payloads m [] = []"
  by (simp_all add: open_in_def open_payloads_def)

lemma open_other:
  assumes "r_kind q \<noteq> KindToolCall"
  shows "open_in m [q] = []" "open_payloads m [q] = []"
  using assms by (auto simp: open_in_def open_payloads_def facts_single split: record_kind.split)

lemma open_call:
  assumes "r_kind q = KindToolCall" "DecodePayload q = Some (ToolCallPayload i n a)"
  shows "open_in m [q] = (if map_of (results m) i = None then [(i, r_run q)] else [])"
    and "open_payloads m [q] = (if map_of (results m) i = None then [ToolCallPayload i n a] else [])"
  using assms by (auto simp: open_in_def open_payloads_def facts_single)

definition calls_decode :: "trecord list \<Rightarrow> bool" where
  "calls_decode qs \<longleftrightarrow> (\<forall>q \<in> set qs. r_kind q = KindToolCall \<longrightarrow>
     (\<exists>i n a. DecodePayload q = Some (ToolCallPayload i n a)))"

lemma collect_open_for_step:
  "r_kind q \<noteq> KindToolCall \<Longrightarrow> collect_open_for rid m q acc = Inr acc"
  "r_kind q = KindToolCall \<Longrightarrow> DecodePayload q = Some (ToolCallPayload i n a) \<Longrightarrow>
     collect_open_for rid m q acc =
       (if map_of (results m) i \<noteq> None then Inr acc
        else if r_run q \<noteq> rid then Inl ErrUnpairedToolCall
        else Inr (acc @ [ToolCallPayload i n a]))"
  by (simp_all add: collect_open_for_def)

lemma collect_open_for_run:
  "calls_decode qs \<Longrightarrow> forM (collect_open_for rid m) qs acc =
     (if \<forall>f \<in> set (open_in m qs). snd f = rid then Inr (acc @ open_payloads m qs)
      else Inl ErrUnpairedToolCall)"
proof (induction qs arbitrary: acc)
  case (Cons q qs)
  then have IH: "forM (collect_open_for rid m) qs acc =
     (if \<forall>f \<in> set (open_in m qs). snd f = rid then Inr (acc @ open_payloads m qs)
      else Inl ErrUnpairedToolCall)" for acc
    by (simp add: calls_decode_def)
  show ?case
  proof (cases "r_kind q = KindToolCall")
    case True
    with Cons.prems obtain i n a where d: "DecodePayload q = Some (ToolCallPayload i n a)"
      unfolding calls_decode_def by auto
    show ?thesis
      unfolding open_in_Cons [of m q qs] open_payloads_Cons [of m q qs]
      by (cases "map_of (results m) i") (simp_all add: IH collect_open_for_step True d open_call [OF True d])
  next
    case False
    then show ?thesis
      unfolding open_in_Cons [of m q qs] open_payloads_Cons [of m q qs]
      by (simp add: IH collect_open_for_step open_other [OF False] False)
  qed
qed simp

lemma open_payload_ids:
  "calls_decode qs \<Longrightarrow> map call_id (open_payloads m qs) = map fst (open_in m qs)"
proof (induction qs)
  case (Cons q qs)
  then have IH: "map call_id (open_payloads m qs) = map fst (open_in m qs)" by (simp add: calls_decode_def)
  show ?case
  proof (cases "r_kind q = KindToolCall")
    case True
    with Cons.prems obtain i n a where d: "DecodePayload q = Some (ToolCallPayload i n a)"
      unfolding calls_decode_def by auto
    show ?thesis
      unfolding open_in_Cons [of m q qs] open_payloads_Cons [of m q qs]
      by (simp add: IH open_call [OF True d])
  next
    case False
    show ?thesis
      unfolding open_in_Cons [of m q qs] open_payloads_Cons [of m q qs]
      by (simp add: IH open_other [OF False])
  qed
qed simp

lemma valid_log_calls_decode: "valid_log rs \<Longrightarrow> calls_decode rs"
  using valid_log_decodes(1) by (simp add: calls_decode_def)

text \<open>
  Exactly when recovery obtains its list of open calls, and that it is the open calls of
  the log in their order.
\<close>

lemma OpenToolCallsForRun_iff:
  assumes "valid_log rs"
  shows "is_ok (OpenToolCallsForRun rs rid) \<longleftrightarrow> rid \<noteq> [] \<and> (\<forall>f \<in> set (open_facts rs). snd f = rid)"
    and "OpenToolCallsForRun rs rid = Inr ps \<Longrightarrow> map (\<lambda>p. (call_id p, rid)) ps = open_facts rs"
proof -
  obtain m where m: "toolPairs rs = Inr m" "tracks rs m" using assms by (rule valid_log_pairs)
  have opens: "open_in m rs = open_facts rs"
    by (simp add: open_in_def open_facts_def tracks_mem [OF m(2)] case_prod_beta)
  note dec = valid_log_calls_decode [OF assms]
  have eq: "OpenToolCallsForRun rs rid = (if rid = [] then Inl ErrUnpairedToolCall else
     if \<forall>f \<in> set (open_facts rs). snd f = rid then Inr (open_payloads m rs) else Inl ErrUnpairedToolCall)"
    using assms m by (simp add: OpenToolCallsForRun_def collect_open_for_run [OF dec] opens)
  show "is_ok (OpenToolCallsForRun rs rid) \<longleftrightarrow> rid \<noteq> [] \<and> (\<forall>f \<in> set (open_facts rs). snd f = rid)"
    by (simp add: eq)
  show "map (\<lambda>p. (call_id p, rid)) ps = open_facts rs" if "OpenToolCallsForRun rs rid = Inr ps"
  proof -
    from that have all: "\<forall>f \<in> set (open_facts rs). snd f = rid" and ps: "ps = open_payloads m rs"
      by (auto simp: eq split: if_splits)
    have "map (\<lambda>p. (call_id p, rid)) ps = map (\<lambda>i. (i, rid)) (map call_id ps)" by simp
    also have "\<dots> = map (\<lambda>f. (fst f, rid)) (open_facts rs)"
      by (simp add: ps open_payload_ids [OF dec] opens)
    also have "\<dots> = open_facts rs" using all by (intro map_idI) auto
    finally show ?thesis .
  qed
qed

subsection \<open>Completing open calls\<close>

definition result_rec :: "trecord \<Rightarrow> bytes \<times> bytes \<Rightarrow> bool" where
  "result_rec r f \<longleftrightarrow> r_kind r = KindToolResult \<and> r_run r = snd f \<and> Validate r = Inr () \<and>
     (\<exists>oc c. DecodePayload r = Some (ToolResultPayload (fst f) oc c))"

definition numbered :: "nat \<Rightarrow> trecord list \<Rightarrow> bool" where
  "numbered n qs \<longleftrightarrow> (\<forall>k < length qs. r_seq (qs ! k) = of_nat (n + k + 1))"

lemma numbered_Cons [simp]: "numbered n (q # qs) \<longleftrightarrow> r_seq q = of_nat (n + 1) \<and> numbered (Suc n) qs"
  unfolding numbered_def by (auto simp: All_less_Suc2)

lemma numbered_Nil [simp]: "numbered n []"
  by (simp add: numbered_def)

lemma valid_log_distinct: "valid_log rs \<Longrightarrow> distinct (map fst (call_facts rs))"
  by (erule valid_log_pairs) (simp add: tracks_def)

lemma append_result:
  assumes "valid_log rs" "\<not> closed_log rs" "open_facts rs = f # fs" "result_rec r f"
    and "r_seq r = of_nat (length rs + 1)"
  shows "valid_log (rs @ [r])" "\<not> closed_log (rs @ [r])" "open_facts (rs @ [r]) = fs"
proof -
  from assms(4) obtain oc c where d: "r_kind r = KindToolResult" "r_run r = snd f" "Validate r = Inr ()"
    "DecodePayload r = Some (ToolResultPayload (fst f) oc c)" by (auto simp: result_rec_def)
  have f: "f \<in> set (call_facts rs)" "fst f \<notin> fst ` set (result_facts rs)"
  proof -
    have "f \<in> set (open_facts rs)" using assms(3) by simp
    then show "f \<in> set (call_facts rs)" "fst f \<notin> fst ` set (result_facts rs)"
      unfolding open_facts_def by simp_all
  qed
  then have "pair_ok rs r" using d by (simp add: pair_ok_def)
  with assms d show "valid_log (rs @ [r])" by (simp add: valid_log_snoc)
  show "\<not> closed_log (rs @ [r])" using d by (simp add: closed_log_def)
  have facts: "call_facts [r] = []" "result_facts [r] = [f]"
    using d by (simp_all add: facts_single)
  have "open_facts (rs @ [r]) = filter (\<lambda>g. fst g \<noteq> fst f) (open_facts rs)"
    by (auto simp: open_facts_def facts intro!: filter_cong)
  moreover have "distinct (map fst (open_facts rs))"
    using valid_log_distinct [OF assms(1)] unfolding open_facts_def by (rule distinct_map_filter)
  moreover have "filter (\<lambda>g. fst g \<noteq> fst f) fs = fs" if "fst f \<notin> fst ` set fs" for fs :: "(bytes \<times> bytes) list"
    using that by (auto simp: filter_id_conv image_iff)
  ultimately show "open_facts (rs @ [r]) = fs"
    using assms(3) by simp
qed

lemma append_results:
  assumes "valid_log rs" "\<not> closed_log rs" "list_all2 result_rec qs (open_facts rs)" "numbered (length rs) qs"
  shows "valid_log (rs @ qs)" "\<not> closed_log (rs @ qs)" "open_facts (rs @ qs) = []"
proof -
  have "valid_log (rs @ qs) \<and> \<not> closed_log (rs @ qs) \<and> open_facts (rs @ qs) = []"
    using assms
  proof (induction qs arbitrary: rs)
    case (Cons q qs)
    from Cons.prems(3) obtain f fs where f: "open_facts rs = f # fs" "result_rec q f" "list_all2 result_rec qs fs"
      by (auto simp: list_all2_Cons1)
    note step = append_result [OF Cons.prems(1,2) f(1,2)]
    from Cons.IH [of "rs @ [q]"] Cons.prems(4) step f(3) show ?case by simp
  qed auto
  then show "valid_log (rs @ qs)" "\<not> closed_log (rs @ qs)" "open_facts (rs @ qs) = []" by auto
qed


subsection \<open>Positions in a valid log\<close>

text \<open>The call or result a position of the log states: its identity and its run.\<close>

definition call_at :: "trecord list \<Rightarrow> nat \<Rightarrow> bytes \<times> bytes \<Rightarrow> bool" where
  "call_at rs k f \<longleftrightarrow> k < length rs \<and> call_facts [rs ! k] = [f]"

definition result_at :: "trecord list \<Rightarrow> nat \<Rightarrow> bytes \<times> bytes \<Rightarrow> bool" where
  "result_at rs k f \<longleftrightarrow> k < length rs \<and> result_facts [rs ! k] = [f]"

lemma facts_cases:
  "call_facts [r] = [] \<or> (\<exists>f. call_facts [r] = [f])"
  "result_facts [r] = [] \<or> (\<exists>f. result_facts [r] = [f])"
  by (auto simp: facts_single split: record_kind.split option.split tpayload.split)

lemma at_snoc:
  "call_at (rs @ [r]) k f \<longleftrightarrow> call_at rs k f \<or> k = length rs \<and> call_facts [r] = [f]"
  "result_at (rs @ [r]) k f \<longleftrightarrow> result_at rs k f \<or> k = length rs \<and> result_facts [r] = [f]"
  by (auto simp: call_at_def result_at_def nth_append less_Suc_eq)

lemma at_mem:
  "f \<in> set (call_facts rs) \<longleftrightarrow> (\<exists>k. call_at rs k f)"
  "f \<in> set (result_facts rs) \<longleftrightarrow> (\<exists>k. result_at rs k f)"
proof -
  show "f \<in> set (call_facts rs) \<longleftrightarrow> (\<exists>k. call_at rs k f)"
  proof (induction rs rule: rev_induct)
    case (snoc r rs)
    then show ?case using facts_cases(1) [of r] by (auto simp: at_snoc)
  qed (simp add: call_at_def)
  show "f \<in> set (result_facts rs) \<longleftrightarrow> (\<exists>k. result_at rs k f)"
  proof (induction rs rule: rev_induct)
    case (snoc r rs)
    then show ?case using facts_cases(2) [of r] by (auto simp: at_snoc)
  qed (simp add: result_at_def)
qed

lemma at_bound: "call_at rs k f \<Longrightarrow> k < length rs" "result_at rs k f \<Longrightarrow> k < length rs"
  by (simp_all add: call_at_def result_at_def)

lemma result_after_call:
  "valid_log rs \<Longrightarrow> result_at rs j f \<Longrightarrow> \<exists>k < j. call_at rs k f"
proof (induction rs rule: rev_induct)
  case (snoc r rs)
  show ?case
  proof (cases "result_at rs j f")
    case True
    with snoc show ?thesis by (auto simp: valid_log_snoc at_snoc)
  next
    case False
    with snoc.prems(2) have j: "j = length rs" "result_facts [r] = [f]" by (auto simp: at_snoc)
    from snoc.prems(1) j(2) have "f \<in> set (call_facts rs)"
      by (auto simp: valid_log_snoc pair_ok_def facts_single split: record_kind.splits option.splits tpayload.splits)
    then obtain k where "call_at rs k f" by (auto simp: at_mem)
    with j at_bound(1) [OF this] show ?thesis unfolding at_snoc by blast
  qed
qed (simp add: result_at_def)

lemma result_unique:
  "valid_log rs \<Longrightarrow> result_at rs j f \<Longrightarrow> result_at rs j' f' \<Longrightarrow> fst f = fst f' \<Longrightarrow> j = j'"
proof (induction rs rule: rev_induct)
  case (snoc r rs)
  have fresh: "g \<in> set (result_facts rs) \<Longrightarrow> result_facts [r] = [h] \<Longrightarrow> fst g \<noteq> fst h" for g h
    using snoc.prems(1)
    by (auto simp: valid_log_snoc pair_ok_def facts_single image_iff
        split: record_kind.splits option.splits tpayload.splits)
  from snoc show ?case
    by (auto simp: at_snoc valid_log_snoc dest: fresh [OF iffD2 [OF at_mem(2)], OF exI])
qed (simp add: result_at_def)

lemma call_unique:
  "valid_log rs \<Longrightarrow> call_at rs j f \<Longrightarrow> call_at rs j' f' \<Longrightarrow> fst f = fst f' \<Longrightarrow> j = j'"
proof (induction rs rule: rev_induct)
  case (snoc r rs)
  have fresh: "g \<in> set (call_facts rs) \<Longrightarrow> call_facts [r] = [h] \<Longrightarrow> fst g \<noteq> fst h" for g h
    using snoc.prems(1)
    by (auto simp: valid_log_snoc pair_ok_def facts_single image_iff
        split: record_kind.splits option.splits tpayload.splits)
  from snoc show ?case
    by (auto simp: at_snoc valid_log_snoc dest: fresh [OF iffD2 [OF at_mem(1)], OF exI])
qed (simp add: call_at_def)


subsection \<open>A small log\<close>

lemma facts_Cons2 [simp]:
  "call_facts (x # y # xs) = call_facts [x] @ call_facts (y # xs)"
  "result_facts (x # y # xs) = result_facts [x] @ result_facts (y # xs)"
  by (simp_all add: call_facts_def result_facts_def)

definition sample_call :: tpayload where "sample_call = ToolCallPayload ''c'' ''read'' ''{}''"
definition sample_result :: tpayload where "sample_result = ToolResultPayload ''c'' ''success'' ''ok''"

definition sample_log :: "trecord list" where
  "sample_log = [stored 1 ''r'' 1 (UserMessagePayload ''hi''), stored 2 ''r'' 1 sample_call,
     stored 3 ''r'' 1 sample_result]"

lemma sample_payloads [simp]:
  "storable_payload sample_call" "storable_payload sample_result" "storable_payload (UserMessagePayload ''hi'')"
  "norm_payload sample_call = sample_call" "norm_payload sample_result = sample_result"
  by (simp_all add: sample_call_def sample_result_def storable_payload_def validResultOutcome_def
      tool_outcome_defs marshal_payload_def norm_args_def)

lemma sample_decodes [simp]:
  "DecodePayload (stored n rid at sample_call) = Some sample_call"
  "DecodePayload (stored n rid at sample_result) = Some sample_result"
  "kind_of sample_call = KindToolCall" "kind_of sample_result = KindToolResult"
  by (simp_all add: stored_decodes) (simp_all add: sample_call_def sample_result_def)

lemma sample_facts [simp]:
  "call_facts [stored n rid at sample_call] = [(''c'', rid)]" "result_facts [stored n rid at sample_call] = []"
  "call_facts [stored n rid at sample_result] = []" "result_facts [stored n rid at sample_result] = [(''c'', rid)]"
  "call_facts [stored n rid at (UserMessagePayload t)] = []" "result_facts [stored n rid at (UserMessagePayload t)] = []"
  by (simp_all add: facts_single) (simp_all add: sample_call_def sample_result_def)

lemma sample_valid:
  "valid_log (take 2 sample_log)" "valid_log sample_log" "\<not> closed_log sample_log"
  "open_facts (take 2 sample_log) = [(''c'', ''r'')]" "open_facts sample_log = []"
proof -
  let ?u = "stored 1 ''r'' 1 (UserMessagePayload ''hi'')" and ?c = "stored 2 ''r'' 1 sample_call"
    and ?r = "stored 3 ''r'' 1 sample_result"
  have v: "Validate ?u = Inr ()" "Validate ?c = Inr ()" "Validate ?r = Inr ()"
    by (simp_all add: stored_valid run_id_ok_def)
  have "valid_log [?u]" using valid_log_snoc [of "[]" ?u] v by (simp add: pair_ok_def closed_log_def)
  then have 2: "valid_log [?u, ?c]" using valid_log_snoc [of "[?u]" ?c] v
    by (simp add: pair_ok_def closed_log_def) (simp add: sample_call_def)
  have "pair_ok [?u, ?c] ?r" by (simp add: pair_ok_def) (simp add: sample_result_def)
  with 2 have 3: "valid_log [?u, ?c, ?r]" using valid_log_snoc [of "[?u, ?c]" ?r] v
    by (simp add: closed_log_def)
  from 2 show "valid_log (take 2 sample_log)" by (simp add: sample_log_def)
  from 3 show "valid_log sample_log" by (simp add: sample_log_def)
  show "\<not> closed_log sample_log" by (simp add: sample_log_def closed_log_def)
  show "open_facts (take 2 sample_log) = [(''c'', ''r'')]"
    by (simp add: sample_log_def open_facts_def)
  show "open_facts sample_log = []" by (simp add: sample_log_def open_facts_def)
qed

subsection \<open>Properties\<close>

text \<open>
  C26: In a transcript that \<open>ValidateTranscript\<close> accepts, every tool call has exactly one tool
  result with its call ID; it is recorded after the call and by the same run.
\<close>

theorem transcript_pairing:
  assumes "ValidateTranscript rs = Inr ()" and "call_at rs k f"
  shows "\<exists>j > k. result_at rs j f \<and> (\<forall>j' f'. result_at rs j' f' \<and> fst f' = fst f \<longrightarrow> j' = j)"
proof -
  from assms(1) have v: "valid_log rs" and o: "open_facts rs = []" by (auto simp: ValidateTranscript_iff)
  from assms(2) have "f \<in> set (call_facts rs)" by (auto simp: at_mem)
  with o obtain g where g: "g \<in> set (result_facts rs)" "fst g = fst f" by (force simp: open_facts_empty)
  then obtain j where j: "result_at rs j g" by (auto simp: at_mem)
  with v obtain k' where k': "k' < j" "call_at rs k' g" using result_after_call by blast
  with v g assms(2) have "k' = k" using call_unique by blast
  with k' assms(2) have "g = f" by (simp add: call_at_def)
  with j k' \<open>k' = k\<close> show ?thesis using result_unique [OF v] by metis
qed

theorem transcript_pairing_witness:
  "\<exists>j > 1. result_at sample_log j (''c'', ''r'') \<and>
     (\<forall>j' f'. result_at sample_log j' f' \<and> fst f' = fst (''c'' :: bytes, ''r'' :: bytes) \<longrightarrow> j' = j)"
  by (rule transcript_pairing)
     (simp_all add: ValidateTranscript_iff sample_valid, simp add: sample_log_def call_at_def)

text \<open>
  C27: \<open>ValidateRecords\<close>, which runs an index loop and then a separate pass over three maps,
  accepts exactly the logs whose every record is numbered by its position, is valid on its
  own, follows no close fact, and keeps the pairing condition relative to the records
  before it.
\<close>

theorem ValidateRecords_equiv:
  "ValidateRecords rs = Inr () \<longleftrightarrow>
     (\<forall>k < length rs. r_seq (rs ! k) = of_nat (k + 1) \<and> Validate (rs ! k) = Inr () \<and>
        \<not> closed_log (take k rs) \<and> pair_ok (take k rs) (rs ! k))"
proof (induction rs rule: rev_induct)
  case (snoc r rs)
  have "(\<forall>k < length (rs @ [r]). r_seq ((rs @ [r]) ! k) = of_nat (k + 1) \<and> Validate ((rs @ [r]) ! k) = Inr () \<and>
        \<not> closed_log (take k (rs @ [r])) \<and> pair_ok (take k (rs @ [r])) ((rs @ [r]) ! k)) \<longleftrightarrow>
      (\<forall>k < length rs. r_seq (rs ! k) = of_nat (k + 1) \<and> Validate (rs ! k) = Inr () \<and>
        \<not> closed_log (take k rs) \<and> pair_ok (take k rs) (rs ! k)) \<and>
      r_seq r = of_nat (length rs + 1) \<and> Validate r = Inr () \<and> \<not> closed_log rs \<and> pair_ok rs r"
    by (simp add: All_less_Suc nth_append conj_commute cong: conj_cong)
  with snoc show ?case by (auto simp: valid_log_snoc)
qed simp

theorem ValidateRecords_equiv_witness:
  "r_seq (sample_log ! 1) = of_nat (1 + 1) \<and> Validate (sample_log ! 1) = Inr () \<and>
     \<not> closed_log (take 1 sample_log) \<and> pair_ok (take 1 sample_log) (sample_log ! 1)"
proof -
  have "1 < length sample_log" by (simp add: sample_log_def)
  with ValidateRecords_equiv [of sample_log] sample_valid(2) show ?thesis by blast
qed

end
