(* ===== verification/Gopath.thy ===== *)
theory Gopath
  imports Json
begin

text \<open>
  The functions of Go's \<open>path\<close> and (on Unix, where they agree) \<open>path/filepath\<close> packages and of
  \<open>strings\<close> that name handling uses. \<open>Clean\<close> is written over the components of the path.
  \<open>lower_name\<close> is \<open>strings.ToLower\<close> as far as comparison with an ASCII name can see: apart
  from the ASCII letters only the Kelvin sign and the dotted capital I have an ASCII lower
  case; \<open>fold_name\<close> plays the same part for \<open>strings.EqualFold\<close>.
\<close>

fun lower_name :: "bytes \<Rightarrow> bytes" where
  "lower_name [] = []"
| "lower_name (c # s) =
     (if take 3 (c # s) = [char_of (226::nat), char_of (132::nat), char_of (170::nat)]
        then CHR ''k'' # lower_name (drop 2 s)
      else if take 2 (c # s) = [char_of (196::nat), char_of (176::nat)]
        then CHR ''i'' # lower_name (drop 1 s)
      else lower_char c # lower_name s)"

definition equal_fold :: "bytes \<Rightarrow> bytes \<Rightarrow> bool" where
  "equal_fold a b = (fold_name a = fold_name b)"

abbreviation slash :: char where "slash \<equiv> CHR ''/''"

definition is_abs :: "bytes \<Rightarrow> bool" where
  "is_abs p = has_prefix ''/'' p"

definition push_comp :: "bool \<Rightarrow> bytes list \<Rightarrow> bytes \<Rightarrow> bytes list" where
  "push_comp rooted acc c =
     (if c = [] \<or> c = ''.'' then acc
      else if c = ''..'' then
        (case acc of [] \<Rightarrow> (if rooted then [] else [c])
         | a # as \<Rightarrow> if a = ''..'' then c # acc else as)
      else c # acc)"

definition clean_comps :: "bool \<Rightarrow> bytes list \<Rightarrow> bytes list" where
  "clean_comps rooted cs = rev (foldl (push_comp rooted) [] cs)"

definition Clean :: "bytes \<Rightarrow> bytes" where
  "Clean p = (let rooted = is_abs p; cs = clean_comps rooted (split_byte slash p) in
     if rooted then slash # join_byte slash cs
     else if cs = [] then ''.'' else join_byte slash cs)"

text \<open>\<open>path.Base\<close>, \<open>path.Ext\<close>, \<open>path.Dir\<close> and \<open>path.Join\<close>.\<close>

definition Base :: "bytes \<Rightarrow> bytes" where
  "Base p = (if p = [] then ''.'' else
     (let q = rev (dropWhile (\<lambda>c. c = slash) (rev p)) in
      if q = [] then ''/'' else last (split_byte slash q)))"

definition Ext :: "bytes \<Rightarrow> bytes" where
  "Ext p = (let b = last (split_byte slash p); e = takeWhile (\<lambda>c. c \<noteq> CHR ''.'') (rev b) in
     if length e = length b then [] else CHR ''.'' # rev e)"

definition Dir :: "bytes \<Rightarrow> bytes" where
  "Dir p = Clean (rev (dropWhile (\<lambda>c. c \<noteq> slash) (rev p)))"

definition Join :: "bytes list \<Rightarrow> bytes" where
  "Join es = (case filter (\<lambda>e. e \<noteq> []) es of [] \<Rightarrow> [] | fs \<Rightarrow> Clean (join_byte slash fs))"

subsection \<open>Clean paths\<close>

definition plain_comp :: "bytes \<Rightarrow> bool" where
  "plain_comp c \<longleftrightarrow> c \<noteq> [] \<and> c \<noteq> ''.'' \<and> c \<noteq> ''..'' \<and> slash \<notin> set c"

definition clean_list :: "bool \<Rightarrow> bytes list \<Rightarrow> bool" where
  "clean_list rooted cs \<longleftrightarrow>
     (\<exists>n qs. cs = replicate n ''..'' @ qs \<and> list_all plain_comp qs \<and> (rooted \<longrightarrow> n = 0))"

lemma push_clean:
  assumes "clean_list rooted (rev acc)" "slash \<notin> set c"
  shows "clean_list rooted (rev (push_comp rooted acc c))"
proof -
  from assms(1) obtain n qs where f: "rev acc = replicate n ''..'' @ qs" "list_all plain_comp qs" "rooted \<longrightarrow> n = 0"
    by (auto simp: clean_list_def)
  have acc: "acc = rev qs @ replicate n ''..''" using f(1) by (metis rev_append rev_replicate rev_rev_ident)
  consider "c = [] \<or> c = ''.''" | "c = ''..''" | "plain_comp c" using assms(2) by (auto simp: plain_comp_def)
  then show ?thesis
  proof cases
    case 1
    with assms show ?thesis by (auto simp: push_comp_def)
  next
    case 2
    show ?thesis
    proof (cases qs rule: rev_cases)
      case Nil
      show ?thesis
      proof (cases n)
        case 0
        have "push_comp rooted acc c = (if rooted then [] else [c])" using 2 Nil 0 acc by (simp add: push_comp_def)
        moreover have "clean_list rooted (rev (if rooted then [] else [''..'']))"
          unfolding clean_list_def by (intro exI [of _ "if rooted then 0 else 1"] exI [of _ "[]"]) auto
        ultimately show ?thesis using 2 by (simp split: if_splits)
      next
        case (Suc m)
        with 2 Nil acc have "push_comp rooted acc c = replicate (Suc n) ''..''" by (simp add: push_comp_def)
        then have "rev (push_comp rooted acc c) = replicate (Suc n) ''..'' @ []" by (metis rev_replicate append_Nil2)
        moreover have "\<not> rooted" using Suc f(3) by simp
        ultimately show ?thesis unfolding clean_list_def by (intro exI [of _ "Suc n"] exI [of _ "[]"]) simp
      qed
    next
      case (snoc ps q)
      with f(2) 2 acc have "push_comp rooted acc c = rev ps @ replicate n ''..''"
        by (auto simp: push_comp_def plain_comp_def)
      with f snoc show ?thesis unfolding clean_list_def by (intro exI [of _ n] exI [of _ ps]) auto
    qed
  next
    case 3
    then have "push_comp rooted acc c = c # acc" by (auto simp: push_comp_def plain_comp_def)
    with 3 f show ?thesis unfolding clean_list_def by (intro exI [of _ n] exI [of _ "qs @ [c]"]) auto
  qed
qed

lemma foldl_push_clean:
  "clean_list rooted (rev acc) \<Longrightarrow> (\<And>c. c \<in> set cs \<Longrightarrow> slash \<notin> set c) \<Longrightarrow>
   clean_list rooted (rev (foldl (push_comp rooted) acc cs))"
  by (induction cs arbitrary: acc) (auto simp: push_clean)

lemma clean_comps_clean: "clean_list rooted (clean_comps rooted (split_byte slash p))"
  unfolding clean_comps_def
  by (rule foldl_push_clean) (auto simp: clean_list_def dest: split_byte_no_sep)

lemma clean_comps_id:
  assumes "clean_list rooted cs"
  shows "clean_comps rooted cs = cs"
proof -
  from assms obtain n qs where f: "cs = replicate n ''..'' @ qs" "list_all plain_comp qs" "rooted \<longrightarrow> n = 0"
    by (auto simp: clean_list_def)
  have dots: "foldl (push_comp rooted) (replicate m ''..'') (replicate n ''..'') = replicate (m + n) ''..''"
    if "\<not> rooted" for m
    using that
  proof (induction n arbitrary: m)
    case (Suc n)
    have "push_comp rooted (replicate m ''..'') ''..'' = replicate (Suc m) ''..''"
      using Suc.prems by (cases m) (simp_all add: push_comp_def)
    with Suc.IH [of "Suc m"] Suc.prems show ?case by simp
  qed simp
  have plain: "foldl (push_comp rooted) acc qs = rev qs @ acc" for acc
    using f(2) by (induction qs arbitrary: acc) (auto simp: push_comp_def plain_comp_def)
  show ?thesis
  proof (cases rooted)
    case True
    with f have "cs = qs" by simp
    then show ?thesis using plain [of "[]"] by (simp add: clean_comps_def)
  next
    case False
    then show ?thesis using dots [of 0] plain [of "replicate n ''..''"] by (simp add: f(1) clean_comps_def)
  qed
qed

lemma split_join_byte:
  "cs \<noteq> [] \<Longrightarrow> (\<And>c. c \<in> set cs \<Longrightarrow> sep \<notin> set c) \<Longrightarrow> split_byte sep (join_byte sep cs) = cs"
proof (induction sep cs rule: join_byte.induct)
  have app: "sep \<notin> set w \<Longrightarrow> split_byte sep (w @ sep # r) = w # split_byte sep r" for sep w and r :: "'a list"
    by (induction w) auto
  have one: "sep \<notin> set w \<Longrightarrow> split_byte sep w = [w]" for sep and w :: "'a list"
    by (induction w) auto
  {
    case (2 sep w)
    then show ?case by (simp add: one)
  next
    case (3 sep w v va)
    then show ?case by (simp add: app)
  }
qed simp

lemma clean_list_comps:
  assumes "clean_list rooted cs" "c \<in> set cs"
  shows "c \<noteq> []" "slash \<notin> set c" "c \<noteq> ''.''"
proof -
  have "c = ''..'' \<or> plain_comp c" using assms by (auto simp: clean_list_def list_all_iff)
  then show "c \<noteq> []" "slash \<notin> set c" "c \<noteq> ''.''" by (auto simp: plain_comp_def)
qed

lemma join_clean_not_abs:
  assumes "clean_list False cs"
  shows "\<not> is_abs (join_byte slash cs)"
proof (cases cs)
  case (Cons c ds)
  with clean_list_comps [OF assms, of c] obtain x xs where "c = x # xs" "x \<noteq> slash" by (cases c) auto
  with Cons show ?thesis by (cases ds) (simp_all add: is_abs_def)
qed (simp add: is_abs_def)

lemma Clean_rel:
  assumes "\<not> is_abs p"
  obtains cs where "clean_list False cs" "cs = clean_comps False (split_byte slash p)"
    "Clean p = (if cs = [] then ''.'' else join_byte slash cs)"
  using assms clean_comps_clean [of False p] by (simp add: Clean_def Let_def)

lemma Clean_abs_iff [simp]: "is_abs (Clean p) \<longleftrightarrow> is_abs p"
proof (cases "is_abs p")
  case True
  then show ?thesis by (simp add: Clean_def is_abs_def)
next
  case False
  then obtain cs where "clean_list False cs" "Clean p = (if cs = [] then ''.'' else join_byte slash cs)"
    by (rule Clean_rel)
  with False join_clean_not_abs show ?thesis by (auto simp: is_abs_def)
qed

lemma Clean_idem: "Clean (Clean p) = Clean p"
proof (cases "is_abs p")
  case True
  define cs where "cs = clean_comps True (split_byte slash p)"
  have cl: "clean_list True cs" unfolding cs_def by (rule clean_comps_clean)
  have p: "Clean p = slash # join_byte slash cs" using True by (simp add: Clean_def cs_def)
  have "clean_comps True (split_byte slash (slash # join_byte slash cs)) = cs"
  proof (cases "cs = []")
    case True
    then show ?thesis by (simp add: clean_comps_def push_comp_def)
  next
    case False
    then have "split_byte slash (slash # join_byte slash cs) = [] # cs"
      using split_join_byte [OF False] clean_list_comps(2) [OF cl] by simp
    moreover have "clean_comps True ([] # cs) = clean_comps True cs"
      by (simp add: clean_comps_def push_comp_def)
    ultimately show ?thesis using clean_comps_id [OF cl] by simp
  qed
  with p show ?thesis by (simp add: Clean_def is_abs_def)
next
  case False
  then obtain cs where cl: "clean_list False cs"
    and p: "Clean p = (if cs = [] then ''.'' else join_byte slash cs)" by (rule Clean_rel)
  show ?thesis
  proof (cases "cs = []")
    case True
    with p show ?thesis by (simp add: Clean_def is_abs_def clean_comps_def push_comp_def)
  next
    case ne: False
    with split_join_byte [OF ne] clean_list_comps(2) [OF cl] clean_comps_id [OF cl] False p
    show ?thesis using join_clean_not_abs [OF cl] by (simp add: Clean_def)
  qed
qed

end
