(* ===== verification/Regexp.thy ===== *)
theory Regexp
  imports Prelude
begin

text \<open>
  The part of Go's \<open>regexp\<close> the program uses: classes, concatenation, alternation, bounded
  and unbounded repetition of a class (greedy or lazy), ASCII word boundaries and end of
  text, with leftmost-first semantics. \<open>ends r s i\<close> lists the ends of the matches of \<open>r\<close>
  that start at \<open>i\<close> in the order a backtracking matcher would try them; the match is the
  first of them. The program's patterns are ASCII, so matching bytes and matching runes
  agree: a byte of a multi-byte rune is neither a word character nor in any class but the
  one that matches everything.
\<close>

datatype re =
    Eps
  | Cls "char \<Rightarrow> bool"
  | WordB
  | EndText
  | Cat re re
  | Alt re re
  | Rep "char \<Rightarrow> bool" nat "nat option" bool

definition word_char :: "char \<Rightarrow> bool" where
  "word_char c \<longleftrightarrow> is_digit c \<or> is_upper c \<or> is_lower c \<or> c = CHR ''_''"

definition word_before :: "bytes \<Rightarrow> nat \<Rightarrow> bool" where
  "word_before s i \<longleftrightarrow> 0 < i \<and> i \<le> length s \<and> word_char (s ! (i - 1))"

definition word_after :: "bytes \<Rightarrow> nat \<Rightarrow> bool" where
  "word_after s i \<longleftrightarrow> i < length s \<and> word_char (s ! i)"

definition word_boundary :: "bytes \<Rightarrow> nat \<Rightarrow> bool" where
  "word_boundary s i \<longleftrightarrow> word_before s i \<noteq> word_after s i"

definition run_length :: "(char \<Rightarrow> bool) \<Rightarrow> bytes \<Rightarrow> nat \<Rightarrow> nat" where
  "run_length p s i = length (takeWhile p (drop i s))"

definition rep_counts :: "nat \<Rightarrow> nat option \<Rightarrow> bool \<Rightarrow> nat \<Rightarrow> nat list" where
  "rep_counts lo hi greedy m =
     (let ks = [lo..<Suc (case hi of None \<Rightarrow> m | Some h \<Rightarrow> min h m)] in if greedy then rev ks else ks)"

fun ends :: "re \<Rightarrow> bytes \<Rightarrow> nat \<Rightarrow> nat list" where
  "ends Eps s i = [i]"
| "ends (Cls p) s i = (if i < length s \<and> p (s ! i) then [Suc i] else [])"
| "ends WordB s i = (if word_boundary s i then [i] else [])"
| "ends EndText s i = (if i = length s then [i] else [])"
| "ends (Cat a b) s i = concat (map (ends b s) (ends a s i))"
| "ends (Alt a b) s i = ends a s i @ ends b s i"
| "ends (Rep p lo hi greedy) s i = map ((+) i) (rep_counts lo hi greedy (run_length p s i))"

primrec lit :: "bytes \<Rightarrow> re" where
  "lit [] = Eps"
| "lit (c # s) = Cat (Cls (\<lambda>d. d = c)) (lit s)"

definition opt :: "re \<Rightarrow> re" where
  "opt r = Alt r Eps"

fun alts :: "re list \<Rightarrow> re" where
  "alts [] = Cls (\<lambda>_. False)"
| "alts [r] = r"
| "alts (r # rs) = Alt r (alts rs)"

text \<open>\<open>FindStringIndex\<close>, from a position of the text.\<close>

function find_from :: "re \<Rightarrow> bytes \<Rightarrow> nat \<Rightarrow> (nat \<times> nat) option" where
  "find_from r s i =
     (if length s < i then None
      else (case ends r s i of j # _ \<Rightarrow> Some (i, j) | [] \<Rightarrow> find_from r s (Suc i)))"
  by pat_completeness auto
termination by (relation "measure (\<lambda>(r, s, i). Suc (length s) - i)") auto

declare find_from.simps [simp del]

text \<open>
  \<open>FindAllStringIndex(text, -1)\<close>: the search goes on at the end of the last match; after an
  empty match, one position further.
\<close>

function find_all :: "re \<Rightarrow> bytes \<Rightarrow> nat \<Rightarrow> (nat \<times> nat) list" where
  "find_all r s pos =
     (if length s < pos then []
      else (case find_from r s pos of
        None \<Rightarrow> []
      | Some (a, b) \<Rightarrow> (a, b) # find_all r s (if b > pos then b else Suc pos)))"
  by pat_completeness auto
termination by (relation "measure (\<lambda>(r, s, pos). Suc (length s) - pos)") auto

declare find_all.simps [simp del]

subsection \<open>What a match consumes\<close>

lemma run_length_le: "run_length p s i \<le> length s - i"
  unfolding run_length_def by (metis length_drop length_takeWhile_le)

lemma run_length_chars:
  assumes "k < run_length p s i"
  shows "i + k < length s" "p (s ! (i + k))"
proof -
  show "i + k < length s" using assms run_length_le [of p s i] by simp
  have k: "k < length (takeWhile p (drop i s))" using assms by (simp add: run_length_def)
  have "p (takeWhile p (drop i s) ! k)" using set_takeWhileD [OF nth_mem [OF k]] by blast
  moreover have "takeWhile p (drop i s) ! k = drop i s ! k" by (rule takeWhile_nth [OF k])
  ultimately have "p (drop i s ! k)" by simp
  with \<open>i + k < length s\<close> show "p (s ! (i + k))" by simp
qed

lemma run_length_ge:
  assumes "\<And>k. k < n \<Longrightarrow> i + k < length s \<and> p (s ! (i + k))"
  shows "n \<le> run_length p s i"
proof -
  have "takeWhile p (take n (drop i s) @ drop n (drop i s)) = take n (drop i s) @ takeWhile p (drop n (drop i s))"
    using assms by (intro takeWhile_append2) (auto simp: in_set_conv_nth)
  then have "run_length p s i = length (take n (drop i s)) + length (takeWhile p (drop n (drop i s)))"
    unfolding run_length_def by (metis append_take_drop_id length_append)
  moreover have "n = 0 \<or> i + (n - 1) < length s" using assms [of "n - 1"] by (cases n) auto
  then have "length (take n (drop i s)) = n" by auto
  ultimately show ?thesis by simp
qed

lemma rep_counts_mem:
  "k \<in> set (rep_counts lo hi g m) \<longleftrightarrow> lo \<le> k \<and> k \<le> m \<and> (case hi of None \<Rightarrow> True | Some h \<Rightarrow> k \<le> h)"
  by (auto simp: rep_counts_def Let_def split: option.split)

lemma ends_Rep:
  "j \<in> set (ends (Rep p lo hi g) s i) \<longleftrightarrow>
     (\<exists>k. j = i + k \<and> lo \<le> k \<and> k \<le> run_length p s i \<and> (case hi of None \<Rightarrow> True | Some h \<Rightarrow> k \<le> h))"
  by (auto simp: rep_counts_mem)

declare ends.simps(7) [simp del]

fun min_len :: "re \<Rightarrow> nat" where
  "min_len Eps = 0"
| "min_len (Cls p) = 1"
| "min_len WordB = 0"
| "min_len EndText = 0"
| "min_len (Cat a b) = min_len a + min_len b"
| "min_len (Alt a b) = min (min_len a) (min_len b)"
| "min_len (Rep p lo hi g) = lo"

lemma ends_min_len: "j \<in> set (ends r s i) \<Longrightarrow> i + min_len r \<le> j"
proof (induction r arbitrary: i j)
  case (Cat a b)
  then obtain k where "k \<in> set (ends a s i)" "j \<in> set (ends b s k)" by auto
  with Cat.IH show ?case by fastforce
next
  case (Alt a b)
  then show ?case by fastforce
qed (auto simp: ends_Rep split: if_splits)

lemma ends_ge: "j \<in> set (ends r s i) \<Longrightarrow> i \<le> j"
  using ends_min_len by fastforce

lemma ends_le: "j \<in> set (ends r s i) \<Longrightarrow> i \<le> length s \<Longrightarrow> j \<le> length s"
proof (induction r arbitrary: i j)
  case (Rep p lo hi g)
  then obtain k where "j = i + k" "k \<le> run_length p s i" by (auto simp: ends_Rep)
  with run_length_le [of p s i] Rep.prems(2) show ?case by simp
qed (auto split: if_splits)

text \<open>The characters a pattern can consume.\<close>

fun chars_in :: "(char \<Rightarrow> bool) \<Rightarrow> re \<Rightarrow> bool" where
  "chars_in C (Cls p) = (\<forall>c. p c \<longrightarrow> C c)"
| "chars_in C (Cat a b) = (chars_in C a \<and> chars_in C b)"
| "chars_in C (Alt a b) = (chars_in C a \<and> chars_in C b)"
| "chars_in C (Rep p lo hi g) = (\<forall>c. p c \<longrightarrow> C c)"
| "chars_in C _ = True"

lemma ends_chars:
  "j \<in> set (ends r s i) \<Longrightarrow> chars_in C r \<Longrightarrow> i \<le> k \<Longrightarrow> k < j \<Longrightarrow> C (s ! k)"
proof (induction r arbitrary: i j)
  case (Cat a b)
  then obtain m where m: "m \<in> set (ends a s i)" "j \<in> set (ends b s m)" by auto
  with Cat show ?case by (cases "k < m") auto
next
  case (Rep p lo hi g)
  then obtain n where "j = i + n" "n \<le> run_length p s i" by (auto simp: ends_Rep)
  with Rep.prems run_length_chars(2) [of "k - i" p s i] show ?case by auto
next
  case (Cls p)
  then have "k = i" by (auto split: if_splits)
  with Cls show ?case by (auto split: if_splits)
qed (auto split: if_splits)

subsection \<open>A match seen in two texts\<close>

text \<open>
  \<open>s\<close> and \<open>s'\<close> share a window of \<open>n\<close> characters, at \<open>a\<close> and at \<open>a'\<close>, and a word boundary of \<open>s'\<close> at
  an edge of the window is one of \<open>s\<close>. Then a match of \<open>s'\<close> inside the window is a match of \<open>s\<close>.
\<close>

definition window :: "bytes \<Rightarrow> nat \<Rightarrow> bytes \<Rightarrow> nat \<Rightarrow> nat \<Rightarrow> bool" where
  "window s a s' a' n \<longleftrightarrow> a + n \<le> length s \<and> a' + n \<le> length s' \<and>
     (\<forall>k < n. s ! (a + k) = s' ! (a' + k)) \<and>
     (word_boundary s' a' \<longrightarrow> word_boundary s a) \<and>
     (word_boundary s' (a' + n) \<longrightarrow> word_boundary s (a + n))"

fun no_end :: "re \<Rightarrow> bool" where
  "no_end EndText = False"
| "no_end (Cat a b) = (no_end a \<and> no_end b)"
| "no_end (Alt a b) = (no_end a \<and> no_end b)"
| "no_end _ = True"

lemma window_boundary:
  assumes "window s a s' a' n" "k \<le> n" "word_boundary s' (a' + k)"
  shows "word_boundary s (a + k)"
proof (cases "k = 0 \<or> k = n")
  case False
  with assms(2) obtain m where k: "k = Suc m" "m < n" "Suc m < n" by (cases k) auto
  from assms(1) k have "s ! (a + Suc m) = s' ! (a' + Suc m)" "s ! (a + m) = s' ! (a' + m)"
    "a + n \<le> length s" "a' + n \<le> length s'"
    by (auto simp: window_def simp del: add_Suc_right)
  with assms(3) k show ?thesis
    by (auto simp: word_boundary_def word_before_def word_after_def)
qed (use assms in \<open>auto simp: window_def\<close>)

lemma ends_window:
  assumes "window s a s' a' n"
  shows "no_end r \<Longrightarrow> a' + j \<in> set (ends r s' (a' + i)) \<Longrightarrow> j \<le> n \<Longrightarrow> a + j \<in> set (ends r s (a + i))"
proof (induction r arbitrary: i j)
  case (Cls p)
  then have "j = Suc i" "p (s' ! (a' + i))" by (auto split: if_splits)
  with Cls.prems(3) assms show ?case by (auto simp: window_def)
next
  case WordB
  then show ?case using window_boundary [OF assms, of j] by (auto split: if_splits)
next
  case (Cat x y)
  then obtain m where m: "m \<in> set (ends x s' (a' + i))" "a' + j \<in> set (ends y s' m)" by auto
  then have "a' + i \<le> m" "m \<le> a' + j" using ends_ge by blast+
  then obtain k where k: "m = a' + k" "k \<le> j" by (metis add_le_cancel_left le_add_diff_inverse le_trans le_add1)
  with m Cat have "a + k \<in> set (ends x s (a + i))" "a + j \<in> set (ends y s (a + k))" by auto
  then show ?case by auto
next
  case (Rep p lo hi g)
  then obtain k where k: "j = i + k" "lo \<le> k" "k \<le> run_length p s' (a' + i)"
    "case hi of None \<Rightarrow> True | Some h \<Rightarrow> k \<le> h" by (auto simp: ends_Rep)
  have "k \<le> run_length p s (a + i)"
  proof (rule run_length_ge)
    fix q assume q: "q < k"
    then have "p (s' ! (a' + i + q))" using run_length_chars(2) [of q p s' "a' + i"] k(3) by simp
    moreover have "i + q < n" using q k(1) Rep.prems(3) by simp
    ultimately show "a + i + q < length s \<and> p (s ! (a + i + q))"
      using assms by (auto simp: window_def add.assoc)
  qed
  with k show ?case by (auto simp: ends_Rep)
qed auto

subsection \<open>The matches of a text\<close>

lemma find_from_some:
  "find_from r s i = Some (a, b) \<Longrightarrow>
     i \<le> a \<and> a \<le> length s \<and> b \<in> set (ends r s a) \<and> (\<forall>k. i \<le> k \<and> k < a \<longrightarrow> ends r s k = [])"
proof (induction r s i rule: find_from.induct)
  case (1 r s i)
  show ?case
  proof (cases "ends r s i")
    case Nil
    with 1(2) have le: "\<not> length s < i" and rec: "find_from r s (Suc i) = Some (a, b)"
      by (auto simp: find_from.simps [of r s i] split: if_splits)
    from 1(1) [OF le Nil rec] Nil show ?thesis by (metis Suc_leD le_antisym not_less_eq_eq)
  next
    case (Cons j js)
    with 1(2) show ?thesis by (auto simp: find_from.simps [of r s i] split: if_splits)
  qed
qed

lemma find_from_none: "find_from r s i = None \<Longrightarrow> i \<le> k \<Longrightarrow> k \<le> length s \<Longrightarrow> ends r s k = []"
proof (induction r s i rule: find_from.induct)
  case (1 r s i)
  from 1(3,4) have le: "\<not> length s < i" by simp
  show ?case
  proof (cases "ends r s i")
    case Nil
    with 1(2) le have "find_from r s (Suc i) = None" by (simp add: find_from.simps [of r s i])
    with 1(1) [OF le Nil] 1(3,4) Nil show ?thesis by (cases "k = i") auto
  next
    case (Cons j js)
    with 1(2) le show ?thesis by (simp add: find_from.simps [of r s i])
  qed
qed

lemma find_from_finds:
  assumes "ends r s k \<noteq> []" "i \<le> k" "k \<le> length s"
  obtains a b where "find_from r s i = Some (a, b)" "a \<le> k"
proof -
  from assms find_from_none obtain a b where f: "find_from r s i = Some (a, b)" by (cases "find_from r s i") force+
  moreover have "a \<le> k" using find_from_some [OF f] assms by (meson linorder_not_le)
  ultimately show ?thesis by (rule that)
qed

lemma find_all_sound:
  "(a, b) \<in> set (find_all r s pos) \<Longrightarrow> pos \<le> a \<and> a \<le> length s \<and> b \<in> set (ends r s a)"
proof (induction r s pos rule: find_all.induct)
  case (1 r s pos)
  from 1(2) have le: "\<not> length s < pos" by (auto simp: find_all.simps [of r s pos])
  have "find_all r s pos = []" if "find_from r s pos = None"
    using that by (simp add: find_all.simps [of r s pos])
  with 1(2) have "find_from r s pos \<noteq> None" by (metis empty_iff list.set(1))
  then obtain x y where f: "find_from r s pos = Some (x, y)" by (cases "find_from r s pos") auto
  with 1(2) le consider "(a, b) = (x, y)" | "(a, b) \<in> set (find_all r s (if y > pos then y else Suc pos))"
    by (auto simp: find_all.simps [of r s pos])
  then show ?case
  proof cases
    case 1
    with find_from_some [OF f] show ?thesis by auto
  next
    case 2
    from "1.IH" [OF le f refl 2] show ?thesis by (auto split: if_splits)
  qed
qed

text \<open>No position at which the pattern matches is left uncovered.\<close>

lemma find_all_covers:
  "0 < min_len r \<Longrightarrow> ends r s k \<noteq> [] \<Longrightarrow> pos \<le> k \<Longrightarrow> k \<le> length s \<Longrightarrow> \<exists>(a, b) \<in> set (find_all r s pos). a \<le> k \<and> k < b"
proof (induction r s pos rule: find_all.induct)
  case (1 r s pos)
  from find_from_finds [OF 1(3,4,5)] obtain a b where f: "find_from r s pos = Some (a, b)" "a \<le> k" .
  note found = find_from_some [OF f(1)]
  then have "a + min_len r \<le> b" by (intro ends_min_len) auto
  with found 1(2) have ab: "pos \<le> a" "a < b" by linarith+
  have nlt: "\<not> length s < pos" using 1(4,5) by simp
  have eq: "find_all r s pos = (a, b) # find_all r s b"
    using f ab nlt by (subst find_all.simps) simp
  show ?case
  proof (cases "k < b")
    case True
    with f eq show ?thesis by auto
  next
    case False
    with 1(1) [OF nlt f(1) refl] 1(2,3,5) ab show ?thesis by (auto simp: eq)
  qed
qed

end
