(* ===== verification/Provider.thy ===== *)
theory Provider
  imports Json
begin

text \<open>
  \<open>internal/provider\<close>: the internal request and response values and the scripted offline
  provider. A float (\<open>Temperature\<close>) is kept as its decimal text. A provider call reports
  text through a callback; the callback is a function on the caller's state that may fail.
\<close>

datatype role = RoleUser | RoleAssistant | RoleTool

record tool_call =
  tc_id :: bytes
  tc_name :: bytes
  tc_args :: bytes

record message =
  msg_role :: role
  msg_content :: bytes
  msg_call_id :: bytes
  msg_calls :: "tool_call list"

record tool_definition =
  td_name :: bytes
  td_description :: bytes
  td_schema :: bytes

record request =
  req_prompt :: bytes
  req_stable :: bytes
  req_dynamic :: bytes
  req_messages :: "message list"
  req_tools :: "tool_definition list"
  req_max_output :: int

datatype reason = ReasonNone | ReasonStop | ReasonToolCalls | ReasonLength | ReasonOther

record usage =
  input_tokens :: u64
  output_tokens :: u64

record response =
  resp_text :: bytes
  resp_calls :: "tool_call list"
  resp_usage :: usage
  resp_reason :: reason

datatype failure_class =
    ClassPermanent | ClassProtocol | ClassRateLimit | ClassTransient | ClassOverloaded
  | ClassContextOverflow | ClassOutputLimit | ClassCancelled

record failure =
  f_class :: failure_class
  f_message :: bytes
  f_retry_after :: int

record identity =
  id_adapter :: bytes
  id_wire :: bytes
  id_endpoint_sha :: bytes
  id_credential_sha :: bytes
  id_model :: bytes
  id_context_window :: int
  id_max_output :: int
  id_temperature :: "bytes option"
  id_seed :: "int option"
  id_tool_choice :: bytes

text \<open>
  What a provider call can return instead of a response: a classified failure, the context's
  error, or the error of the text callback.
\<close>

datatype 'e call_error = Failed failure | CtxDone | Callback 'e

definition no_usage :: usage where
  "no_usage = \<lparr>input_tokens = 0, output_tokens = 0\<rparr>"

definition empty_response :: response where
  "empty_response = \<lparr>resp_text = [], resp_calls = [], resp_usage = no_usage, resp_reason = ReasonNone\<rparr>"

subsection \<open>The scripted provider\<close>

record turn =
  t_text :: bytes
  t_deltas :: "bytes list"
  t_calls :: "tool_call list"
  t_fail :: "failure option"
  t_fail_after :: "failure option"
  t_block :: bool
  t_usage :: usage
  t_reason :: reason

record scripted =
  sc_turns :: "turn list"
  sc_requests :: "request list"
  sc_cancel_seen :: int

definition NewScripted :: "turn list \<Rightarrow> scripted" where
  "NewScripted turns = \<lparr>sc_turns = turns, sc_requests = [], sc_cancel_seen = 0\<rparr>"

definition Scripted_Identity :: "(bytes \<Rightarrow> bytes) \<Rightarrow> identity" where
  "Scripted_Identity sha256_hex =
     \<lparr>id_adapter = ''scripted-offline'', id_wire = ''scripted-v1'',
      id_endpoint_sha = sha256_hex ''scripted-offline-provider'',
      id_credential_sha = sha256_hex ''scripted-offline-credential'',
      id_model = ''scripted-offline'', id_context_window = 0, id_max_output = 0,
      id_temperature = None, id_seed = None, id_tool_choice = ''auto''\<rparr>"

text \<open>
  The deltas of a turn: \<open>ctx n\<close> is whether the context is done when the \<open>n\<close>-th delta is about
  to be reported. Without a callback (\<open>Complete\<close>) only the text is put together.
\<close>

fun play_deltas :: "(nat \<Rightarrow> bool) \<Rightarrow> nat \<Rightarrow> (bytes \<Rightarrow> 's \<Rightarrow> ('e option \<times> 's)) option \<Rightarrow> bytes list \<Rightarrow> bytes \<Rightarrow> 's
    \<Rightarrow> ('e call_error, bytes) result \<times> 's" where
  "play_deltas ctx n onText [] text s = (Inr text, s)"
| "play_deltas ctx n onText (d # ds) text s =
     (if ctx n then (Inl CtxDone, s)
      else (case onText of
         None \<Rightarrow> play_deltas ctx (Suc n) onText ds (text @ d) s
       | Some f \<Rightarrow> (case f d s of
           (Some e, s') \<Rightarrow> (Inl (Callback e), s')
         | (None, s') \<Rightarrow> play_deltas ctx (Suc n) onText ds (text @ d) s')))"

definition play :: "(nat \<Rightarrow> bool) \<Rightarrow> (bytes \<Rightarrow> 's \<Rightarrow> ('e option \<times> 's)) option \<Rightarrow> request \<Rightarrow> scripted \<Rightarrow> 's
    \<Rightarrow> ('e call_error, response) result \<times> scripted \<times> 's" where
  "play ctx onText req sc s =
    (let sc1 = sc\<lparr>sc_requests := sc_requests sc @ [req]\<rparr> in
     case sc_turns sc of
       [] \<Rightarrow> (Inl (Failed \<lparr>f_class = ClassProtocol, f_message = ''scripted provider: no turn scripted'',
               f_retry_after = 0\<rparr>), sc1, s)
     | turn # rest \<Rightarrow>
        (let sc2 = sc1\<lparr>sc_turns := rest\<rparr>;
             sc3 = (if t_block turn then sc2\<lparr>sc_cancel_seen := sc_cancel_seen sc2 + 1\<rparr> else sc2)
         in if t_block turn \<and> t_fail turn = None \<and> t_text turn = [] then (Inl CtxDone, sc3, s)
            else (case t_fail turn of
              Some f \<Rightarrow> (Inl (Failed f), sc3, s)
            | None \<Rightarrow>
               (let finish = (\<lambda>text s. (Inr \<lparr>resp_text = text, resp_calls = t_calls turn,
                                 resp_usage = t_usage turn, resp_reason = t_reason turn\<rparr>, sc3, s))
                in if t_deltas turn \<noteq> [] then
                     (case play_deltas ctx 0 onText (t_deltas turn) [] s of
                        (Inl e, s') \<Rightarrow> (Inl e, sc3, s')
                      | (Inr text, s') \<Rightarrow> (case t_fail_after turn of
                            Some f \<Rightarrow> (Inl (Failed f), sc3, s')
                          | None \<Rightarrow> finish text s'))
                   else (case onText of
                      Some f \<Rightarrow>
                        (if t_text turn \<noteq> [] then
                           (case f (t_text turn) s of
                              (Some e, s') \<Rightarrow> (Inl (Callback e), sc3, s')
                            | (None, s') \<Rightarrow> finish (t_text turn) s')
                         else finish (t_text turn) s)
                    | None \<Rightarrow> finish (t_text turn) s)))))"

text \<open>
  What the engine relies on: on success, the text of the response is the concatenation of
  what the callback was given. The callback here collects its arguments.
\<close>

definition collect :: "bytes \<Rightarrow> bytes list \<Rightarrow> 'e option \<times> bytes list" where
  "collect d ds = (None, ds @ [d])"

lemma play_deltas_collect:
  "play_deltas ctx n (Some collect) ds text s = (r, s') \<Longrightarrow> r = Inr t \<Longrightarrow>
     t = text @ concat ds \<and> s' = s @ ds"
  by (induction ds arbitrary: n "text" s) (fastforce simp: collect_def split: if_splits)+

lemma play_reports:
  fixes r :: "('e call_error, response) result"
  assumes "play ctx (Some collect) req sc [] = (r, sc', ds)" "r = Inr resp"
  shows "resp_text resp = concat ds"
proof (cases "sc_turns sc")
  case Nil
  with assms show ?thesis by (simp add: play_def Let_def)
next
  case (Cons turn rest)
  show ?thesis
  proof (cases "t_deltas turn = []")
    case True
    with assms Cons show ?thesis
      by (auto simp: play_def Let_def collect_def split: if_splits option.splits)
  next
    case False
    obtain q s' where q: "play_deltas ctx 0 (Some collect) (t_deltas turn) [] [] = (q :: ('e call_error, bytes) result, s')"
      by fastforce
    from assms Cons False q obtain t where "q = Inr t" "resp_text resp = t" "ds = s'"
      by (auto simp: play_def Let_def split: if_splits option.splits sum.splits)
    with play_deltas_collect [OF q] show ?thesis by auto
  qed
qed

end
