(* ===== verification/Action.thy ===== *)
theory Action
  imports Dataproj Provider Transcript "HOL-Library.List_Lexorder" "HOL-Library.Char_ord"
begin

text \<open>
  \<open>internal/action/broker.go\<close>: the one route every tool call takes. The tools map is an
  association list with unique names; a tool is its definition and two functions, each also
  told whether the run's context is already done. \<open>stdlib\<close> holds the two functions of Go's
  standard library whose values the program only stores: SHA-256 (as hexadecimal text) and
  \<open>strconv.Quote\<close>.
\<close>

record stdlib =
  sha256_hex :: "bytes \<Rightarrow> bytes"
  go_quote :: "bytes \<Rightarrow> bytes"

datatype effect = EffectRead | EffectOther bytes

record prepared =
  p_tool :: bytes
  p_args :: bytes
  p_effects :: "effect list"
  p_paths :: "bytes list"

record execution =
  x_outcome :: bytes
  x_content :: bytes

record tool =
  tl_definition :: tool_definition
  tl_prepare :: "bool \<Rightarrow> bytes \<Rightarrow> bytes + prepared"
  tl_execute :: "bool \<Rightarrow> prepared \<Rightarrow> execution"

type_synonym broker = "(bytes \<times> tool) list"

datatype broker_error = InvalidDefinition | DuplicateTool

definition add_tool :: "tool \<Rightarrow> broker \<Rightarrow> (broker_error, broker) result" where
  "add_tool tool b = (let d = tl_definition tool in
     if td_name d = [] \<or> \<not> json_valid (td_schema d) then Inl InvalidDefinition
     else if map_of b (td_name d) \<noteq> None then Inl DuplicateTool
     else Inr (b @ [(td_name d, tool)]))"

definition NewBroker :: "tool list \<Rightarrow> (broker_error, broker) result" where
  "NewBroker tools = forM add_tool tools []"

definition Catalog :: "broker \<Rightarrow> tool_definition list" where
  "Catalog b = map (\<lambda>n. tl_definition (the (map_of b n))) (sort (map fst b))"

text \<open>One call of \<open>ProjectCalls\<close>: its safe form, and whether policy must block it.\<close>

definition project_call :: "stdlib \<Rightarrow> tool_call \<Rightarrow> tool_call \<times> bool" where
  "project_call lib c =
    (let i = ProjectText (tc_id c); n = ProjectText (tc_name c); a = ProjectText (tc_args c);
         c1 = (if pt_redacted i > 0
               then c\<lparr>tc_id := ''redacted-call-'' @ take 16 (sha256_hex lib (tc_id c))\<rparr> else c);
         c2 = (if pt_redacted n > 0 then c1\<lparr>tc_name := pt_content n\<rparr> else c1);
         c3 = (if pt_redacted a > 0 then c2\<lparr>tc_args := pt_content a\<rparr> else c2)
     in (c3, pt_redacted i > 0 \<or> pt_redacted n > 0 \<or> pt_redacted a > 0))"

definition ProjectCalls :: "stdlib \<Rightarrow> tool_call list \<Rightarrow> tool_call list \<times> bool list" where
  "ProjectCalls lib calls = (map (fst \<circ> project_call lib) calls, map (snd \<circ> project_call lib) calls)"

record tool_result =
  tr_call :: bytes
  tr_outcome :: bytes
  tr_content :: bytes

definition result_payload :: "tool_result \<Rightarrow> tpayload" where
  "result_payload r = ToolResultPayload (tr_call r) (tr_outcome r) (tr_content r)"

text \<open>\<open>utf8.RuneStart\<close>, and the loop that moves the cut back to the start of a rune.\<close>

definition rune_start :: "char \<Rightarrow> bool" where
  "rune_start c \<longleftrightarrow> \<not> byte_in c 128 191"

fun cut_back :: "bytes \<Rightarrow> nat \<Rightarrow> nat" where
  "cut_back s 0 = 0"
| "cut_back s (Suc n) = (if rune_start (s ! Suc n) then Suc n else cut_back s n)"

definition truncation_marker :: bytes where
  "truncation_marker = newline @ ''[truncated=true; narrow or continue the read-only request]''"

definition max_result_bytes :: nat where "max_result_bytes = 64 * 1024"

definition br_project :: "tool_result \<Rightarrow> tool_result" where
  "br_project r = (let content = pt_content (ProjectText (tr_content r)) in
     if length content > max_result_bytes
     then r\<lparr>tr_content := take (cut_back content (max_result_bytes - length truncation_marker)) content
              @ truncation_marker\<rparr>
     else r\<lparr>tr_content := content\<rparr>)"

definition BlockedResult :: "bytes \<Rightarrow> tool_result" where
  "BlockedResult i = br_project \<lparr>tr_call = i, tr_outcome = ToolResultBlocked,
     tr_content = ''tool call blocked because detected credential material appeared in its identity or arguments''\<rparr>"

definition SkippedResult :: "bytes \<Rightarrow> tool_result" where
  "SkippedResult i = br_project \<lparr>tr_call = i, tr_outcome = ToolResultSkipped,
     tr_content = ''skipped because an earlier tool call did not succeed''\<rparr>"

text \<open>
  \<open>Execute\<close>: \<open>ctx n\<close> is whether the context is done at the broker's own check (0), in
  \<open>Prepare\<close> (1) and in the tool's \<open>Execute\<close> (2).
\<close>

definition Execute :: "stdlib \<Rightarrow> broker \<Rightarrow> (nat \<Rightarrow> bool) \<Rightarrow> tool_call \<Rightarrow> tool_result" where
  "Execute lib b ctx call0 =
    (let (call, blocked) = project_call lib call0 in
     if blocked then BlockedResult (tc_id call)
     else (let result = (\<lambda>oc content. br_project \<lparr>tr_call = tc_id call, tr_outcome = oc, tr_content = content\<rparr>) in
      case map_of b (tc_name call) of
        None \<Rightarrow> result ToolResultError
                  (''unknown tool '' @ go_quote lib (tc_name call) @ ''; available tools are read-only'')
      | Some tool \<Rightarrow>
         if ctx 0 then result ToolResultCancelled ''tool call cancelled before preparation''
         else (case tl_prepare tool (ctx 1) (tc_args call) of
            Inl msg \<Rightarrow> result ToolResultError (''invalid tool arguments: '' @ msg)
          | Inr p \<Rightarrow>
             if p_tool p \<noteq> tc_name call \<or> length (p_effects p) \<noteq> 1 \<or> p_effects p ! 0 \<noteq> EffectRead
             then result ToolResultError ''tool blocked by immutable M1 read-only authority''
             else (let x = tl_execute tool (ctx 2) p in
               if x_outcome x = [] then result ToolResultError ''tool returned an invalid empty outcome''
               else result (x_outcome x) (x_content x)))))"

text \<open>\<open>ExecuteBatch\<close>; \<open>ctx k\<close> is the context as the \<open>k\<close>-th call sees it.\<close>

fun execute_batch :: "stdlib \<Rightarrow> broker \<Rightarrow> (nat \<Rightarrow> nat \<Rightarrow> bool) \<Rightarrow> nat \<Rightarrow> bool \<Rightarrow> tool_call list \<Rightarrow> tool_result list" where
  "execute_batch lib b ctx k stopped [] = []"
| "execute_batch lib b ctx k stopped (c # cs) =
     (if stopped then SkippedResult (tc_id c) # execute_batch lib b ctx (Suc k) stopped cs
      else (let r = Execute lib b (ctx k) c
            in r # execute_batch lib b ctx (Suc k) (tr_outcome r \<noteq> ToolResultSuccess) cs))"

definition ExecuteBatch :: "stdlib \<Rightarrow> broker \<Rightarrow> (nat \<Rightarrow> nat \<Rightarrow> bool) \<Rightarrow> tool_call list \<Rightarrow> tool_result list" where
  "ExecuteBatch lib b ctx calls = execute_batch lib b ctx 0 False calls"

subsection \<open>What a result carries\<close>

lemma cut_back_le: "cut_back s n \<le> n"
  by (induction n) auto

lemma length_truncation_marker: "length truncation_marker = 59"
  by (simp add: truncation_marker_def newline_def)

lemma br_project_length: "length (tr_content (br_project r)) \<le> max_result_bytes"
proof (cases "length (pt_content (ProjectText (tr_content r))) > max_result_bytes")
  case True
  let ?c = "pt_content (ProjectText (tr_content r))" and ?n = "max_result_bytes - length truncation_marker"
  have "length (take (cut_back ?c ?n) ?c) \<le> ?n" using cut_back_le [of ?c ?n] by simp
  moreover have "length truncation_marker \<le> max_result_bytes"
    by (simp add: length_truncation_marker max_result_bytes_def)
  ultimately show ?thesis using True by (simp add: br_project_def Let_def)
qed (simp add: br_project_def Let_def)

lemma br_project_fields [simp]:
  "tr_call (br_project r) = tr_call r" "tr_outcome (br_project r) = tr_outcome r"
  by (simp_all add: br_project_def Let_def)

lemma ProjectText_core_free: "core_free (pt_content (ProjectText s))"
  using Redact_core_free [of s] by (simp add: ProjectText_def case_prod_beta)

lemma ProjectText_id: "pt_redacted (ProjectText s) = 0 \<longleftrightarrow> core_free s"
proof
  assume "pt_redacted (ProjectText s) = 0"
  then show "core_free s"
    using Contains_iff [of s] by (auto simp: ProjectText_def Redact_def Let_def Contains_def split: if_splits)
qed (simp add: ProjectText_def Redact_core_free_id)

lemma ProjectText_content_id: "core_free s \<Longrightarrow> pt_content (ProjectText s) = s"
  by (simp add: ProjectText_def Redact_core_free_id)

text \<open>Content that was not cut carries no credential; cut content is a prefix of such content.\<close>

lemma br_project_content:
  "\<exists>clean. core_free clean \<and>
     (tr_content (br_project r) = clean \<or>
      (\<exists>n. tr_content (br_project r) = take n clean @ truncation_marker))"
  using ProjectText_core_free [of "tr_content r"] by (auto simp: br_project_def Let_def)

lemma project_call_safe:
  assumes "project_call lib c = (c', blocked)"
  shows "\<not> blocked \<Longrightarrow> c' = c \<and> core_free (tc_id c) \<and> core_free (tc_name c) \<and> core_free (tc_args c)"
    and "core_free (tc_name c')" "core_free (tc_args c')"
proof -
  have pos: "0 < pt_redacted (ProjectText s) \<longleftrightarrow> \<not> core_free s" for s
    using ProjectText_id [of s] by auto
  show "\<not> blocked \<Longrightarrow> c' = c \<and> core_free (tc_id c) \<and> core_free (tc_name c) \<and> core_free (tc_args c)"
    "core_free (tc_name c')" "core_free (tc_args c')"
    using assms ProjectText_core_free unfolding project_call_def Let_def pos by (auto split: if_splits)
qed

lemma project_call_id:
  assumes "project_call lib c = (c', blocked)"
  shows "tc_id c' = tc_id c \<or> tc_id c' = ''redacted-call-'' @ take 16 (sha256_hex lib (tc_id c))"
  using assms by (auto simp: project_call_def Let_def split: if_splits)

lemma Execute_call: "tr_call (Execute lib b ctx c) = tc_id (fst (project_call lib c))"
  by (auto simp: Execute_def BlockedResult_def Let_def split: prod.splits option.splits sum.splits)

lemma Execute_bounded: "length (tr_content (Execute lib b ctx c)) \<le> max_result_bytes"
  using br_project_length
  by (auto simp: Execute_def BlockedResult_def Let_def split: prod.splits option.splits sum.splits)

text \<open>The tools keep to the outcome set of the transcript.\<close>

definition tools_ok :: "broker \<Rightarrow> bool" where
  "tools_ok b \<longleftrightarrow> (\<forall>(n, t) \<in> set b. \<forall>c p. x_outcome (tl_execute t c p) = [] \<or>
     validResultOutcome (x_outcome (tl_execute t c p)))"

lemma outcomes_valid [simp]:
  "validResultOutcome ToolResultSuccess" "validResultOutcome ToolResultError"
  "validResultOutcome ToolResultCancelled" "validResultOutcome ToolResultSkipped"
  "validResultOutcome ToolResultInterrupted" "validResultOutcome ToolResultBlocked"
  by (simp_all add: validResultOutcome_def)

lemma tools_okD:
  "tools_ok b \<Longrightarrow> map_of b n = Some t \<Longrightarrow> x_outcome (tl_execute t c p) \<noteq> [] \<Longrightarrow>
     validResultOutcome (x_outcome (tl_execute t c p))"
  unfolding tools_ok_def by (fastforce dest: map_of_SomeD)

lemma Execute_outcome: "tools_ok b \<Longrightarrow> validResultOutcome (tr_outcome (Execute lib b ctx c))"
  by (auto simp: Execute_def BlockedResult_def Let_def split: prod.splits option.splits sum.splits)
     (use tools_okD in blast)

text \<open>One result per call in order; after the first that is not a success, all are skipped.\<close>

lemma execute_batch_nth:
  "length (execute_batch lib b ctx k stopped cs) = length cs \<and>
   (\<forall>j < length cs. execute_batch lib b ctx k stopped cs ! j =
     (if stopped \<or> (\<exists>i < j. tr_outcome (execute_batch lib b ctx k stopped cs ! i) \<noteq> ToolResultSuccess)
      then SkippedResult (tc_id (cs ! j)) else Execute lib b (ctx (k + j)) (cs ! j)))"
proof (induction cs arbitrary: k stopped)
  case (Cons c cs)
  let ?r = "Execute lib b (ctx k) c"
  define st where "st \<longleftrightarrow> stopped \<or> tr_outcome ?r \<noteq> ToolResultSuccess"
  define h where "h = (if stopped then SkippedResult (tc_id c) else ?r)"
  let ?rest = "execute_batch lib b ctx (Suc k) st cs"
  have eq: "execute_batch lib b ctx k stopped (c # cs) = h # ?rest"
    by (auto simp: Let_def st_def h_def)
  have h: "tr_outcome h \<noteq> ToolResultSuccess \<longleftrightarrow> st"
    by (auto simp: st_def h_def SkippedResult_def tool_outcome_defs)
  have ex: "(\<exists>i < Suc m. tr_outcome ((h # ?rest) ! i) \<noteq> ToolResultSuccess) \<longleftrightarrow>
      st \<or> (\<exists>i < m. tr_outcome (?rest ! i) \<noteq> ToolResultSuccess)" for m
    unfolding Ex_less_Suc2 using h by simp
  note IH = Cons.IH [of "Suc k" st]
  have "(h # ?rest) ! j =
     (if stopped \<or> (\<exists>i < j. tr_outcome ((h # ?rest) ! i) \<noteq> ToolResultSuccess)
      then SkippedResult (tc_id ((c # cs) ! j)) else Execute lib b (ctx (k + j)) ((c # cs) ! j))"
    if "j < length (c # cs)" for j
  proof (cases j)
    case 0
    then show ?thesis by (simp add: h_def)
  next
    case (Suc m)
    then have m: "m < length cs" using that by simp
    have absorb: "stopped \<or> st \<or> E \<longleftrightarrow> st \<or> E" for E by (auto simp: st_def)
    have IHm: "?rest ! m = (if st \<or> (\<exists>i < m. tr_outcome (?rest ! i) \<noteq> ToolResultSuccess)
        then SkippedResult (tc_id (cs ! m)) else Execute lib b (ctx (Suc k + m)) (cs ! m))"
      using IH m by blast
    show ?thesis unfolding Suc ex nth_Cons_Suc absorb IHm by (cases st) auto
  qed
  with IH show ?case unfolding eq by simp
qed simp

lemma Catalog_sorted: "sorted (map fst b) \<Longrightarrow> distinct (map fst b) \<Longrightarrow> Catalog b = map (\<lambda>(n, t). tl_definition t) b"
  by (auto simp: Catalog_def sort_key_id_if_sorted intro!: map_cong)

subsection \<open>Properties\<close>

text \<open>
  C32: \<open>ExecuteBatch\<close> returns exactly one result per call, in the order of the calls: the
  calls up to and including the first non-success are executed, every later one is skipped.
\<close>

theorem batch_results:
  "length (ExecuteBatch lib b ctx cs) = length cs \<and>
   (\<forall>j < length cs. ExecuteBatch lib b ctx cs ! j =
     (if \<exists>i < j. tr_outcome (ExecuteBatch lib b ctx cs ! i) \<noteq> ToolResultSuccess
      then SkippedResult (tc_id (cs ! j)) else Execute lib b (ctx j) (cs ! j)))"
  using execute_batch_nth [of lib b ctx 0 False cs] unfolding ExecuteBatch_def by auto

definition sample_lib :: stdlib where
  "sample_lib = \<lparr>sha256_hex = (\<lambda>s. replicate 64 (CHR ''a'')), go_quote = (\<lambda>s. s)\<rparr>"

definition sample_tool_call :: tool_call where
  "sample_tool_call = \<lparr>tc_id = ''c'', tc_name = ''read'', tc_args = ''{}''\<rparr>"

theorem batch_results_witness:
  "ExecuteBatch sample_lib [] (\<lambda>_ _. False) [sample_tool_call] ! 0 =
     Execute sample_lib [] (\<lambda>_. False) sample_tool_call"
  using batch_results [of sample_lib "[]" "\<lambda>_ _. False" "[sample_tool_call]"] by simp

text \<open>
  C33: Whatever a tool returns, the one result of a call carries the call's safe identity, at
  most 64 KiB of content, and content that is free of credentials unless it was cut, in which
  case it is a prefix of such content followed by the truncation notice. (The cut comes after the
  projection, so the detector may match such a prefix: \<open>AKIA\<close> and 17 capital letters are no key,
  the first 16 of them followed by the newline of the notice are.)
\<close>

theorem Execute_result_safe:
  "tr_call (Execute lib b ctx c) = tc_id (fst (project_call lib c)) \<and>
   length (tr_content (Execute lib b ctx c)) \<le> 65536 \<and>
   (\<exists>clean. \<not> Contains NewDetector clean \<and>
      (tr_content (Execute lib b ctx c) = clean \<or>
       (\<exists>n. tr_content (Execute lib b ctx c) = take n clean @ truncation_marker)))"
proof -
  have "\<exists>r. Execute lib b ctx c = br_project r"
    by (auto simp: Execute_def BlockedResult_def Let_def split: prod.splits option.splits sum.splits)
  then obtain r where "Execute lib b ctx c = br_project r" by blast
  then have "\<exists>clean. core_free clean \<and> (tr_content (Execute lib b ctx c) = clean \<or>
      (\<exists>n. tr_content (Execute lib b ctx c) = take n clean @ truncation_marker))"
    using br_project_content [of r] by simp
  then show ?thesis
    using Execute_call Execute_bounded [of lib b ctx c] by (auto simp: Contains_iff max_result_bytes_def)
qed

text \<open>
  C34: A call any part of which contains a credential is never prepared or executed: it is
  answered with the blocked result, and the name and arguments that are recorded for it are
  free of credentials.
\<close>

theorem sensitive_call_blocked:
  assumes "Contains NewDetector (tc_id c) \<or> Contains NewDetector (tc_name c) \<or> Contains NewDetector (tc_args c)"
  shows "Execute lib b ctx c = BlockedResult (tc_id (fst (project_call lib c))) \<and>
    \<not> Contains NewDetector (tc_name (fst (project_call lib c))) \<and>
    \<not> Contains NewDetector (tc_args (fst (project_call lib c)))"
proof -
  obtain c' blocked where p: "project_call lib c = (c', blocked)" by fastforce
  have blocked using assms project_call_safe(1) [OF p] by (auto simp: Contains_iff)
  with p project_call_safe(2,3) [OF p] show ?thesis by (simp add: Execute_def Contains_iff)
qed

theorem sensitive_call_blocked_witness:
  "Execute sample_lib [] (\<lambda>_. False) (sample_tool_call\<lparr>tc_name := pem_open\<rparr>) =
     BlockedResult (tc_id (fst (project_call sample_lib (sample_tool_call\<lparr>tc_name := pem_open\<rparr>)))) \<and>
    \<not> Contains NewDetector (tc_name (fst (project_call sample_lib (sample_tool_call\<lparr>tc_name := pem_open\<rparr>)))) \<and>
    \<not> Contains NewDetector (tc_args (fst (project_call sample_lib (sample_tool_call\<lparr>tc_name := pem_open\<rparr>))))"
  by (rule sensitive_call_blocked) (simp add: pem_contains)

end
