(* ===== verification/Store.thy ===== *)
theory Store
  imports Logs Pairing Gopath Action
begin

text \<open>
  \<open>internal/store/store.go\<close>: one durable session. The two logs are byte files; the manifest,
  which is replaced atomically, is kept as the value it decodes to (its text: \<open>Manifesttext\<close>). Every operation is told
  what the file system does (\<open>io\<close>), so that failed, torn and unsynced writes are branches of
  it. A float of the binding is its decimal text; \<open>int\<close> and \<open>time.Duration\<close> are integers.
\<close>

definition FormatVersion :: int where "FormatVersion = 2"

datatype store_error =
    ErrExists | ErrNotFound | ErrUnsupportedFormat | ErrCorrupt | ErrDuplicateCommand | ErrClosed
  | ErrBudgetExhausted | StoreInvalid | ActiveRunExists | UnknownCounter
  | StoreRecord transcript_error | StoreIo

record run_budget =
  logical_calls :: u64
  attempts :: u64
  retry_delay :: int

definition MaxLogicalModelCalls :: u64 where "MaxLogicalModelCalls = 64"
definition MaxTransportAttempts :: u64 where "MaxTransportAttempts = 96"

definition second :: int where "second = 1000000000"
definition minute :: int where "minute = 60 * second"

definition MaxRetryDelay :: int where "MaxRetryDelay = 10 * minute"

definition zero_budget :: run_budget where
  "zero_budget = \<lparr>logical_calls = 0, attempts = 0, retry_delay = 0\<rparr>"

record provider_binding =
  pb_digest :: bytes
  pb_adapter :: bytes
  pb_wire :: bytes
  pb_endpoint_sha :: bytes
  pb_credential_sha :: bytes
  pb_model :: bytes
  pb_window :: int
  pb_max_output :: int
  pb_temperature :: "bytes option"
  pb_seed :: "int option"
  pb_tool_choice :: bytes
  pb_preferences_sha :: bytes
  pb_prompt_version :: bytes

record manifest =
  m_format :: int
  m_session :: bytes
  m_workspace :: bytes
  m_ws_identity :: bytes
  m_created :: gotime
  m_updated :: gotime
  m_closed :: bool
  m_projection :: bytes
  m_binding :: provider_binding
  m_workspace_read :: bool
  m_transcript_seq :: u64
  m_event_cursor :: u64
  m_next_run :: u64
  m_seen :: "bytes \<Rightarrow> bool option"
  m_budgets :: "bytes \<Rightarrow> run_budget option"
  m_active :: "(bytes \<times> gotime) option"

definition validSHA256 :: "bytes \<Rightarrow> bool" where
  "validSHA256 v \<longleftrightarrow> length v = 64 \<and> list_all (\<lambda>c. is_digit c \<or> byte_in c 97 102) v"

definition binding_json :: "provider_binding \<Rightarrow> json" where
  "binding_json b = JObj (
     [(''digest'', jstring (pb_digest b)), (''adapter'', jstring (pb_adapter b)),
      (''wire_protocol'', jstring (pb_wire b)), (''endpoint_sha256'', jstring (pb_endpoint_sha b)),
      (''credential_source_sha256'', jstring (pb_credential_sha b)), (''model'', jstring (pb_model b)),
      (''context_window'', jint (pb_window b)), (''max_output_tokens'', jint (pb_max_output b))] @
     (case pb_temperature b of None \<Rightarrow> [] | Some t \<Rightarrow> [(''temperature'', JNum t)]) @
     (case pb_seed b of None \<Rightarrow> [] | Some n \<Rightarrow> [(''seed'', jint n)]) @
     [(''tool_choice'', jstring (pb_tool_choice b)),
      (''user_preferences_sha256'', jstring (pb_preferences_sha b)),
      (''prompt_version'', jstring (pb_prompt_version b))])"

definition ComputeDigest :: "stdlib \<Rightarrow> provider_binding \<Rightarrow> bytes" where
  "ComputeDigest lib b = sha256_hex lib (wr (binding_json (b\<lparr>pb_digest := []\<rparr>)))"

definition binding_valid :: "stdlib \<Rightarrow> provider_binding \<Rightarrow> bool" where
  "binding_valid lib b \<longleftrightarrow> \<not> (pb_adapter b = [] \<or> pb_wire b = [] \<or> pb_model b = [] \<or> pb_window b \<le> 0 \<or>
     pb_max_output b \<le> 0 \<or> pb_tool_choice b = [] \<or> pb_prompt_version b = [] \<or>
     \<not> validSHA256 (pb_endpoint_sha b) \<or> \<not> validSHA256 (pb_credential_sha b) \<or>
     \<not> validSHA256 (pb_preferences_sha b) \<or> \<not> validSHA256 (pb_digest b) \<or>
     pb_digest b \<noteq> ComputeDigest lib b)"

definition validateSessionID :: "bytes \<Rightarrow> bool" where
  "validateSessionID i \<longleftrightarrow>
     \<not> (i = [] \<or> i = ''.'' \<or> i = ''..'' \<or> Base i \<noteq> i \<or> list_ex (\<lambda>c. c = slash \<or> c = CHR 0x5C) i) \<and>
     list_all (\<lambda>c. is_lower c \<or> is_upper c \<or> is_digit c \<or> c = CHR ''-'' \<or> c = CHR ''_'' \<or> c = CHR ''.'') i"

subsection \<open>Files\<close>

text \<open>
  The manifest file is missing, undecodable, or a manifest. What an append and the following
  manifest replacement do: all well; the log cannot be opened; only some bytes get out; all
  bytes get out but an error is returned; the log is fine but the manifest write fails, before
  or after the rename.
\<close>

datatype manifest_file = NoManifest | BadManifest | GoodManifest manifest

record disk =
  d_manifest :: manifest_file
  d_transcript :: "bytes option"
  d_events :: "bytes option"

datatype io = IoOk | IoOpen | IoTorn nat | IoSync | IoManifest bool

definition append_log :: "('a \<Rightarrow> bytes option) \<Rightarrow> 'a list \<Rightarrow> io \<Rightarrow> bytes option \<Rightarrow> bool \<times> bytes option" where
  "append_log enc as io f =
     (if as = [] then (True, f)
      else (case encode_lines enc as of
         None \<Rightarrow> (False, f)
       | Some t \<Rightarrow> (let d = (case f of None \<Rightarrow> [] | Some d \<Rightarrow> d) in
          case io of
            IoOpen \<Rightarrow> (False, f)
          | IoTorn n \<Rightarrow> (False, Some (d @ take n t))
          | IoSync \<Rightarrow> (False, Some (d @ t))
          | _ \<Rightarrow> (True, Some (d @ t)))))"

definition write_manifest :: "manifest \<Rightarrow> io \<Rightarrow> disk \<Rightarrow> bool \<times> disk" where
  "write_manifest m io d = (case io of
     IoManifest renamed \<Rightarrow> (False, if renamed then d\<lparr>d_manifest := GoodManifest m\<rparr> else d)
   | _ \<Rightarrow> (True, d\<lparr>d_manifest := GoodManifest m\<rparr>))"

subsection \<open>The session object\<close>

record store =
  st_manifest :: manifest
  st_transcript :: "trecord list"
  st_events :: "event list"
  st_disk :: disk

text \<open>\<open>writeManifestLocked\<close> at the end of an operation that returned \<open>a\<close>.\<close>

definition persist :: "'a \<Rightarrow> io \<Rightarrow> store \<Rightarrow> (store_error, 'a) result \<times> store" where
  "persist a io s = (let (ok, d) = write_manifest (st_manifest s) io (st_disk s); s' = s\<lparr>st_disk := d\<rparr>
     in if ok then (Inr a, s') else (Inl StoreIo, s'))"

text \<open>
  \<open>Create\<close>: \<open>resolve\<close> gives the absolute symlink-free path of the workspace and its identity;
  \<open>taken\<close> is whether the session directory exists already.
\<close>

definition Create :: "stdlib \<Rightarrow> (bytes \<Rightarrow> (bytes \<times> bytes) option) \<Rightarrow> bool \<Rightarrow> bytes \<Rightarrow> bytes \<Rightarrow> bytes \<Rightarrow> bytes
    \<Rightarrow> provider_binding \<Rightarrow> gotime \<Rightarrow> io \<Rightarrow> (store_error, store) result" where
  "Create lib resolve taken root i workspace projection binding now io =
    (if root = [] \<or> i = [] \<or> workspace = [] then Inl StoreInvalid
     else if \<not> binding_valid lib binding then Inl StoreInvalid
     else (case resolve workspace of
        None \<Rightarrow> Inl StoreIo
      | Some (clean, ident) \<Rightarrow>
         if \<not> validateSessionID i then Inl StoreInvalid
         else if taken then Inl ErrExists
         else (let m = \<lparr>m_format = FormatVersion, m_session = i, m_workspace = clean, m_ws_identity = ident,
                 m_created = now, m_updated = now, m_closed = False, m_projection = projection,
                 m_binding = binding, m_workspace_read = True, m_transcript_seq = 0, m_event_cursor = 0,
                 m_next_run = 0, m_seen = (\<lambda>_. None), m_budgets = (\<lambda>_. None), m_active = None\<rparr>
           in case persist () io \<lparr>st_manifest = m, st_transcript = [], st_events = [],
                 st_disk = \<lparr>d_manifest = NoManifest, d_transcript = None, d_events = None\<rparr>\<rparr> of
                (Inl e, _) \<Rightarrow> Inl e
              | (Inr _, s) \<Rightarrow> Inr s)))"

text \<open>\<open>Open\<close> of a directory entry: missing, not a real directory, or a session directory.\<close>

datatype entry = NoEntry | NotDirectory | SessionDir disk

definition manifest_identity_ok :: "stdlib \<Rightarrow> bytes \<Rightarrow> manifest \<Rightarrow> bool" where
  "manifest_identity_ok lib i m \<longleftrightarrow>
     \<not> (m_session m \<noteq> i \<or> m_workspace m = [] \<or> \<not> is_abs (m_workspace m) \<or> m_ws_identity m = [] \<or>
        m_created m = 0 \<or> m_updated m = 0 \<or> m_projection m = [] \<or> \<not> m_workspace_read m \<or>
        \<not> binding_valid lib (m_binding m))"

definition active_ok :: "manifest \<Rightarrow> bool" where
  "active_ok m \<longleftrightarrow> (case m_active m of None \<Rightarrow> True
     | Some (rid, at) \<Rightarrow> m_budgets m rid \<noteq> None \<and> rid \<noteq> [] \<and> at \<noteq> 0)"

definition events_ok :: "bytes \<Rightarrow> event list \<Rightarrow> bool" where
  "events_ok i evs \<longleftrightarrow> (\<forall>k < length evs. ev_validate (evs ! k) = Inr () \<and> ev_session (evs ! k) = i \<and>
     ev_cursor (evs ! k) = of_nat (k + 1))"

definition Open :: "stdlib \<Rightarrow> clock_text \<Rightarrow> bytes \<Rightarrow> entry \<Rightarrow> (store_error, store) result" where
  "Open lib ct i e =
    (if \<not> validateSessionID i then Inl StoreInvalid
     else (case e of
       NoEntry \<Rightarrow> Inl ErrNotFound
     | NotDirectory \<Rightarrow> Inl ErrCorrupt
     | SessionDir d \<Rightarrow>
        (case d_manifest d of
           NoManifest \<Rightarrow> Inl ErrNotFound
         | BadManifest \<Rightarrow> Inl ErrCorrupt
         | GoodManifest m \<Rightarrow>
            if m_format m \<noteq> FormatVersion then Inl ErrUnsupportedFormat
            else if \<not> manifest_identity_ok lib i m then Inl ErrCorrupt
            else if \<not> active_ok m then Inl ErrCorrupt
            else (case readJSONLines (record_read ct) (d_transcript d) of
               None \<Rightarrow> Inl ErrCorrupt
             | Some rs \<Rightarrow>
                if ValidateRecords rs \<noteq> Inr () then Inl ErrCorrupt
                else (case readJSONLines (event_read ct) (d_events d) of
                   None \<Rightarrow> Inl ErrCorrupt
                 | Some evs \<Rightarrow>
                    if \<not> events_ok i evs then Inl ErrCorrupt
                    else if of_nat (length rs) < m_transcript_seq m \<or> of_nat (length evs) < m_event_cursor m
                    then Inl ErrCorrupt
                    else Inr \<lparr>st_manifest = m\<lparr>m_transcript_seq := of_nat (length rs),
                                m_event_cursor := of_nat (length evs)\<rparr>,
                              st_transcript = rs, st_events = evs, st_disk = d\<rparr>)))))"

text \<open>\<open>List\<close>: summaries of the entries that open, newest first, equal times by identifier.\<close>

record summary =
  su_session :: bytes
  su_workspace :: bytes
  su_activity :: gotime
  su_closed :: bool

definition summary_of :: "store \<Rightarrow> summary" where
  "summary_of s = (let m = st_manifest s in
     \<lparr>su_session = m_session m, su_workspace = m_workspace m, su_activity = m_updated m, su_closed = m_closed m\<rparr>)"

definition List_sessions :: "stdlib \<Rightarrow> clock_text \<Rightarrow> (bytes \<times> entry) list \<Rightarrow> summary list" where
  "List_sessions lib ct es =
     sort_key (\<lambda>s. (- su_activity s, su_session s))
       (concat (map (\<lambda>(i, e). case e of
          SessionDir d \<Rightarrow> (case Open lib ct i e of Inl _ \<Rightarrow> [] | Inr s \<Rightarrow> [summary_of s])
        | _ \<Rightarrow> []) es))"

subsection \<open>Operations\<close>

fun assign_seq :: "u64 \<Rightarrow> trecord list \<Rightarrow> (transcript_error, trecord list) result" where
  "assign_seq n [] = Inr []"
| "assign_seq n (r # rs) =
     (let r' = r\<lparr>r_seq := n + 1\<rparr> in
      case Validate r' of Inl e \<Rightarrow> Inl e
      | Inr _ \<Rightarrow> map_sum id ((#) r') (assign_seq (n + 1) rs))"

definition AppendTranscript :: "clock_text \<Rightarrow> trecord list \<Rightarrow> io \<Rightarrow> store \<Rightarrow> (store_error, trecord list) result \<times> store" where
  "AppendTranscript ct rs io s =
    (case assign_seq (m_transcript_seq (st_manifest s)) rs of
       Inl e \<Rightarrow> (Inl (StoreRecord e), s)
     | Inr assigned \<Rightarrow>
        (let (ok, f) = append_log (record_line ct) assigned io (d_transcript (st_disk s));
             s1 = s\<lparr>st_disk := (st_disk s)\<lparr>d_transcript := f\<rparr>\<rparr>
         in if \<not> ok then (Inl StoreIo, s1)
            else (let m = st_manifest s;
                      m1 = m\<lparr>m_transcript_seq := m_transcript_seq m + of_nat (length assigned)\<rparr>;
                      m2 = (if assigned \<noteq> [] then m1\<lparr>m_updated := r_time (last assigned)\<rparr> else m1)
                  in persist assigned io (s1\<lparr>st_transcript := st_transcript s @ assigned, st_manifest := m2\<rparr>))))"

definition AppendEvent :: "clock_text \<Rightarrow> event \<Rightarrow> io \<Rightarrow> store \<Rightarrow> (store_error, unit) result \<times> store" where
  "AppendEvent ct ev io s =
    (let m = st_manifest s in
     if ev_session ev \<noteq> m_session m \<or> ev_cursor ev \<noteq> m_event_cursor m + 1 then (Inl ErrCorrupt, s)
     else (let (ok, f) = append_log (event_line ct) [ev] io (d_events (st_disk s));
               s1 = s\<lparr>st_disk := (st_disk s)\<lparr>d_events := f\<rparr>\<rparr>
           in if \<not> ok then (Inl StoreIo, s1)
              else persist () io (s1\<lparr>st_events := st_events s @ [ev],
                     st_manifest := m\<lparr>m_event_cursor := ev_cursor ev, m_updated := ev_time ev\<rparr>\<rparr>)))"

definition run_name :: "u64 \<Rightarrow> bytes" where
  "run_name n = ''run-'' @ show_nat (unat n)"

definition seen_command :: "manifest \<Rightarrow> bytes \<Rightarrow> bool" where
  "seen_command m c \<longleftrightarrow> m_seen m c = Some True"

definition BeginRun :: "bytes \<Rightarrow> gotime \<Rightarrow> io \<Rightarrow> store \<Rightarrow> (store_error, bytes) result \<times> store" where
  "BeginRun c now io s =
    (let m = st_manifest s in
     if m_closed m then (Inl ErrClosed, s)
     else if seen_command m c then (Inl ErrDuplicateCommand, s)
     else if m_active m \<noteq> None then (Inl ActiveRunExists, s)
     else (let n = m_next_run m + 1; rid = run_name n in
        persist rid io (s\<lparr>st_manifest := m\<lparr>m_seen := (m_seen m)(c := Some True), m_next_run := n,
          m_budgets := (m_budgets m)(rid := Some zero_budget), m_active := Some (rid, now),
          m_updated := now\<rparr>\<rparr>)))"

definition RecordCommand :: "bytes \<Rightarrow> gotime \<Rightarrow> io \<Rightarrow> store \<Rightarrow> (store_error, unit) result \<times> store" where
  "RecordCommand c now io s =
    (let m = st_manifest s in
     if seen_command m c then (Inl ErrDuplicateCommand, s)
     else persist () io (s\<lparr>st_manifest := m\<lparr>m_seen := (m_seen m)(c := Some True), m_updated := now\<rparr>\<rparr>))"

definition FinishRun :: "bytes \<Rightarrow> gotime \<Rightarrow> io \<Rightarrow> store \<Rightarrow> (store_error, unit) result \<times> store" where
  "FinishRun rid now io s =
    (let m = st_manifest s in
     if m_active m = None \<or> fst (the (m_active m)) \<noteq> rid then (Inl ErrCorrupt, s)
     else persist () io (s\<lparr>st_manifest := m\<lparr>m_active := None, m_updated := now\<rparr>\<rparr>))"

definition ReconcileRun :: "bytes \<Rightarrow> gotime \<Rightarrow> io \<Rightarrow> store \<Rightarrow> (store_error, unit) result \<times> store" where
  "ReconcileRun rid now io s = FinishRun rid now io s"

definition Close :: "gotime \<Rightarrow> io \<Rightarrow> store \<Rightarrow> (store_error, unit) result \<times> store" where
  "Close now io s =
    (let m = st_manifest s in
     if m_closed m then (Inr (), s)
     else if m_active m \<noteq> None then (Inl ActiveRunExists, s)
     else persist () io (s\<lparr>st_manifest := m\<lparr>m_closed := True, m_updated := now\<rparr>\<rparr>))"

datatype budget_counter = BudgetLogicalModelCall | BudgetTransportAttempt | BudgetRetryDelay | BudgetOther bytes

text \<open>The reservation itself, shared by the durable and the in-memory session.\<close>

definition reserve_in :: "budget_counter \<Rightarrow> int \<Rightarrow> run_budget \<Rightarrow> (store_error, run_budget) result" where
  "reserve_in counter amount b = (case counter of
     BudgetLogicalModelCall \<Rightarrow>
       (if logical_calls b \<ge> MaxLogicalModelCalls then Inl ErrBudgetExhausted
        else Inr (b\<lparr>logical_calls := logical_calls b + 1\<rparr>))
   | BudgetTransportAttempt \<Rightarrow>
       (if attempts b \<ge> MaxTransportAttempts then Inl ErrBudgetExhausted
        else Inr (b\<lparr>attempts := attempts b + 1\<rparr>))
   | BudgetRetryDelay \<Rightarrow>
       (if amount < 0 \<or> retry_delay b > i64 (MaxRetryDelay - amount) then Inl ErrBudgetExhausted
        else Inr (b\<lparr>retry_delay := i64 (retry_delay b + amount)\<rparr>))
   | BudgetOther _ \<Rightarrow> Inl UnknownCounter)"

definition ReserveBudget :: "bytes \<Rightarrow> budget_counter \<Rightarrow> int \<Rightarrow> io \<Rightarrow> store \<Rightarrow> (store_error, run_budget) result \<times> store" where
  "ReserveBudget rid counter amount io s =
    (let m = st_manifest s in
     case m_budgets m rid of
       None \<Rightarrow> (Inl ErrCorrupt, s)
     | Some b \<Rightarrow>
        (case reserve_in counter amount b of
           Inl e \<Rightarrow> (Inl e, s)
         | Inr b' \<Rightarrow> persist b' io (s\<lparr>st_manifest := m\<lparr>m_budgets := (m_budgets m)(rid := Some b')\<rparr>\<rparr>)))"

lemmas store_op_defs [step_defs] =
  AppendTranscript_def AppendEvent_def BeginRun_def RecordCommand_def FinishRun_def ReconcileRun_def
  Close_def ReserveBudget_def persist_def write_manifest_def

end
