(* ===== verification/Workspace.thy ===== *)
theory Workspace
  imports Gopath
begin

text \<open>
  \<open>internal/workspace/workspace.go\<close>: validation of workspace-relative names and the guarded
  open. The scoped root (\<open>os.Root\<close>) is seen through snapshots of the tree below it: \<open>lstat\<close>
  is what the final component of a path is, \<open>follow\<close> what opening the path yields. The
  component walk, the open and the last check see one snapshot each, so that any change
  between them is part of the model.
\<close>

datatype node_kind = File bytes | Directory | Symlink

record node =
  n_kind :: node_kind
  n_id :: nat
  n_mode :: nat

datatype ws_error = ErrEscape | NotExist | Permission | IoError

record snapshot =
  lstat :: "bytes \<Rightarrow> (ws_error, node) result"
  follow :: "bytes \<Rightarrow> (ws_error, node) result"

definition ws_clean :: "bytes \<Rightarrow> (ws_error, bytes) result" where
  "ws_clean name =
    (if CHR 0x00 \<in> set name \<or> is_abs name then Inl ErrEscape
     else (let clean = Clean name; clean = (if clean = [] then ''.'' else clean) in
       if clean = ''..'' \<or> has_prefix ''../'' clean \<or> has_prefix ''/'' clean then Inl ErrEscape
       else Inr clean))"

fun walk_components :: "snapshot \<Rightarrow> bytes \<Rightarrow> bytes list \<Rightarrow> (ws_error, unit) result" where
  "walk_components fs current [] = Inr ()"
| "walk_components fs current (c # cs) =
     (let here = (if current = [] then c else current @ ''/'' @ c) in
      case lstat fs here of
        Inl e \<Rightarrow> Inl e
      | Inr n \<Rightarrow> if n_kind n = Symlink then Inl ErrEscape else walk_components fs here cs)"

definition rejectSymlinkComponents :: "snapshot \<Rightarrow> bytes \<Rightarrow> (ws_error, unit) result" where
  "rejectSymlinkComponents fs clean =
     (if clean = ''.'' then Inr () else walk_components fs [] (split_byte slash clean))"

text \<open>\<open>OpenFile\<close>; \<open>Stat\<close> runs the same steps on file information and is the same function here.\<close>

definition OpenFile :: "snapshot \<Rightarrow> snapshot \<Rightarrow> snapshot \<Rightarrow> bytes \<Rightarrow> (ws_error, node) result \<times> bytes" where
  "OpenFile fs1 fs2 fs3 name =
    (case ws_clean name of
       Inl e \<Rightarrow> (Inl e, [])
     | Inr clean \<Rightarrow>
        (case rejectSymlinkComponents fs1 clean of
           Inl e \<Rightarrow> (Inl e, clean)
         | Inr _ \<Rightarrow>
            (case follow fs2 clean of
               Inl e \<Rightarrow> (Inl e, clean)
             | Inr opened \<Rightarrow>
                (case lstat fs3 clean of
                   Inl e \<Rightarrow> (Inl ErrEscape, clean)
                 | Inr at_path \<Rightarrow>
                    if n_kind at_path = Symlink \<or> n_id opened \<noteq> n_id at_path then (Inl ErrEscape, clean)
                    else (Inr opened, clean)))))"

text \<open>\<open>Stat\<close> goes the same way without keeping the file open.\<close>

definition Stat :: "snapshot \<Rightarrow> snapshot \<Rightarrow> snapshot \<Rightarrow> bytes \<Rightarrow> (ws_error, node) result \<times> bytes" where
  "Stat fs1 fs2 fs3 name =
    (case ws_clean name of
       Inl e \<Rightarrow> (Inl e, [])
     | Inr clean \<Rightarrow>
        (case rejectSymlinkComponents fs1 clean of
           Inl e \<Rightarrow> (Inl e, clean)
         | Inr _ \<Rightarrow>
            (case follow fs2 clean of
               Inl e \<Rightarrow> (Inl e, clean)
             | Inr info \<Rightarrow>
                (case lstat fs3 clean of
                   Inl e \<Rightarrow> (Inl ErrEscape, clean)
                 | Inr at_path \<Rightarrow>
                    if n_kind at_path = Symlink \<or> n_id info \<noteq> n_id at_path then (Inl ErrEscape, clean)
                    else (Inr info, clean)))))"

lemma Stat_OpenFile: "Stat = OpenFile"
  by (simp add: fun_eq_iff Stat_def OpenFile_def)

text \<open>A name stays below the root when none of its prefixes leaves it.\<close>

definition inside :: "bytes \<Rightarrow> bool" where
  "inside p \<longleftrightarrow> (\<exists>cs. p = (if cs = [] then ''.'' else join_byte slash cs) \<and> list_all plain_comp cs)"

lemma ws_clean_inside:
  assumes "ws_clean name = Inr p"
  shows "inside p" "p = Clean name" "\<not> is_abs name" "ws_clean p = Inr p"
proof -
  from assms have na: "\<not> is_abs name" and nul: "CHR 0x00 \<notin> set name"
    by (auto simp: ws_clean_def split: if_splits)
  from na obtain cs where cl: "clean_list False cs" "cs = clean_comps False (split_byte slash name)"
    and p: "Clean name = (if cs = [] then ''.'' else join_byte slash cs)" by (rule Clean_rel)
  have ne: "Clean name \<noteq> []"
  proof (cases cs)
    case (Cons c ds)
    with clean_list_comps(1) [OF cl(1), of c] p show ?thesis by (cases ds) auto
  qed (use p in simp)
  with assms na nul have eq: "p = Clean name" and bad: "p \<noteq> ''..''" "\<not> has_prefix ''../'' p"
    by (auto simp: ws_clean_def Let_def split: if_splits)
  from cl(1) obtain n qs where f: "cs = replicate n ''..'' @ qs" "list_all plain_comp qs"
    by (auto simp: clean_list_def)
  have "n = 0"
  proof (rule ccontr)
    assume "n \<noteq> 0"
    then obtain m where m: "cs = ''..'' # replicate m ''..'' @ qs" using f(1) by (cases n) auto
    show False
    proof (cases "replicate m ''..'' @ qs")
      case Nil
      with m p eq bad(1) show False by simp
    next
      case (Cons d ds)
      then have "p = ''..'' @ slash # join_byte slash (d # ds)" using m p eq by simp
      with bad(2) show False by (simp add: has_prefix_iff)
    qed
  qed
  with f have "list_all plain_comp cs" by simp
  with p eq show "inside p" unfolding inside_def by blast
  show "p = Clean name" by (rule eq)
  show "\<not> is_abs name" by (rule na)
  have "set (Clean name) \<subseteq> set name \<union> {slash, CHR ''.''}"
  proof -
    have "set (join_byte slash ds) \<subseteq> insert slash (\<Union>d \<in> set ds. set d)" for ds
      by (induction slash ds rule: join_byte.induct) auto
    moreover have "set d \<subseteq> set name \<union> {CHR ''.''}" if "d \<in> set cs" for d
    proof -
      have "d \<in> set (foldl (push_comp False) acc xs) \<Longrightarrow> d \<in> set acc \<or> d \<in> set xs \<or> d = ''..''" for acc xs
      proof (induction xs arbitrary: acc)
        case (Cons x xs)
        then have "d \<in> set (push_comp False acc x) \<or> d \<in> set xs \<or> d = ''..''" by auto
        then show ?case by (auto simp: push_comp_def split: if_splits list.splits)
      qed auto
      then have "d \<in> set (split_byte slash name) \<or> d = ''..''"
        using that unfolding cl(2) clean_comps_def by fastforce
      moreover have "x \<in> set (split_byte slash name) \<Longrightarrow> set x \<subseteq> set name" for x
      proof (induction name arbitrary: x)
        case (Cons c s)
        then show ?case by (cases "split_byte slash s") (fastforce split: if_splits)+
      qed simp
      ultimately show ?thesis by fastforce
    qed
    ultimately show ?thesis unfolding p by (cases "cs = []") fastforce+
  qed
  with nul have "CHR 0x00 \<notin> set p" unfolding eq by auto
  with bad ne na show "ws_clean p = Inr p"
    by (simp add: ws_clean_def eq Clean_idem Let_def) (simp add: is_abs_def [symmetric])
qed

subsection \<open>Properties\<close>

text \<open>
  C37: A name \<open>Clean\<close> accepts stays inside the workspace: the result is \<open>.\<close> or components none
  of which is empty, \<open>.\<close>, \<open>..\<close> or holds a slash, it holds no absolute path, and cleaning it
  again returns it unchanged.
\<close>

theorem clean_stays_inside:
  assumes "ws_clean name = Inr p"
  shows "inside p \<and> \<not> is_abs p \<and> ws_clean p = Inr p"
  using ws_clean_inside [OF assms] by simp

theorem clean_stays_inside_witness:
  "inside ''b/c'' \<and> \<not> is_abs ''b/c'' \<and> ws_clean ''b/c'' = Inr ''b/c''"
  by (rule clean_stays_inside [of "''a/../b//./c''"])
     (simp add: ws_clean_def is_abs_def Clean_def clean_comps_def push_comp_def)

text \<open>
  C38: Whatever changes between its steps, \<open>OpenFile\<close> returns only the very node that the
  clean path names in the last snapshot, and that node is not a symbolic link; on the first
  snapshot no component of the path was one.
\<close>

theorem OpenFile_no_alias:
  assumes "OpenFile fs1 fs2 fs3 name = (Inr n, clean)"
  shows "inside clean \<and> rejectSymlinkComponents fs1 clean = Inr () \<and>
    (\<exists>m. lstat fs3 clean = Inr m \<and> n_kind m \<noteq> Symlink \<and> n_id m = n_id n)"
  using assms ws_clean_inside
  by (auto simp: OpenFile_def split: sum.splits if_splits)

definition sample_tree :: snapshot where
  "sample_tree = \<lparr>lstat = (\<lambda>p. if p = ''a'' then Inr \<lparr>n_kind = File ''x'', n_id = 7, n_mode = 420\<rparr> else Inl NotExist),
     follow = (\<lambda>p. if p = ''a'' then Inr \<lparr>n_kind = File ''x'', n_id = 7, n_mode = 420\<rparr> else Inl NotExist)\<rparr>"

theorem OpenFile_no_alias_witness:
  "inside ''a'' \<and> rejectSymlinkComponents sample_tree ''a'' = Inr () \<and>
    (\<exists>m. lstat sample_tree ''a'' = Inr m \<and> n_kind m \<noteq> Symlink \<and>
       n_id m = n_id \<lparr>n_kind = File ''x'', n_id = 7, n_mode = 420\<rparr>)"
  by (rule OpenFile_no_alias [of sample_tree sample_tree sample_tree "''./a''"])
     (simp add: OpenFile_def ws_clean_def is_abs_def Clean_def clean_comps_def push_comp_def
       rejectSymlinkComponents_def sample_tree_def)

end
