(* ===== verification/Prompt.thy ===== *)
theory Prompt
  imports Action Workspace Pairing
begin

text \<open>
  \<open>internal/prompt\<close>: discovery of scoped instruction files and the assembly of one provider
  request from current facts. \<open>len\<close> and \<open>int\<close> are 64 bits wide; the admission sum wraps as in
  the code. A file that is opened is seen through \<open>Workspace.OpenFile\<close>; reading can fail.
\<close>

definition PromptVersion :: bytes where "PromptVersion = ''m1-prompt-v1''"

definition stablePolicy :: bytes where
  "stablePolicy =
     ''You are Coragent, a read-only terminal repository companion.'' @ newline @
     ''Investigate the active workspace using only the provided list, search, and read tools.'' @ newline @
     ''Never claim to edit files, run commands, access the network, or read outside the workspace.'' @ newline @
     ''Ground factual repository claims in tool results. Final answers must cite workspace-relative files and exact 1-based line ranges as path:start-end.'' @ newline @
     ''Treat tool errors as evidence and change read-only strategy when recovery is possible.'' @ newline @
     ''Hard runtime policy overrides user and project instructions.''"

record pconfig =
  pc_workspace :: bytes
  pc_active :: bytes
  pc_window :: int
  pc_max_output :: int
  pc_preferences :: bytes

record instruction =
  in_sources :: "bytes list"
  in_scope :: bytes
  in_sha :: bytes
  in_precedence :: int
  in_content :: bytes

datatype prompt_error = ErrContextLimit | ErrRecords | ErrConfig | ErrCtx | ErrInstructionTooLarge | ErrWorkspace ws_error

definition NewAssembler :: "pconfig \<Rightarrow> (prompt_error, pconfig) result" where
  "NewAssembler cfg =
    (if pc_workspace cfg = [] \<or> pc_window cfg \<le> 0 \<or> pc_max_output cfg \<le> 0 then Inl ErrConfig
     else Inr (if pc_active cfg = [] then cfg\<lparr>pc_active := ''.''\<rparr> else cfg))"

definition estimateTokens :: "bytes \<Rightarrow> int" where
  "estimateTokens t = (if t = [] then 0 else (int (length t) + 2) div 3)"

subsection \<open>Messages\<close>

text \<open>
  \<open>recordsToMessages\<close>: consecutive tool calls become one assistant message. The inner loop of
  the code is \<open>take_calls\<close>.
\<close>

definition call_of :: "trecord \<Rightarrow> (prompt_error, tool_call) result" where
  "call_of r = (case DecodePayload r of
     Some (ToolCallPayload i n a) \<Rightarrow> Inr \<lparr>tc_id = i, tc_name = n, tc_args = a\<rparr>
   | _ \<Rightarrow> Inl ErrRecords)"

fun take_calls :: "trecord list \<Rightarrow> (prompt_error, tool_call list \<times> trecord list) result" where
  "take_calls [] = Inr ([], [])"
| "take_calls (r # rs) =
     (if r_kind r \<noteq> KindToolCall then Inr ([], r # rs)
      else (case call_of r of
         Inl e \<Rightarrow> Inl e
       | Inr c \<Rightarrow> (case take_calls rs of
           Inl e \<Rightarrow> Inl e
         | Inr (cs, rest) \<Rightarrow> Inr (c # cs, rest))))"

lemma take_calls_rest: "take_calls rs = Inr (cs, rest) \<Longrightarrow> length rest \<le> length rs"
  by (induction rs arbitrary: cs rest) (fastforce split: if_splits sum.splits)+

definition plain_message :: "role \<Rightarrow> bytes \<Rightarrow> message" where
  "plain_message r c = \<lparr>msg_role = r, msg_content = c, msg_call_id = [], msg_calls = []\<rparr>"

function recordsToMessages :: "trecord list \<Rightarrow> (prompt_error, message list) result" where
  "recordsToMessages [] = Inr []"
| "recordsToMessages (r # rs) =
    (case r_kind r of
       KindUserMessage \<Rightarrow> (case DecodePayload r of
           Some (UserMessagePayload t) \<Rightarrow>
             map_sum id (\<lambda>ms. plain_message RoleUser t # ms) (recordsToMessages rs)
         | _ \<Rightarrow> Inl ErrRecords)
     | KindAssistantBlock \<Rightarrow> (case DecodePayload r of
           Some (AssistantBlockPayload t) \<Rightarrow>
             map_sum id (\<lambda>ms. plain_message RoleAssistant t # ms) (recordsToMessages rs)
         | _ \<Rightarrow> Inl ErrRecords)
     | KindToolCall \<Rightarrow> (case call_of r of
           Inl e \<Rightarrow> Inl e
         | Inr c \<Rightarrow> (case take_calls rs of
             Inl e \<Rightarrow> Inl e
           | Inr (cs, rest) \<Rightarrow>
               map_sum id (\<lambda>ms. (plain_message RoleAssistant [])\<lparr>msg_calls := c # cs\<rparr> # ms)
                 (recordsToMessages rest)))
     | KindToolResult \<Rightarrow> (case DecodePayload r of
           Some (ToolResultPayload i oc t) \<Rightarrow>
             map_sum id (\<lambda>ms. (plain_message RoleTool t)\<lparr>msg_call_id := i\<rparr> # ms) (recordsToMessages rs)
         | _ \<Rightarrow> Inl ErrRecords)
     | _ \<Rightarrow> recordsToMessages rs)"
  by pat_completeness auto
termination by (relation "measure length") (auto dest: take_calls_rest simp: less_Suc_eq_le)

declare recordsToMessages.simps(2) [simp del]

subsection \<open>The request\<close>

definition doc_text :: "instruction \<Rightarrow> bytes" where
  "doc_text d = newline @ ''Project instructions [sources='' @ join_byte (CHR '','') (in_sources d) @
     '' scope='' @ in_scope d @ '' precedence='' @ show_int (in_precedence d) @ '' sha256='' @ in_sha d @
     '']:'' @ newline @ in_content d @ newline"

definition dynamic_prompt :: "pconfig \<Rightarrow> bytes \<Rightarrow> instruction list \<Rightarrow> bytes" where
  "dynamic_prompt cfg goal docs =
     ''Runtime facts:'' @ newline @ ''- workspace: '' @ pc_workspace cfg @ newline @
     ''- active path: '' @ pc_active cfg @ newline @ ''- prompt version: '' @ PromptVersion @ newline @
     (if pc_preferences cfg \<noteq> [] then newline @ ''User preferences (lowest instruction precedence):'' @ newline @
        pc_preferences cfg @ newline else []) @
     concat (map doc_text docs) @
     (if goal \<noteq> [] then newline @
        ''Current explicit user request (higher than project guidance, lower than hard policy):'' @ newline @
        goal @ newline else [])"

definition message_tokens :: "message \<Rightarrow> int list" where
  "message_tokens m = (estimateTokens (msg_content m) + 16) #
     map (\<lambda>c. estimateTokens (tc_name c) + estimateTokens (tc_args c) + 16) (msg_calls m)"

definition tool_tokens :: "tool_definition \<Rightarrow> int" where
  "tool_tokens t = estimateTokens (td_name t) + estimateTokens (td_description t) + estimateTokens (td_schema t)"

text \<open>The parts of the estimate, added one after the other in 64-bit arithmetic.\<close>

definition request_tokens :: "request \<Rightarrow> int list" where
  "request_tokens r = estimateTokens (req_stable r) # estimateTokens (req_dynamic r) #
     concat (map message_tokens (req_messages r)) @ map tool_tokens (req_tools r)"

definition add64 :: "int \<Rightarrow> int \<Rightarrow> int" where
  "add64 a b = i64 (a + b)"

definition Build :: "pconfig \<Rightarrow> bytes \<Rightarrow> instruction list \<Rightarrow> trecord list \<Rightarrow> tool_definition list
    \<Rightarrow> (prompt_error, request) result" where
  "Build cfg goal docs records tools =
    (case recordsToMessages records of
       Inl e \<Rightarrow> Inl e
     | Inr messages \<Rightarrow>
        (let req = \<lparr>req_prompt = [], req_stable = stablePolicy, req_dynamic = dynamic_prompt cfg goal docs,
                    req_messages = messages, req_tools = tools, req_max_output = pc_max_output cfg\<rparr>;
             estimated = foldl add64 0 (request_tokens req)
         in if add64 estimated (pc_max_output cfg) > pc_window cfg then Inl ErrContextLimit
            else Inr req))"

subsection \<open>Instructions\<close>

definition scopeDirs :: "bytes \<Rightarrow> bytes list" where
  "scopeDirs active =
    (if active = ''.'' \<or> active = [] then [''.'']
     else ''.'' # snd (foldl (\<lambda>(current, dirs) part.
            if part = [] \<or> part = ''.'' then (current, dirs)
            else (let here = Join [current, part] in (here, dirs @ [here])))
          ([], []) (split_byte slash active)))"

definition TranscriptPayload :: "instruction list \<Rightarrow> tpayload" where
  "TranscriptPayload docs = InstructionsLoadedPayload (map (\<lambda>d.
     \<lparr>is_sources = in_sources d, is_scope = in_scope d, is_sha256 = in_sha d, is_precedence = in_precedence d\<rparr>) docs)"

text \<open>
  The loop body of \<open>DiscoverInstructions\<close> for one candidate file: \<open>read rel\<close> is what opening
  and reading at most 256 KiB + 1 of it gave. The index by hash is the position of the first
  document with that hash.
\<close>

fun doc_index :: "bytes \<Rightarrow> instruction list \<Rightarrow> nat option" where
  "doc_index h [] = None"
| "doc_index h (d # ds) = (if in_sha d = h then Some 0 else map_option Suc (doc_index h ds))"

definition discover_one :: "stdlib \<Rightarrow> (bytes \<Rightarrow> (ws_error, bytes) result) \<Rightarrow> nat \<times> bytes \<times> nat \<times> bytes
    \<Rightarrow> instruction list \<Rightarrow> (prompt_error, instruction list) result" where
  "discover_one lib read cand docs = (case cand of (depth, dir, order, name) \<Rightarrow>
    (let rel = (if dir \<noteq> ''.'' then Join [dir, name] else name) in
     case read rel of
       Inl NotExist \<Rightarrow> Inr docs
     | Inl e \<Rightarrow> Inl (ErrWorkspace e)
     | Inr raw \<Rightarrow>
        if length raw > 256 * 1024 then Inl ErrInstructionTooLarge
        else (let h = sha256_hex lib raw; precedence = 10 + int depth * 2 + int order in
          case doc_index h docs of
            Some i \<Rightarrow>
              (let d = docs ! i; d1 = d\<lparr>in_sources := in_sources d @ [rel]\<rparr>;
                   d2 = (if precedence > in_precedence d
                         then d1\<lparr>in_precedence := precedence, in_scope := dir\<rparr> else d1)
               in Inr (docs[i := d2]))
          | None \<Rightarrow> Inr (docs @ [\<lparr>in_sources = [rel], in_scope = dir, in_sha = h, in_precedence = precedence,
                       in_content = pt_content (ProjectText raw)\<rparr>]))))"

definition candidates :: "bytes \<Rightarrow> (nat \<times> bytes \<times> nat \<times> bytes) list" where
  "candidates clean = concat (map (\<lambda>(depth, dir). [(depth, dir, 0, ''CLAUDE.md''), (depth, dir, 1, ''AGENTS.md'')])
     (enumerate 0 (scopeDirs clean)))"

definition DiscoverInstructions :: "stdlib \<Rightarrow> snapshot \<Rightarrow> (bytes \<Rightarrow> (ws_error, bytes) result) \<Rightarrow> bytes
    \<Rightarrow> (prompt_error, instruction list) result" where
  "DiscoverInstructions lib fs read activeDir =
    (case ws_clean activeDir of
       Inl e \<Rightarrow> Inl (ErrWorkspace e)
     | Inr clean \<Rightarrow>
        (case OpenFile fs fs fs clean of
           (Inl e, _) \<Rightarrow> Inl (ErrWorkspace e)
         | (Inr info, _) \<Rightarrow>
            (let clean = (if n_kind info \<noteq> Directory then Dir clean else clean) in
             case forM (discover_one lib read) (candidates clean) [] of
               Inl e \<Rightarrow> Inl e
             | Inr docs \<Rightarrow> Inr (sort_key in_precedence docs))))"


subsection \<open>What the model sees of a transcript\<close>

text \<open>
  A conversation as a sequence of facts with everything they say: the texts of both sides, each
  call with its identity, name and arguments, each result with its call and its content.
  \<open>message_facts\<close> reads it off the messages of a request, \<open>log_facts\<close> off the payloads of the
  log. \<open>call_groups\<close> counts the stretches of adjacent calls in a log.
\<close>

datatype said = UserSaid bytes | AssistantSaid bytes | Called tool_call | Answered bytes bytes

definition message_fact :: "message \<Rightarrow> said list" where
  "message_fact m = (case msg_role m of
     RoleUser \<Rightarrow> [UserSaid (msg_content m)]
   | RoleAssistant \<Rightarrow> (if msg_calls m = [] \<or> msg_content m \<noteq> [] then [AssistantSaid (msg_content m)] else []) @
       map Called (msg_calls m)
   | RoleTool \<Rightarrow> [Answered (msg_call_id m) (msg_content m)])"

definition message_facts :: "message list \<Rightarrow> said list" where
  "message_facts ms = concat (map message_fact ms)"

definition payload_fact :: "tpayload \<Rightarrow> said list" where
  "payload_fact p = (case p of
     UserMessagePayload t \<Rightarrow> [UserSaid t]
   | AssistantBlockPayload t \<Rightarrow> [AssistantSaid t]
   | ToolCallPayload i n a \<Rightarrow> [Called \<lparr>tc_id = i, tc_name = n, tc_args = a\<rparr>]
   | ToolResultPayload i oc t \<Rightarrow> [Answered i t]
   | _ \<Rightarrow> [])"

definition log_fact :: "trecord \<Rightarrow> said list" where
  "log_fact r = (case DecodePayload r of Some p \<Rightarrow> payload_fact p | None \<Rightarrow> [])"

definition log_facts :: "trecord list \<Rightarrow> said list" where
  "log_facts rs = concat (map log_fact rs)"

fun call_groups :: "trecord list \<Rightarrow> nat" where
  "call_groups [] = 0"
| "call_groups (r # rs) =
     (if r_kind r = KindToolCall \<and> (rs = [] \<or> r_kind (hd rs) \<noteq> KindToolCall) then 1 else 0) + call_groups rs"

definition call_messages :: "message list \<Rightarrow> nat" where
  "call_messages ms = length (filter (\<lambda>m. msg_calls m \<noteq> []) ms)"

lemmas said_defs = message_facts_def log_facts_def message_fact_def log_fact_def payload_fact_def call_messages_def
  plain_message_def

lemma call_of_ok:
  assumes "Validate r = Inr ()" "r_kind r = KindToolCall"
  obtains c where "call_of r = Inr c" "log_fact r = [Called c]"
proof -
  from Validate_decodes [OF assms(1)] obtain p where p: "DecodePayload r = Some p" "kind_of p = r_kind r" .
  with assms(2) obtain i n a where "p = ToolCallPayload i n a" by (cases p) auto
  with p that show ?thesis by (simp add: call_of_def log_fact_def payload_fact_def)
qed

lemma take_calls_ok:
  "\<forall>r \<in> set rs. Validate r = Inr () \<Longrightarrow>
   \<exists>cs rest pre. take_calls rs = Inr (cs, rest) \<and> rs = pre @ rest \<and> log_facts pre = map Called cs \<and>
     (\<forall>r \<in> set pre. r_kind r = KindToolCall) \<and> (rest = [] \<or> r_kind (hd rest) \<noteq> KindToolCall)"
proof (induction rs)
  case (Cons r rs)
  show ?case
  proof (cases "r_kind r = KindToolCall")
    case True
    with Cons.prems obtain c where c: "call_of r = Inr c" "log_fact r = [Called c]" using call_of_ok by auto
    from Cons obtain cs rest pre where IH: "take_calls rs = Inr (cs, rest)" "rs = pre @ rest" "log_facts pre = map Called cs"
      "\<forall>r \<in> set pre. r_kind r = KindToolCall" "rest = [] \<or> r_kind (hd rest) \<noteq> KindToolCall" by auto
    show ?thesis
      by (rule exI [of _ "c # cs"], rule exI [of _ rest], rule exI [of _ "r # pre"])
         (use IH c True in \<open>simp add: log_facts_def\<close>)
  next
    case False
    show ?thesis
      by (rule exI [of _ "[]"], rule exI [of _ "r # rs"], rule exI [of _ "[]"]) (simp add: False log_facts_def)
  qed
qed (auto simp: log_facts_def)

lemma call_groups_run:
  "\<forall>r \<in> set pre. r_kind r = KindToolCall \<Longrightarrow> rest = [] \<or> r_kind (hd rest) \<noteq> KindToolCall \<Longrightarrow>
   call_groups (pre @ rest) = (if pre = [] then 0 else 1) + call_groups rest"
  by (induction pre) (auto simp: hd_append)

text \<open>What a translation has to satisfy.\<close>

definition renders :: "trecord list \<Rightarrow> message list \<Rightarrow> bool" where
  "renders rs ms \<longleftrightarrow> message_facts ms = log_facts rs \<and> call_messages ms = call_groups rs"

lemma renders_skip: "renders rs ms \<Longrightarrow> log_fact r = [] \<Longrightarrow> r_kind r \<noteq> KindToolCall \<Longrightarrow> renders (r # rs) ms"
  by (simp add: renders_def log_facts_def)

lemma renders_one:
  "renders rs ms \<Longrightarrow> message_fact m = log_fact r \<Longrightarrow> msg_calls m = [] \<Longrightarrow> r_kind r \<noteq> KindToolCall \<Longrightarrow>
   renders (r # rs) (m # ms)"
  by (simp add: renders_def log_facts_def message_facts_def call_messages_def)

lemma renders_calls:
  assumes "renders rest ms" "log_facts pre = map Called cs" "log_fact r = [Called c]" "r_kind r = KindToolCall"
    "\<forall>r \<in> set pre. r_kind r = KindToolCall" "rest = [] \<or> r_kind (hd rest) \<noteq> KindToolCall"
  shows "renders (r # pre @ rest) ((plain_message RoleAssistant [])\<lparr>msg_calls := c # cs\<rparr> # ms)"
proof -
  have "call_groups ((r # pre) @ rest) = 1 + call_groups rest" using call_groups_run [of "r # pre" rest] assms(4-6) by simp
  with assms(1-3) show ?thesis
    by (simp add: renders_def log_facts_def message_facts_def call_messages_def message_fact_def plain_message_def)
qed

lemma recordsToMessages_ok:
  "\<forall>r \<in> set rs. Validate r = Inr () \<Longrightarrow> \<exists>ms. recordsToMessages rs = Inr ms \<and> renders rs ms"
proof (induction rs rule: recordsToMessages.induct)
  case 1
  then show ?case by (simp add: renders_def said_defs)
next
  case (2 r rs)
  from "2.prems" have v: "Validate r = Inr ()" and vs: "\<forall>r \<in> set rs. Validate r = Inr ()" by auto
  from v obtain p where p: "DecodePayload r = Some p" "kind_of p = r_kind r" by (rule Validate_decodes)
  note eq = recordsToMessages.simps(2) [of r rs]
  show ?case
  proof (cases p)
    case (UserMessagePayload t)
    with p have k: "r_kind r = KindUserMessage" by simp
    from "2.IH"(1) [OF k p(1) UserMessagePayload vs] obtain ms where "recordsToMessages rs = Inr ms" "renders rs ms" by auto
    with p UserMessagePayload k renders_one [of rs ms "plain_message RoleUser t" r] show ?thesis
      by (simp add: eq said_defs)
  next
    case (AssistantBlockPayload t)
    with p have k: "r_kind r = KindAssistantBlock" by simp
    from "2.IH"(2) [OF k p(1) AssistantBlockPayload vs] obtain ms where "recordsToMessages rs = Inr ms" "renders rs ms" by auto
    with p AssistantBlockPayload k renders_one [of rs ms "plain_message RoleAssistant t" r] show ?thesis
      by (simp add: eq said_defs)
  next
    case (ToolCallPayload i n a)
    with p have k: "r_kind r = KindToolCall" by simp
    from call_of_ok [OF v k] obtain c where c: "call_of r = Inr c" "log_fact r = [Called c]" .
    from take_calls_ok [OF vs] obtain cs rest pre where t: "take_calls rs = Inr (cs, rest)" "rs = pre @ rest"
      "log_facts pre = map Called cs" "\<forall>r \<in> set pre. r_kind r = KindToolCall"
      "rest = [] \<or> r_kind (hd rest) \<noteq> KindToolCall" by blast
    have "\<forall>r \<in> set rest. Validate r = Inr ()" using vs t(2) by auto
    from "2.IH"(3) [OF k c(1) t(1) refl this] obtain ms where ms: "recordsToMessages rest = Inr ms" "renders rest ms" by auto
    from renders_calls [OF ms(2) t(3) c(2) k t(4,5), folded t(2)] ms(1) c(1) t(1) show ?thesis by (simp add: eq k)
  next
    case (ToolResultPayload i oc t)
    with p have k: "r_kind r = KindToolResult" by simp
    from "2.IH"(4) [OF k p(1) ToolResultPayload vs] obtain ms where "recordsToMessages rs = Inr ms" "renders rs ms" by auto
    with p ToolResultPayload k renders_one [of rs ms "(plain_message RoleTool t)\<lparr>msg_call_id := i\<rparr>" r] show ?thesis
      by (simp add: eq said_defs)
  qed (use p vs "2.IH"(5-) renders_skip [of rs _ r] in \<open>auto simp: eq log_fact_def payload_fact_def\<close>)
qed

lemma valid_log_records:
  "valid_log rs \<Longrightarrow> r \<in> set rs \<Longrightarrow> Validate r = Inr ()"
  by (induction rs rule: rev_induct) (auto simp: valid_log_snoc)

subsection \<open>The admission bound\<close>

text \<open>
  The size of a request, independent of the code's estimate: the bytes of both prompts, of the
  messages, calls and tools, with 48 bytes for each message and each call.
\<close>

definition bytes_of :: "bytes \<Rightarrow> int" where
  "bytes_of t = int (length t)"

definition message_size :: "message \<Rightarrow> int" where
  "message_size m = bytes_of (msg_content m) + 48 +
     (\<Sum>c \<leftarrow> msg_calls m. bytes_of (tc_name c) + bytes_of (tc_args c) + 48)"

definition request_size :: "request \<Rightarrow> int" where
  "request_size r = bytes_of (req_stable r) + bytes_of (req_dynamic r) + (\<Sum>m \<leftarrow> req_messages r. message_size m) +
     (\<Sum>t \<leftarrow> req_tools r. bytes_of (td_name t) + bytes_of (td_description t) + bytes_of (td_schema t))"

lemma estimateTokens_nonneg: "0 \<le> estimateTokens t"
  by (simp add: estimateTokens_def pos_imp_zdiv_nonneg_iff)

lemma estimateTokens_bounds: "bytes_of t \<le> 3 * estimateTokens t" "estimateTokens t \<le> bytes_of t"
  by (cases t; simp add: estimateTokens_def bytes_of_def)+

lemma sum_list_lists: "sum_list (concat (map f xs)) = (\<Sum>x \<leftarrow> xs. sum_list (f x))"
  by (induction xs) simp_all

lemma estimate_sum:
  fixes size est :: "'a \<Rightarrow> int"
  assumes "\<And>x. x \<in> set xs \<Longrightarrow> size x \<le> 3 * est x \<and> est x \<le> size x"
  shows "(\<Sum>x \<leftarrow> xs. size x) \<le> 3 * (\<Sum>x \<leftarrow> xs. est x)" "(\<Sum>x \<leftarrow> xs. est x) \<le> (\<Sum>x \<leftarrow> xs. size x)"
  using assms by (induction xs) (fastforce simp: algebra_simps)+

lemma message_tokens_bounds: "message_size m \<le> 3 * sum_list (message_tokens m)" "sum_list (message_tokens m) \<le> message_size m"
proof -
  have call: "bytes_of (tc_name c) + bytes_of (tc_args c) + 48 \<le> 3 * (estimateTokens (tc_name c) + estimateTokens (tc_args c) + 16) \<and>
      estimateTokens (tc_name c) + estimateTokens (tc_args c) + 16 \<le> bytes_of (tc_name c) + bytes_of (tc_args c) + 48" for c
    using estimateTokens_bounds [of "tc_name c"] estimateTokens_bounds [of "tc_args c"] by auto
  note b = estimate_sum [of "msg_calls m" "\<lambda>c. bytes_of (tc_name c) + bytes_of (tc_args c) + 48", OF call]
    estimateTokens_bounds [of "msg_content m"]
  from b(1,3) show "message_size m \<le> 3 * sum_list (message_tokens m)" by (simp add: message_size_def message_tokens_def)
  from b(2,4) show "sum_list (message_tokens m) \<le> message_size m" by (simp add: message_size_def message_tokens_def)
qed

lemma request_tokens_bounds:
  "request_size r \<le> 3 * sum_list (request_tokens r)" "sum_list (request_tokens r) \<le> request_size r"
proof -
  have tool: "bytes_of (td_name t) + bytes_of (td_description t) + bytes_of (td_schema t) \<le> 3 * tool_tokens t \<and>
      tool_tokens t \<le> bytes_of (td_name t) + bytes_of (td_description t) + bytes_of (td_schema t)" for t
    using estimateTokens_bounds [of "td_name t"] estimateTokens_bounds [of "td_description t"] estimateTokens_bounds [of "td_schema t"]
    unfolding tool_tokens_def by auto
  have split: "sum_list (request_tokens r) = estimateTokens (req_stable r) + estimateTokens (req_dynamic r) +
      (\<Sum>m \<leftarrow> req_messages r. sum_list (message_tokens m)) + (\<Sum>t \<leftarrow> req_tools r. tool_tokens t)"
    by (simp add: request_tokens_def sum_list_lists)
  have msg: "message_size m \<le> 3 * sum_list (message_tokens m) \<and> sum_list (message_tokens m) \<le> message_size m" for m
    using message_tokens_bounds by blast
  note b = estimate_sum [of "req_messages r" message_size, OF msg]
    estimate_sum [of "req_tools r" "\<lambda>t. bytes_of (td_name t) + bytes_of (td_description t) + bytes_of (td_schema t)", OF tool]
    estimateTokens_bounds [of "req_stable r"] estimateTokens_bounds [of "req_dynamic r"]
  from b(1,3,5,7) show "request_size r \<le> 3 * sum_list (request_tokens r)" by (simp add: split request_size_def)
  from b(2,4,6,8) show "sum_list (request_tokens r) \<le> request_size r" by (simp add: split request_size_def)
qed

lemma request_tokens_nonneg: "x \<in> set (request_tokens r) \<Longrightarrow> 0 \<le> x"
  using estimateTokens_nonneg by (auto simp: request_tokens_def message_tokens_def tool_tokens_def
      intro!: add_nonneg_nonneg)

lemma foldl_add64:
  "0 \<le> acc \<Longrightarrow> \<forall>x \<in> set xs. 0 \<le> x \<Longrightarrow> acc + sum_list xs < 2 ^ 63 \<Longrightarrow> foldl add64 acc xs = acc + sum_list xs"
proof (induction xs arbitrary: acc)
  case (Cons x xs)
  have "0 \<le> sum_list xs" using Cons.prems(2) by (intro sum_list_nonneg) auto
  with Cons.prems have "add64 acc x = acc + x" by (simp add: add64_def i64_id i64_range_def)
  with Cons show ?case by simp
qed simp

text \<open>Below 2^63 the sum of the estimate is exact.\<close>

lemma estimate_exact:
  assumes "request_size r < 2 ^ 63"
  shows "foldl add64 0 (request_tokens r) = sum_list (request_tokens r)" "0 \<le> sum_list (request_tokens r)"
proof -
  show "0 \<le> sum_list (request_tokens r)" using request_tokens_nonneg by (intro sum_list_nonneg) auto
  show "foldl add64 0 (request_tokens r) = sum_list (request_tokens r)"
    using foldl_add64 [of 0 "request_tokens r"] request_tokens_nonneg request_tokens_bounds(2) [of r] assms by auto
qed

lemma Build_parts:
  assumes "Build cfg goal docs records tools = Inr req"
  shows "req_stable req = stablePolicy" "req_dynamic req = dynamic_prompt cfg goal docs" "recordsToMessages records = Inr (req_messages req)"
    "req_tools req = tools" "req_max_output req = pc_max_output cfg" "req_prompt req = []"
    "add64 (foldl add64 0 (request_tokens req)) (pc_max_output cfg) \<le> pc_window cfg"
  using assms by (auto simp: Build_def Let_def split: sum.splits if_splits)

subsection \<open>Properties\<close>



text \<open>
  C36: A request \<open>Build\<close> admits carries both prompts, the whole history and every tool, and fits
  the configured window, three bytes to a token and 16 tokens for each message and call: its size
  plus three times the output budget is at most three times the window. Two conditions
  exclude a wrap of the code's 64-bit sum: the request has fewer than 2^60 bytes, and the output
  budget is below 2^62. The second is not checked by the code, see \<open>overflow_admits\<close>.
\<close>

theorem Build_fits:
  assumes "Build cfg goal docs records tools = Inr req" "0 < pc_max_output cfg" "pc_max_output cfg < 2 ^ 62"
    and "request_size req < 2 ^ 60"
  shows "request_size req + 3 * pc_max_output cfg \<le> 3 * pc_window cfg \<and> req_max_output req = pc_max_output cfg \<and>
    req_stable req = stablePolicy \<and> req_dynamic req = dynamic_prompt cfg goal docs \<and>
    recordsToMessages records = Inr (req_messages req) \<and> req_tools req = tools"
proof -
  note b = Build_parts [OF assms(1)] and t = request_tokens_bounds [of req]
  from assms(4) estimate_exact [of req] have e: "foldl add64 0 (request_tokens req) = sum_list (request_tokens req)"
    "0 \<le> sum_list (request_tokens req)" by simp_all
  with t(2) assms(2-4) have "add64 (sum_list (request_tokens req)) (pc_max_output cfg) =
      sum_list (request_tokens req) + pc_max_output cfg" by (simp add: add64_def i64_id i64_range_def)
  with e(1) b t(1) show ?thesis by simp
qed

definition sample_pconfig :: pconfig where
  "sample_pconfig = \<lparr>pc_workspace = ''/w'', pc_active = ''.'', pc_window = 100000, pc_max_output = 1000,
     pc_preferences = []\<rparr>"

definition sample_request :: request where
  "sample_request = \<lparr>req_prompt = [], req_stable = stablePolicy, req_dynamic = dynamic_prompt sample_pconfig ''hi'' [],
     req_messages = [], req_tools = [], req_max_output = 1000\<rparr>"

lemma sample_size: "request_size sample_request < 10000" "100 < request_size sample_request"
  by (simp_all add: request_size_def sample_request_def bytes_of_def stablePolicy_def dynamic_prompt_def
      sample_pconfig_def newline_def PromptVersion_def)

lemma sample_estimate: "foldl add64 0 (request_tokens sample_request) = sum_list (request_tokens sample_request)"
    "0 \<le> sum_list (request_tokens sample_request)" "sum_list (request_tokens sample_request) < 10000"
    "0 < sum_list (request_tokens sample_request)"
  using estimate_exact [of sample_request] sample_size request_tokens_bounds [of sample_request] by simp_all

lemma sample_Build: "Build sample_pconfig ''hi'' [] [] [] = Inr sample_request"
  using sample_estimate
  by (simp add: Build_def sample_request_def [symmetric] sample_pconfig_def [symmetric] Let_def)
     (simp add: sample_request_def sample_pconfig_def add64_def i64_id i64_range_def)

theorem Build_fits_witness: "request_size sample_request + 3000 \<le> 300000"
  using Build_fits [OF sample_Build] sample_size by (simp add: sample_pconfig_def)

text \<open>
  The guard without the condition on the output budget: with a window of a single token and the
  largest output budget, which \<open>NewAssembler\<close> accepts, the sum wraps to a negative number and
  the request is admitted.
\<close>

definition wrapping_pconfig :: pconfig where
  "wrapping_pconfig = sample_pconfig\<lparr>pc_window := 1, pc_max_output := 2 ^ 63 - 1\<rparr>"

lemma i64_wraps:
  assumes "i64_range (x - 2 ^ 64)"
  shows "i64 x = x - 2 ^ 64"
proof -
  have "i64 x = i64 (x - 2 ^ 64)" using mod_add_self2 [of "x - 2 ^ 64 + 2 ^ 63" "2 ^ 64"] by (simp add: i64_def add.commute)
  with assms i64_id show ?thesis by simp
qed

lemma overflow_admits:
  "NewAssembler wrapping_pconfig = Inr wrapping_pconfig \<and>
   Build wrapping_pconfig ''hi'' [] [] [] = Inr (sample_request\<lparr>req_max_output := 2 ^ 63 - 1\<rparr>) \<and>
   3 * pc_window wrapping_pconfig < request_size (sample_request\<lparr>req_max_output := 2 ^ 63 - 1\<rparr>)"
proof (intro conjI)
  let ?r = "sample_request\<lparr>req_max_output := 2 ^ 63 - 1\<rparr>"
  show "NewAssembler wrapping_pconfig = Inr wrapping_pconfig"
    by (simp add: NewAssembler_def wrapping_pconfig_def sample_pconfig_def)
  have same: "request_tokens (sample_request\<lparr>req_max_output := n\<rparr>) = request_tokens sample_request"
    "request_size (sample_request\<lparr>req_max_output := n\<rparr>) = request_size sample_request" for n
    by (simp_all add: request_tokens_def request_size_def)
  then show "3 * pc_window wrapping_pconfig < request_size ?r" using sample_size by (simp add: wrapping_pconfig_def)
  have r: "\<lparr>req_prompt = [], req_stable = stablePolicy, req_dynamic = dynamic_prompt wrapping_pconfig ''hi'' [],
      req_messages = [], req_tools = [], req_max_output = pc_max_output wrapping_pconfig\<rparr> = ?r"
    by (simp add: sample_request_def wrapping_pconfig_def dynamic_prompt_def)
  have "add64 (sum_list (request_tokens sample_request)) (2 ^ 63 - 1) < 0"
    using sample_estimate i64_wraps [of "sum_list (request_tokens sample_request) + (2 ^ 63 - 1)"]
    by (simp add: add64_def i64_range_def)
  with sample_estimate(1) show "Build wrapping_pconfig ''hi'' [] [] [] = Inr ?r"
    by (simp add: Build_def r same Let_def) (simp add: wrapping_pconfig_def)
qed

end
