(* ===== verification/Sessioncommand.thy ===== *)
theory Sessioncommand
  imports Event
begin

text \<open>
  \<open>internal/sessioncommand/command.go\<close>: the control envelope every frontend sends. The decode
  functions are one definition each, as in the code; \<open>cmd_validate\<close> is \<open>Command.Validate\<close>.
\<close>

datatype cmd_kind = KindSubmit | KindCancel | KindResume | KindClose | KindUnknown bytes

record command =
  cmd_id :: bytes
  cmd_session :: bytes
  cmd_kind :: cmd_kind
  cmd_payload :: bytes

datatype cmd_error = CmdIDRequired | CmdWrongKind | CmdNoPayload | CmdDecode
  | CmdPromptEmpty | CmdPromptTooLong | CmdUnknownKind

datatype cmd_payload = SubmitPayload bytes | CancelPayload | ResumePayload | ClosePayload

definition empty_command :: command where
  "empty_command = \<lparr>cmd_id = [], cmd_session = [], cmd_kind = KindUnknown [], cmd_payload = []\<rparr>"

fun cmd_json :: "cmd_payload \<Rightarrow> json" where
  "cmd_json (SubmitPayload p) = JObj [(''prompt'', jstring p)]"
| "cmd_json _ = JObj []"

definition NewSubmit :: "bytes \<Rightarrow> bytes \<Rightarrow> command" where
  "NewSubmit i p = empty_command\<lparr>cmd_id := i, cmd_kind := KindSubmit, cmd_payload := wr (cmd_json (SubmitPayload p))\<rparr>"

definition NewCancel :: "bytes \<Rightarrow> command" where
  "NewCancel i = empty_command\<lparr>cmd_id := i, cmd_kind := KindCancel, cmd_payload := wr (cmd_json CancelPayload)\<rparr>"

definition NewResume :: "bytes \<Rightarrow> command" where
  "NewResume i = empty_command\<lparr>cmd_id := i, cmd_kind := KindResume, cmd_payload := wr (cmd_json ResumePayload)\<rparr>"

definition NewClose :: "bytes \<Rightarrow> command" where
  "NewClose i = empty_command\<lparr>cmd_id := i, cmd_kind := KindClose, cmd_payload := wr (cmd_json ClosePayload)\<rparr>"

definition ForSession :: "command \<Rightarrow> bytes \<Rightarrow> command" where
  "ForSession c sid = c\<lparr>cmd_session := sid\<rparr>"

text \<open>\<open>Command.decode\<close> with the struct's own decoder.\<close>

definition cmd_decode :: "(json \<Rightarrow> 'a option) \<Rightarrow> command \<Rightarrow> (cmd_error, 'a) result" where
  "cmd_decode d c =
     (if cmd_payload c = [] then Inl CmdNoPayload
      else (case read_doc (cmd_payload c) of
         None \<Rightarrow> Inl CmdDecode
       | Some v \<Rightarrow> (case d v of None \<Rightarrow> Inl CmdDecode | Some p \<Rightarrow> Inr p)))"

definition DecodeSubmit :: "command \<Rightarrow> (cmd_error, bytes) result" where
  "DecodeSubmit c = (if cmd_kind c \<noteq> KindSubmit then Inl CmdWrongKind else cmd_decode (dec1 ''prompt'') c)"

definition DecodeCancel :: "command \<Rightarrow> (cmd_error, unit) result" where
  "DecodeCancel c = (if cmd_kind c \<noteq> KindCancel then Inl CmdWrongKind else cmd_decode (dec0 ()) c)"

definition DecodeResume :: "command \<Rightarrow> (cmd_error, unit) result" where
  "DecodeResume c = (if cmd_kind c \<noteq> KindResume then Inl CmdWrongKind else cmd_decode (dec0 ()) c)"

definition DecodeClose :: "command \<Rightarrow> (cmd_error, unit) result" where
  "DecodeClose c = (if cmd_kind c \<noteq> KindClose then Inl CmdWrongKind else cmd_decode (dec0 ()) c)"

definition cmd_validate :: "command \<Rightarrow> (cmd_error, unit) result" where
  "cmd_validate c =
     (if cmd_id c = [] then Inl CmdIDRequired
      else (case cmd_kind c of
         KindSubmit \<Rightarrow> (case DecodeSubmit c of
             Inl e \<Rightarrow> Inl e
           | Inr p \<Rightarrow> if p = [] then Inl CmdPromptEmpty
                     else if length p > 256 * 1024 then Inl CmdPromptTooLong
                     else Inr ())
       | KindCancel \<Rightarrow> DecodeCancel c
       | KindResume \<Rightarrow> DecodeResume c
       | KindClose \<Rightarrow> DecodeClose c
       | KindUnknown _ \<Rightarrow> Inl CmdUnknownKind))"

subsection \<open>What is written is what is read\<close>

fun cmd_kind_of :: "cmd_payload \<Rightarrow> cmd_kind" where
  "cmd_kind_of (SubmitPayload _) = KindSubmit"
| "cmd_kind_of CancelPayload = KindCancel"
| "cmd_kind_of ResumePayload = KindResume"
| "cmd_kind_of ClosePayload = KindClose"

fun cmd_norm :: "cmd_payload \<Rightarrow> cmd_payload" where
  "cmd_norm (SubmitPayload p) = SubmitPayload (to_valid p)"
| "cmd_norm p = p"

text \<open>The payload a kind carries, read back by the decode function of that kind.\<close>

definition cmd_read :: "cmd_kind \<Rightarrow> bytes \<Rightarrow> cmd_payload option" where
  "cmd_read k raw = (let c = empty_command\<lparr>cmd_kind := k, cmd_payload := raw\<rparr> in case k of
     KindSubmit \<Rightarrow> (case DecodeSubmit c of Inl _ \<Rightarrow> None | Inr p \<Rightarrow> Some (SubmitPayload p))
   | KindCancel \<Rightarrow> (case DecodeCancel c of Inl _ \<Rightarrow> None | Inr _ \<Rightarrow> Some CancelPayload)
   | KindResume \<Rightarrow> (case DecodeResume c of Inl _ \<Rightarrow> None | Inr _ \<Rightarrow> Some ResumePayload)
   | KindClose \<Rightarrow> (case DecodeClose c of Inl _ \<Rightarrow> None | Inr _ \<Rightarrow> Some ClosePayload)
   | KindUnknown _ \<Rightarrow> None)"

lemmas cmd_decode_defs = DecodeSubmit_def DecodeCancel_def DecodeResume_def DecodeClose_def cmd_decode_def
lemmas cmd_new_defs = NewSubmit_def NewCancel_def NewResume_def NewClose_def empty_command_def

lemma wf_cmd_json [simp]: "wf_json (cmd_json p)"
  by (cases p) simp_all

lemma wr_cmd_json [simp]: "wr (cmd_json p) \<noteq> []"
  by (cases p) simp_all

lemma cmd_read_wr: "cmd_read (cmd_kind_of p) (wr (cmd_json p)) = Some (cmd_norm p)"
  using wr_cmd_json [of p] wf_cmd_json [of p]
  by (cases p) (simp_all add: cmd_read_def cmd_decode_defs unquote_quote del: wr.simps wr_cmd_json)

interpretation cmd: payload_codec cmd_kind_of "\<lambda>p. Some (wr (cmd_json p))" cmd_read cmd_norm "\<lambda>_. True"
proof
  show "cmd_read (cmd_kind_of p) raw = Some (cmd_norm p)"
    if "Some (wr (cmd_json p)) = Some raw" for p raw
    using cmd_read_wr that by auto
  show "cmd_kind_of (cmd_norm p) = cmd_kind_of p" for p by (cases p) simp_all
  show "cmd_norm (cmd_norm p) = cmd_norm p" for p by (cases p) simp_all
qed

lemma DecodeSubmit_New: "DecodeSubmit (NewSubmit i p) = Inr (to_valid p)"
  using wf_cmd_json [of "SubmitPayload p"] wr_cmd_json [of "SubmitPayload p"]
  by (simp add: cmd_decode_defs cmd_new_defs unquote_quote del: wr.simps wr_cmd_json)

lemma cmd_validate_control:
  "i \<noteq> [] \<Longrightarrow> cmd_validate (NewCancel i) = Inr ()"
  "i \<noteq> [] \<Longrightarrow> cmd_validate (NewResume i) = Inr ()"
  "i \<noteq> [] \<Longrightarrow> cmd_validate (NewClose i) = Inr ()"
  using wf_cmd_json [of CancelPayload] wr_cmd_json [of CancelPayload]
  by (simp_all add: cmd_validate_def cmd_decode_defs cmd_new_defs del: wr.simps wr_cmd_json)

text \<open>The correlation with a session never changes what a command asks for.\<close>

lemma cmd_validate_session [simp]: "cmd_validate (ForSession c sid) = cmd_validate c"
  by (cases c) (simp add: ForSession_def cmd_validate_def cmd_decode_defs split: cmd_kind.split)

lemma cmd_validate_id: "cmd_validate c = Inr () \<Longrightarrow> cmd_id c \<noteq> []"
  by (auto simp: cmd_validate_def)

lemma cmd_validate_submit:
  assumes "cmd_validate c = Inr ()" "cmd_kind c = KindSubmit"
  obtains p where "DecodeSubmit c = Inr p" "p \<noteq> []" "length p \<le> 256 * 1024"
  using assms by (auto simp: cmd_validate_def split: sum.splits if_splits)

text \<open>
  A submit command built by \<open>NewSubmit\<close> is accepted exactly when it has an ID and its
  prompt, as it will be read back, is non-empty and at most 256 KiB; and then the prompt that
  is read is the one that was given, coerced to valid UTF-8.
\<close>

theorem submit_accepted_iff:
  "(cmd_validate (NewSubmit i p) = Inr () \<longleftrightarrow>
      i \<noteq> [] \<and> p \<noteq> [] \<and> length (to_valid p) \<le> 262144) \<and>
   DecodeSubmit (NewSubmit i p) = Inr (to_valid p)"
proof -
  have "cmd_id (NewSubmit i p) = i" "cmd_kind (NewSubmit i p) = KindSubmit" by (simp_all add: NewSubmit_def)
  then show ?thesis by (auto simp: cmd_validate_def DecodeSubmit_New)
qed

end
