(* ===== verification/Subscriber.thy ===== *)
theory Subscriber
  imports Event
begin

text \<open>
  The \<open>subscriber\<close> of \<open>internal/engine/session.go\<close>: an unbounded queue filled under the
  session's lock, a wake-up channel of capacity one and a goroutine that hands the events over.
  The position of the goroutine is part of the state; \<open>sub_out\<close> is what the observer has
  received so far. \<open>sub_step\<close> is one move of the goroutine: where a Go \<open>select\<close> has two
  ready branches, both are rules.
\<close>

datatype sub_pos = SubWait | SubDrain | SubSend event | SubExit

record subscriber =
  sub_queue :: "event list"
  sub_wake :: bool
  sub_closed :: bool
  sub_pos :: sub_pos
  sub_out :: "event list"

definition newSubscriber :: "event list \<Rightarrow> subscriber" where
  "newSubscriber initial = \<lparr>sub_queue = initial, sub_wake = (initial \<noteq> []), sub_closed = False,
     sub_pos = SubWait, sub_out = []\<rparr>"

definition enqueue :: "event \<Rightarrow> subscriber \<Rightarrow> subscriber" where
  "enqueue ev s = (if sub_closed s then s else s\<lparr>sub_queue := sub_queue s @ [ev], sub_wake := True\<rparr>)"

definition sub_close :: "subscriber \<Rightarrow> subscriber" where
  "sub_close s = s\<lparr>sub_closed := True, sub_queue := []\<rparr>"

inductive sub_step :: "subscriber \<Rightarrow> subscriber \<Rightarrow> bool" where
  wait_done: "sub_pos s = SubWait \<Longrightarrow> sub_closed s \<Longrightarrow> sub_step s (s\<lparr>sub_pos := SubExit\<rparr>)"
| wait_wake: "sub_pos s = SubWait \<Longrightarrow> sub_wake s \<Longrightarrow> sub_step s (s\<lparr>sub_wake := False, sub_pos := SubDrain\<rparr>)"
| drain_closed: "sub_pos s = SubDrain \<Longrightarrow> sub_closed s \<Longrightarrow> sub_step s (s\<lparr>sub_pos := SubExit\<rparr>)"
| drain_empty: "sub_pos s = SubDrain \<Longrightarrow> \<not> sub_closed s \<Longrightarrow> sub_queue s = [] \<Longrightarrow> sub_step s (s\<lparr>sub_pos := SubWait\<rparr>)"
| drain_next: "sub_pos s = SubDrain \<Longrightarrow> \<not> sub_closed s \<Longrightarrow> sub_queue s = ev # q \<Longrightarrow>
    sub_step s (s\<lparr>sub_queue := q, sub_pos := SubSend ev\<rparr>)"
| send: "sub_pos s = SubSend ev \<Longrightarrow> sub_step s (s\<lparr>sub_out := sub_out s @ [ev], sub_pos := SubDrain\<rparr>)"
| send_done: "sub_pos s = SubSend ev \<Longrightarrow> sub_closed s \<Longrightarrow> sub_step s (s\<lparr>sub_pos := SubExit\<rparr>)"

inductive_cases sub_stepE: "sub_step s t"

text \<open>What is out, in the goroutine's hand and in the queue, in order.\<close>

definition sub_hand :: "subscriber \<Rightarrow> event list" where
  "sub_hand s = (case sub_pos s of SubSend ev \<Rightarrow> [ev] | _ \<Rightarrow> [])"

definition sub_all :: "subscriber \<Rightarrow> event list" where
  "sub_all s = sub_out s @ sub_hand s @ sub_queue s"

text \<open>
  The contract with the session: \<open>sub_ok evs s\<close> relates a subscriber to the events that were
  published for it. Open, it holds all of them and cannot sleep on a non-empty queue; closed,
  what came out is a first part of them.
\<close>

definition sub_ok :: "event list \<Rightarrow> subscriber \<Rightarrow> bool" where
  "sub_ok evs s \<longleftrightarrow>
     (if sub_closed s then sub_queue s = [] \<and> prefix (sub_out s @ sub_hand s) evs
      else sub_all s = evs \<and> sub_pos s \<noteq> SubExit \<and>
           (sub_pos s = SubWait \<longrightarrow> sub_queue s \<noteq> [] \<longrightarrow> sub_wake s))"

lemmas sub_defs = sub_ok_def sub_all_def sub_hand_def

lemma sub_ok_new [preserved]: "sub_ok evs (newSubscriber evs)"
  by (simp add: sub_defs newSubscriber_def)

lemma sub_ok_enqueue [preserved]: "sub_ok evs s \<Longrightarrow> sub_ok (evs @ [ev]) (enqueue ev s)"
  by (auto simp: sub_defs enqueue_def)

lemma sub_ok_closed [preserved]: "sub_ok evs s \<Longrightarrow> sub_closed s \<Longrightarrow> sub_ok (evs @ [ev]) s"
  by (auto simp: sub_defs)

lemma sub_ok_close [preserved]: "sub_ok evs s \<Longrightarrow> sub_ok evs (sub_close s)"
  by (auto simp: sub_defs sub_close_def split: if_splits)

lemma sub_ok_step [preserved]:
  assumes "sub_step s t" "sub_ok evs s"
  shows "sub_ok evs t"
  using assms by cases (auto simp: sub_defs split: if_splits dest: append_prefixD)

lemma sub_okD:
  "sub_ok evs s \<Longrightarrow> prefix (sub_out s) evs"
  "sub_ok evs s \<Longrightarrow> \<not> sub_closed s \<Longrightarrow> sub_out s @ sub_hand s @ sub_queue s = evs"
  by (auto simp: sub_defs split: if_splits dest: append_prefixD)

text \<open>
  \<open>observer evs s\<close>: the subscriber an observer has after \<open>evs\<close> was published for it, in
  any interleaving of the session's calls (\<open>enqueue\<close>, \<open>close\<close>) with the moves of the
  subscriber's goroutine.
\<close>

inductive observer :: "event list \<Rightarrow> subscriber \<Rightarrow> bool" where
  subscribed: "observer initial (newSubscriber initial)"
| published: "observer evs s \<Longrightarrow> observer (evs @ [ev]) (enqueue ev s)"
| closing: "observer evs s \<Longrightarrow> observer evs (sub_close s)"
| moved: "observer evs s \<Longrightarrow> sub_step s t \<Longrightarrow> observer evs t"

lemma observer_ok: "observer evs s \<Longrightarrow> sub_ok evs s"
  by (induction rule: observer.induct) (simp_all add: preserved)

text \<open>The moves the goroutine of an open subscriber has left when nothing more is published.\<close>

definition handover :: "subscriber \<Rightarrow> nat" where
  "handover s = 2 * length (sub_queue s) + (case sub_pos s of SubSend ev \<Rightarrow> 2 | SubDrain \<Rightarrow> 1 | _ \<Rightarrow> 0) +
     (if sub_wake s then 2 else 0)"

lemma handover_step: "sub_step s t \<Longrightarrow> \<not> sub_closed s \<Longrightarrow> Suc (handover t) = handover s \<and> \<not> sub_closed t"
  by (cases rule: sub_step.cases) (auto simp: handover_def)

lemma handover_steps: "(sub_step ^^ n) s t \<Longrightarrow> \<not> sub_closed s \<Longrightarrow> n + handover t = handover s \<and> \<not> sub_closed t"
proof (induction n arbitrary: t)
  case (Suc n)
  then obtain u where u: "(sub_step ^^ n) s u" "sub_step u t" by auto
  from Suc.IH [OF u(1) Suc.prems(2)] handover_step [OF u(2)] show ?case by auto
qed simp

lemma observer_steps: "(sub_step ^^ n) s t \<Longrightarrow> observer evs s \<Longrightarrow> observer evs t"
  by (induction n arbitrary: t) (auto intro: observer.moved)

text \<open>An open subscriber that cannot move has handed everything over.\<close>

lemma asleep_empty:
  assumes "sub_ok evs s" "\<not> sub_closed s" "\<nexists>t. sub_step s t"
  shows "sub_out s = evs"
proof (cases "sub_pos s")
  case SubWait
  with assms(3) have "\<not> sub_wake s" using wait_wake by blast
  with assms(1,2) SubWait show ?thesis by (auto simp: sub_defs)
next
  case SubDrain
  with assms(2,3) show ?thesis using drain_empty drain_next by (cases "sub_queue s") blast+
next
  case (SubSend ev)
  with assms(3) show ?thesis using send by blast
next
  case SubExit
  with assms(1,2) show ?thesis by (simp add: sub_ok_def)
qed

lemma goroutine_rests: "\<not> sub_closed s \<Longrightarrow> \<exists>n t. (sub_step ^^ n) s t \<and> (\<nexists>u. sub_step t u)"
proof (induction "handover s" arbitrary: s rule: less_induct)
  case less
  show ?case
  proof (cases "\<exists>t. sub_step s t")
    case True
    then obtain t where t: "sub_step s t" ..
    with handover_step [OF t less.prems] less.hyps [of t] obtain n u where "(sub_step ^^ n) t u" "\<nexists>v. sub_step u v" by auto
    with t have "(sub_step ^^ Suc n) s u" by (metis relpowp_Suc_I2)
    with \<open>\<nexists>v. sub_step u v\<close> show ?thesis by blast
  qed (metis relpowp_0_I)
qed

text \<open>
  C9: Delivery: take any subscriber the session can have, after any interleaving of published
  events, goroutine moves and an optional close, that is still open. With an observer that
  receives, its goroutine comes to rest; however its moves go, there are at most
  \<open>handover s\<close> of them, and where it rests the observer has received exactly the events
  published, in order: no wake-up is lost, so no event waits in the queue of a sleeping goroutine.
\<close>

theorem subscriber_delivers:
  assumes "observer evs s" "\<not> sub_closed s"
  shows "(\<exists>n t. (sub_step ^^ n) s t \<and> (\<nexists>u. sub_step t u)) \<and>
    (\<forall>n t. (sub_step ^^ n) s t \<longrightarrow> n \<le> handover s \<and> ((\<nexists>u. sub_step t u) \<longrightarrow> sub_out t = evs))"
proof (intro conjI allI impI)
  show "\<exists>n t. (sub_step ^^ n) s t \<and> (\<nexists>u. sub_step t u)" by (rule goroutine_rests [OF assms(2)])
  fix n t assume step: "(sub_step ^^ n) s t"
  from handover_steps [OF this assms(2)] have t: "n + handover t = handover s" "\<not> sub_closed t" by simp_all
  then show "n \<le> handover s" by simp
  show "sub_out t = evs" if "\<nexists>u. sub_step t u"
    by (rule asleep_empty [OF observer_ok [OF observer_steps [OF step assms(1)]] t(2) that])
qed

definition sample_event :: event where
  "sample_event = \<lparr>ev_session = ''s'', ev_run = [], ev_cursor = 1, ev_time = 1, ev_kind = KindSessionResumed, ev_payload = ''{}''\<rparr>"

text \<open>An event published to a goroutine that sleeps on an empty queue.\<close>

theorem subscriber_delivers_witness:
  "\<exists>n t. (sub_step ^^ n) (enqueue sample_event (newSubscriber [])) t \<and> (\<nexists>u. sub_step t u) \<and> n \<le> 4 \<and>
     sub_out t = [sample_event]"
proof -
  have "observer ([] @ [sample_event]) (enqueue sample_event (newSubscriber []))"
    by (intro observer.published observer.subscribed)
  moreover have "handover (enqueue sample_event (newSubscriber [])) = 4" "\<not> sub_closed (enqueue sample_event (newSubscriber []))"
    by (simp_all add: handover_def enqueue_def newSubscriber_def)
  ultimately show ?thesis using subscriber_delivers [of "[sample_event]" "enqueue sample_event (newSubscriber [])"] by auto
qed

end
