(* ===== verification/Session.thy ===== *)
theory Session
  imports Store Prompt Sessioncommand Subscriber
begin

text \<open>
  \<open>internal/engine/session.go\<close>: the state of one session and everything that happens under
  its lock. The outside (\<open>world\<close>) answers by the number of effects done so far (\<open>s_tick\<close>): the
  clock, the outcome of a write, the provider's attempt, the jitter, and what a context that
  is cancelled meanwhile looks like to a sleep and to a tool. The run's goroutine is the
  position \<open>s_run\<close> (\<open>Runloop\<close> moves it); its context is \<open>s_cancelled\<close>. The three test hooks are nil.
\<close>

datatype sess_state = StateIdle | StateRunning | StateClosed | StateFaulted

datatype engine_error =
    CommandCancelled | CommandInvalid cmd_error | SessionMismatch | DuplicateCommand | RunActive
  | SessionClosed | SessionFaulted | SensitivePrompt | UnsupportedCommand
  | FromPrompt prompt_error | FromStore store_error | FromTranscript transcript_error | FromEvent event_error
  | IDMismatch | IDRequired | CloseFacts

text \<open>
  What a provider attempt does: the texts it reports and how it ends, with a response, with a
  classified failure, or (None) with an error that is not one, such as the context's.
\<close>

type_synonym attempt = "bytes list \<times> (failure option, response) result"

record world =
  w_lib :: stdlib
  w_clock :: clock_text
  w_broker :: broker
  w_assembler :: "pconfig option"
  w_docs :: "(nat \<Rightarrow> (prompt_error, instruction list) result) option"
  w_now :: "nat \<Rightarrow> gotime"
  w_io :: "nat \<Rightarrow> io"
  w_call :: "nat \<Rightarrow> request \<Rightarrow> attempt"
  w_jitter :: "nat \<Rightarrow> int \<Rightarrow> int"
  w_wakes :: "nat \<Rightarrow> bool"
  w_phase :: "nat \<Rightarrow> nat"

text \<open>Where the run's goroutine is, with its local variables (\<open>Runloop\<close>).\<close>

type_synonym call_end = "(engine_error call_error, response) result"

datatype pc =
    AtTop
  | AtReserve request
  | AtAttempt request nat
  | AtStream request nat "bytes list" "(failure option, response) result" bytes stream_redactor
  | AtBackoff request nat failure
  | AtReset request nat failure int
  | AtAnnounce request nat failure int
  | AtSleep request nat
  | AtEnded call_end bytes stream_redactor
  | AtDecide call_end bytes
  | AtBlock response bytes
  | AtCalls "tool_call list"
  | AtTool "(tool_call \<times> bool) list" bool bool
  | AtExecute tool_call bool "(tool_call \<times> bool) list" bool bool
  | AtResult tool_call tool_result "(tool_call \<times> bool) list" bool bool
  | AtAfter bool
  | AtFinish bytes bytes

text \<open>
  A subscription is kept with the cursor it was asked from and the length the history had
  then; one that has left the map is closed.
\<close>

record subscription =
  sn_after :: u64
  sn_from :: nat
  sn_sub :: subscriber

record session =
  s_id :: bytes
  s_state :: sess_state
  s_seen :: "bytes \<Rightarrow> bool"
  s_cursor :: u64
  s_runs :: u64
  s_history :: "event list"
  s_records :: "trecord list"
  s_subs :: "subscription list"
  s_partial :: bytes
  s_tool :: "(bytes \<times> bytes) option"
  s_budget :: "bytes \<Rightarrow> run_budget option"
  s_cancelled :: bool
  s_error :: "engine_error option"
  s_docs :: "instruction list"
  s_durable :: "store option"
  s_run :: "(bytes \<times> bytes \<times> pc) option"
  s_tick :: nat

subsection \<open>Sequencing\<close>

definition seq :: "('e, 'a) result \<times> 's \<Rightarrow> ('a \<Rightarrow> 's \<Rightarrow> ('e, 'b) result \<times> 's) \<Rightarrow> ('e, 'b) result \<times> 's" where
  "seq p f = (case p of (Inl e, s) \<Rightarrow> (Inl e, s) | (Inr a, s) \<Rightarrow> f a s)"

definition tick :: "session \<Rightarrow> session" where
  "tick s = s\<lparr>s_tick := Suc (s_tick s)\<rparr>"

definition now :: "world \<Rightarrow> session \<Rightarrow> gotime" where "now w s = w_now w (s_tick s)"
definition io_now :: "world \<Rightarrow> session \<Rightarrow> io" where "io_now w s = w_io w (s_tick s)"

text \<open>One operation of the durable session, if there is one.\<close>

definition on_store :: "(store \<Rightarrow> (store_error, 'a) result \<times> store) \<Rightarrow> store \<Rightarrow> session
    \<Rightarrow> (store_error, 'a) result \<times> session" where
  "on_store f st s = (let (r, st') = f st in (r, s\<lparr>s_durable := Some st'\<rparr>))"

subsection \<open>Records\<close>

fun number_from :: "nat \<Rightarrow> trecord list \<Rightarrow> trecord list" where
  "number_from n [] = []"
| "number_from n (r # rs) = r\<lparr>r_seq := of_nat (n + 1)\<rparr> # number_from (Suc n) rs"

text \<open>The durable or in-memory part shared by the two append functions.\<close>

definition add_records :: "world \<Rightarrow> trecord list \<Rightarrow> session \<Rightarrow> (engine_error, unit) result \<times> session" where
  "add_records w rs s = (case s_durable s of
     None \<Rightarrow> (Inr (), s\<lparr>s_records := s_records s @ number_from (length (s_records s)) rs\<rparr>)
   | Some st \<Rightarrow> (case on_store (AppendTranscript (w_clock w) rs (io_now w s)) st s of
       (Inl e, s') \<Rightarrow> (Inl (FromStore e), s')
     | (Inr assigned, s') \<Rightarrow> (Inr (), s'\<lparr>s_records := s_records s' @ assigned\<rparr>)))"

definition appendPayload :: "world \<Rightarrow> bytes \<Rightarrow> tpayload \<Rightarrow> session \<Rightarrow> (engine_error, unit) result \<times> session" where
  "appendPayload w rid p s = (case New rid (now w s) (kind_of p) p of
     Inl e \<Rightarrow> (Inl (FromTranscript e), tick s)
   | Inr r \<Rightarrow> (let (q, s') = add_records w [r] s in (q, tick s')))"

text \<open>The loop of \<open>appendToolCalls\<close>: every record asks the clock.\<close>

fun call_records :: "world \<Rightarrow> bytes \<Rightarrow> nat \<Rightarrow> tool_call list \<Rightarrow> (transcript_error, trecord list) result" where
  "call_records w rid n [] = Inr []"
| "call_records w rid n (c # cs) =
     (case New rid (w_now w n) KindToolCall (ToolCallPayload (tc_id c) (tc_name c) (tc_args c)) of
        Inl e \<Rightarrow> Inl e
      | Inr r \<Rightarrow> map_sum id ((#) r) (call_records w rid (Suc n) cs))"

definition appendToolCalls :: "world \<Rightarrow> bytes \<Rightarrow> tool_call list \<Rightarrow> session \<Rightarrow> (engine_error, unit) result \<times> session" where
  "appendToolCalls w rid cs s = (case call_records w rid (s_tick s) cs of
     Inl e \<Rightarrow> (Inl (FromTranscript e), s\<lparr>s_tick := s_tick s + length cs + 1\<rparr>)
   | Inr rs \<Rightarrow> (let (q, s') = add_records w rs s in (q, s'\<lparr>s_tick := s_tick s' + length cs + 1\<rparr>)))"

subsection \<open>Events\<close>

definition persistEvent :: "world \<Rightarrow> bytes \<Rightarrow> ev_payload \<Rightarrow> session \<Rightarrow> (engine_error, event) result \<times> session" where
  "persistEvent w rid p s = (case ev_new (s_id s) rid (s_cursor s + 1) (now w s) (ev_kind_of p) p of
     Inl e \<Rightarrow> (Inl (FromEvent e), tick s)
   | Inr ev \<Rightarrow> (case s_durable s of
       None \<Rightarrow> (Inr ev, tick (s\<lparr>s_cursor := s_cursor s + 1\<rparr>))
     | Some st \<Rightarrow> (case on_store (AppendEvent (w_clock w) ev (io_now w s)) st s of
         (Inl e, s') \<Rightarrow> (Inl (FromStore e), tick s')
       | (Inr _, s') \<Rightarrow> (Inr ev, tick (s'\<lparr>s_cursor := s_cursor s' + 1\<rparr>)))))"

definition publishEvent :: "event \<Rightarrow> session \<Rightarrow> session" where
  "publishEvent ev s = s\<lparr>s_history := s_history s @ [ev],
     s_subs := map (\<lambda>n. n\<lparr>sn_sub := enqueue ev (sn_sub n)\<rparr>) (s_subs s)\<rparr>"

definition emit :: "world \<Rightarrow> bytes \<Rightarrow> ev_payload \<Rightarrow> session \<Rightarrow> (engine_error, unit) result \<times> session" where
  "emit w rid p s = seq (persistEvent w rid p s) (\<lambda>ev s'. (Inr (), publishEvent ev s'))"

subsection \<open>Faults, budgets, commands\<close>

definition faultSession :: "engine_error \<Rightarrow> session \<Rightarrow> session" where
  "faultSession e s = s\<lparr>s_state := StateFaulted, s_error := Some e,
     s_subs := map (\<lambda>n. n\<lparr>sn_sub := sub_close (sn_sub n)\<rparr>) (s_subs s),
     s_cancelled := False, s_partial := [], s_tool := None, s_run := None\<rparr>"

definition reserve :: "world \<Rightarrow> bytes \<Rightarrow> budget_counter \<Rightarrow> int \<Rightarrow> session \<Rightarrow> (engine_error, unit) result \<times> session" where
  "reserve w rid counter amount s = (case s_durable s of
     Some st \<Rightarrow> (let (r, s') = on_store (ReserveBudget rid counter amount (io_now w s)) st s
                 in (map_sum FromStore (\<lambda>_. ()) r, tick s'))
   | None \<Rightarrow> (let b = (case s_budget s rid of None \<Rightarrow> zero_budget | Some b \<Rightarrow> b) in
       case reserve_in counter amount b of
         Inl ErrBudgetExhausted \<Rightarrow> (Inl (FromStore ErrBudgetExhausted), tick s)
       | Inl _ \<Rightarrow> (Inr (), tick (s\<lparr>s_budget := (s_budget s)(rid := Some b)\<rparr>))
       | Inr b' \<Rightarrow> (Inr (), tick (s\<lparr>s_budget := (s_budget s)(rid := Some b')\<rparr>))))"

definition store_command_error :: "store_error \<Rightarrow> engine_error" where
  "store_command_error e = (case e of
     ErrDuplicateCommand \<Rightarrow> DuplicateCommand | ErrClosed \<Rightarrow> SessionClosed | _ \<Rightarrow> FromStore e)"

definition beginRun :: "world \<Rightarrow> bytes \<Rightarrow> session \<Rightarrow> (engine_error, bytes) result \<times> session" where
  "beginRun w c s = (case s_durable s of
     Some st \<Rightarrow> (case on_store (BeginRun c (now w s) (io_now w s)) st s of
         (Inl e, s') \<Rightarrow> (Inl (store_command_error e), tick s')
       | (Inr rid, s') \<Rightarrow> (Inr rid, tick (s'\<lparr>s_runs := m_next_run (st_manifest (the (s_durable s'))),
            s_seen := (s_seen s')(c := True)\<rparr>)))
   | None \<Rightarrow> (let n = s_runs s + 1 in (Inr (run_name n), tick (s\<lparr>s_runs := n,
       s_budget := (s_budget s)(run_name n := Some zero_budget), s_seen := (s_seen s)(c := True)\<rparr>))))"

definition recordCommand :: "world \<Rightarrow> bytes \<Rightarrow> session \<Rightarrow> (engine_error, unit) result \<times> session" where
  "recordCommand w c s = (case s_durable s of
     Some st \<Rightarrow> (case on_store (RecordCommand c (now w s) (io_now w s)) st s of
         (Inl e, s') \<Rightarrow> (Inl (if e = ErrDuplicateCommand then DuplicateCommand else FromStore e), tick s')
       | (Inr _, s') \<Rightarrow> (Inr (), tick (s'\<lparr>s_seen := (s_seen s')(c := True)\<rparr>)))
   | None \<Rightarrow> (Inr (), tick (s\<lparr>s_seen := (s_seen s)(c := True)\<rparr>)))"

text \<open>\<open>durable.Close\<close>, when there is a durable session.\<close>

definition closeDurable :: "world \<Rightarrow> session \<Rightarrow> (engine_error, unit) result \<times> session" where
  "closeDurable w s = (case s_durable s of
     None \<Rightarrow> (Inr (), s)
   | Some st \<Rightarrow> (let (r, s') = on_store (Close (now w s) (io_now w s)) st s in (map_sum FromStore id r, tick s')))"

text \<open>An operation whose error faults the session.\<close>

definition or_fault :: "(engine_error, 'a) result \<times> session \<Rightarrow> (engine_error, 'a) result \<times> session" where
  "or_fault p = (case p of (Inl e, s) \<Rightarrow> (Inl e, faultSession e s) | (Inr a, s) \<Rightarrow> (Inr a, s))"

subsection \<open>Commands\<close>

definition refreshDocs :: "world \<Rightarrow> session \<Rightarrow> (engine_error, unit) result \<times> session" where
  "refreshDocs w s = (case w_docs w of
     None \<Rightarrow> (Inr (), s)
   | Some src \<Rightarrow> (case src (s_tick s) of
       Inl e \<Rightarrow> (Inl (FromPrompt e), tick s)
     | Inr docs \<Rightarrow> (Inr (), tick (s\<lparr>s_docs := docs\<rparr>))))"

text \<open>The facts a new run starts with, and then the run itself.\<close>

definition startRun :: "world \<Rightarrow> bytes \<Rightarrow> bytes \<Rightarrow> session \<Rightarrow> (engine_error, unit) result \<times> session" where
  "startRun w rid prompt s =
     seq (appendPayload w rid (UserMessagePayload prompt) s) (\<lambda>_ s.
     seq (if s_docs s \<noteq> [] then appendPayload w rid (TranscriptPayload (s_docs s)) s else (Inr (), s)) (\<lambda>_ s.
     seq (emit w rid (RunStartedPayload prompt) s) (\<lambda>_ s.
       (Inr (), s\<lparr>s_cancelled := False, s_state := StateRunning, s_run := Some (rid, prompt, AtTop)\<rparr>))))"

definition applySubmit :: "world \<Rightarrow> command \<Rightarrow> session \<Rightarrow> (engine_error, unit) result \<times> session" where
  "applySubmit w cmd s =
    (if s_state s = StateClosed then (Inl SessionClosed, s)
     else if s_state s = StateRunning then (Inl RunActive, s)
     else (case DecodeSubmit cmd of
        Inl e \<Rightarrow> (Inl (CommandInvalid e), s)
      | Inr prompt \<Rightarrow>
         (case ValidatePrompt prompt of
            Inl _ \<Rightarrow>
              seq (recordCommand w (cmd_id cmd) s) (\<lambda>_ s.
              seq (or_fault (emit w [] (WarningPayload ''detected_credential_in_prompt'') s)) (\<lambda>_ s.
                (Inl SensitivePrompt, s)))
          | Inr _ \<Rightarrow>
              seq (refreshDocs w s) (\<lambda>_ s.
              (case beginRun w (cmd_id cmd) s of
                 (Inl e, s') \<Rightarrow> (Inl e, if e = DuplicateCommand \<or> e = SessionClosed then s' else faultSession e s')
               | (Inr rid, s') \<Rightarrow> or_fault (startRun w rid prompt s'))))))"

definition applyCancel :: "world \<Rightarrow> command \<Rightarrow> session \<Rightarrow> (engine_error, unit) result \<times> session" where
  "applyCancel w cmd s = seq (recordCommand w (cmd_id cmd) s) (\<lambda>_ s.
     (Inr (), if s_state s = StateRunning then s\<lparr>s_cancelled := True\<rparr> else s))"

definition applyResume :: "world \<Rightarrow> command \<Rightarrow> session \<Rightarrow> (engine_error, unit) result \<times> session" where
  "applyResume w cmd s =
    (if s_state s = StateClosed then (Inl SessionClosed, s)
     else if s_state s = StateRunning then (Inl RunActive, s)
     else seq (recordCommand w (cmd_id cmd) s) (\<lambda>_ s. or_fault (emit w [] SessionResumedPayload s)))"

definition applyClose :: "world \<Rightarrow> command \<Rightarrow> session \<Rightarrow> (engine_error, unit) result \<times> session" where
  "applyClose w cmd s =
    (if s_state s = StateRunning then (Inl RunActive, s)
     else seq (recordCommand w (cmd_id cmd) s) (\<lambda>_ s.
       if s_state s = StateClosed then (Inr (), s)
       else seq (or_fault (appendPayload w [] ClosedPayload s)) (\<lambda>_ s.
            seq (or_fault (closeDurable w s)) (\<lambda>_ s.
            or_fault (emit w [] SessionClosedPayload (s\<lparr>s_state := StateClosed\<rparr>))))))"

text \<open>\<open>Apply\<close>: \<open>gone\<close> is whether the caller's context is already done.\<close>

definition Apply :: "world \<Rightarrow> bool \<Rightarrow> command \<Rightarrow> session \<Rightarrow> (engine_error, unit) result \<times> session" where
  "Apply w gone cmd s =
    (if gone then (Inl CommandCancelled, s)
     else (case cmd_validate cmd of
        Inl e \<Rightarrow> (Inl (CommandInvalid e), s)
      | Inr _ \<Rightarrow>
         if cmd_session cmd \<noteq> [] \<and> cmd_session cmd \<noteq> s_id s then (Inl SessionMismatch, s)
         else if s_state s = StateFaulted then (Inl SessionFaulted, s)
         else if s_seen s (cmd_id cmd) then (Inl DuplicateCommand, s)
         else (case cmd_kind cmd of
             KindSubmit \<Rightarrow> applySubmit w cmd s
           | KindCancel \<Rightarrow> applyCancel w cmd s
           | KindResume \<Rightarrow> applyResume w cmd s
           | KindClose \<Rightarrow> applyClose w cmd s
           | KindUnknown _ \<Rightarrow> (Inl UnsupportedCommand, s))))"

subsection \<open>Observation and shutdown\<close>

record view =
  v_session :: bytes
  v_state :: sess_state
  v_closed :: bool
  v_cursor :: u64
  v_records :: "trecord list"
  v_partial :: bytes
  v_tool :: "(bytes \<times> bytes) option"

definition view_of :: "session \<Rightarrow> view" where
  "view_of s = \<lparr>v_session = s_id s, v_state = s_state s, v_closed = (s_state s = StateClosed), v_cursor = s_cursor s,
     v_records = s_records s, v_partial = s_partial s, v_tool = s_tool s\<rparr>"

definition Observe :: "u64 \<Rightarrow> session \<Rightarrow> view \<times> session" where
  "Observe after s = (view_of s, s\<lparr>s_subs := s_subs s @ [\<lparr>sn_after = after, sn_from = length (s_history s),
     sn_sub = newSubscriber (filter (\<lambda>ev. ev_cursor ev > after) (s_history s))\<rparr>]\<rparr>)"

definition Subscribe :: "session \<Rightarrow> view \<times> session" where
  "Subscribe s = Observe (s_cursor s) s"

definition unsubscribe :: "nat \<Rightarrow> session \<Rightarrow> session" where
  "unsubscribe i s = s\<lparr>s_subs := (s_subs s)[i := (s_subs s ! i)\<lparr>sn_sub := sub_close (sn_sub (s_subs s ! i))\<rparr>]\<rparr>"

text \<open>\<open>WaitIdle\<close> returns only when no run is active, and then the terminal error.\<close>

definition WaitIdle :: "session \<Rightarrow> (engine_error, unit) result option" where
  "WaitIdle s = (if s_state s = StateRunning then None
     else Some (case s_error s of None \<Rightarrow> Inr () | Some e \<Rightarrow> Inl e))"

text \<open>\<open>Shutdown\<close> before and after its wait for the run boundary.\<close>

definition shutdownCancel :: "session \<Rightarrow> session" where
  "shutdownCancel s = (if s_state s = StateRunning then s\<lparr>s_cancelled := True\<rparr> else s)"

definition shutdownClose :: "session \<Rightarrow> session" where
  "shutdownClose s = s\<lparr>s_subs := map (\<lambda>n. n\<lparr>sn_sub := sub_close (sn_sub n)\<rparr>) (s_subs s)\<rparr>"

subsection \<open>Opening\<close>

fun complete_calls :: "world \<Rightarrow> bytes \<Rightarrow> tpayload list \<Rightarrow> session \<Rightarrow> (engine_error, unit) result \<times> session" where
  "complete_calls w rid [] s = (Inr (), s)"
| "complete_calls w rid (c # cs) s =
     seq (appendPayload w rid (ToolResultPayload (call_id c) ToolResultInterrupted
       ''read-only tool call interrupted by process exit; not repeated automatically'') s)
     (\<lambda>_ s. complete_calls w rid cs s)"

definition isTerminal :: "kind \<Rightarrow> bool" where
  "isTerminal k \<longleftrightarrow> k = KindRunCompleted \<or> k = KindRunFailed \<or> k = KindRunCancelled"

definition closeOpenRecords :: "world \<Rightarrow> bytes \<Rightarrow> session \<Rightarrow> (engine_error, unit) result \<times> session" where
  "closeOpenRecords w rid s =
     (if list_ex (\<lambda>r. r_run r = rid \<and> r_kind r = KindRunOutcome) (s_records s) then (Inr (), s)
      else (case OpenToolCallsForRun (s_records s) rid of
         Inl e \<Rightarrow> (Inl (FromTranscript e), s)
       | Inr open \<Rightarrow> seq (complete_calls w rid open s)
           (\<lambda>_ s. appendPayload w rid (RunOutcomePayload RunOutcomeInterrupted CauseInterrupted) s)))"

definition closeOpenEvents :: "world \<Rightarrow> bytes \<Rightarrow> session \<Rightarrow> (engine_error, unit) result \<times> session" where
  "closeOpenEvents w rid s =
     (if list_ex (\<lambda>e. ev_run e = rid \<and> isTerminal (ev_kind e)) (s_history s) then (Inr (), s)
      else emit w rid (RunFailedPayload CauseInterrupted) s)"

definition reconcileDurable :: "world \<Rightarrow> bytes \<Rightarrow> session \<Rightarrow> (engine_error, unit) result \<times> session" where
  "reconcileDurable w rid s = (case s_durable s of
     None \<Rightarrow> (Inr (), s)
   | Some st \<Rightarrow> (let (r, s') = on_store (ReconcileRun rid (now w s) (io_now w s)) st s
                 in (map_sum FromStore id r, tick s')))"

definition reconcileInterrupted :: "world \<Rightarrow> bytes \<Rightarrow> session \<Rightarrow> (engine_error, unit) result \<times> session" where
  "reconcileInterrupted w rid s =
     seq (closeOpenRecords w rid s) (\<lambda>_ s.
     seq (closeOpenEvents w rid s) (\<lambda>_ s.
     seq (reconcileDurable w rid s) (\<lambda>_ s.
       (map_sum FromTranscript id (ValidateTranscript (s_records s)), s))))"

definition fresh_session :: "bytes \<Rightarrow> instruction list \<Rightarrow> session" where
  "fresh_session i docs = \<lparr>s_id = i, s_state = StateIdle, s_seen = (\<lambda>_. False), s_cursor = 0, s_runs = 0,
     s_history = [], s_records = [], s_subs = [], s_partial = [], s_tool = None, s_budget = (\<lambda>_. None),
     s_cancelled = False, s_error = None, s_docs = docs, s_durable = None, s_run = None, s_tick = 0\<rparr>"

definition load_session :: "store \<Rightarrow> session \<Rightarrow> session" where
  "load_session st s = (let m = st_manifest st in
     s\<lparr>s_durable := Some st, s_cursor := m_event_cursor m, s_runs := m_next_run m, s_history := st_events st,
       s_records := st_transcript st, s_seen := (\<lambda>c. m_seen m c \<noteq> None)\<rparr>)"

text \<open>The close facts of the two logs, checked against the manifest.\<close>

definition close_records :: "trecord list \<Rightarrow> nat" where
  "close_records rs = length (filter (\<lambda>r. r_kind r = KindClosed) rs)"

definition close_events :: "event list \<Rightarrow> nat" where
  "close_events evs = length (filter (\<lambda>e. ev_kind e = KindSessionClosed) evs)"

definition close_facts_bad :: "manifest \<Rightarrow> nat \<Rightarrow> nat \<Rightarrow> bool" where
  "close_facts_bad m rs evs \<longleftrightarrow> rs > 1 \<or> evs > 1 \<or> (m_closed m \<and> rs \<noteq> 1) \<or> (evs > 0 \<and> rs \<noteq> 1) \<or>
     (rs = 1 \<and> m_active m \<noteq> None)"

definition NewSession :: "world \<Rightarrow> bytes \<Rightarrow> instruction list \<Rightarrow> store option \<Rightarrow> (engine_error, unit) result \<times> session" where
  "NewSession w i docs durable = (case durable of
     None \<Rightarrow> (if i = [] then (Inl IDRequired, fresh_session i docs) else (Inr (), fresh_session i docs))
   | Some st \<Rightarrow>
      (let m = st_manifest st; j = (if i = [] then m_session m else i);
           s = load_session st (fresh_session j docs);
           crs = close_records (s_records s); ces = close_events (s_history s) in
       if j \<noteq> m_session m then (Inl IDMismatch, fresh_session j docs)
       else if j = [] then (Inl IDRequired, fresh_session j docs)
       else if close_facts_bad m crs ces then (Inl CloseFacts, s)
       else seq (case m_active m of None \<Rightarrow> (Inr (), s) | Some (rid, _) \<Rightarrow> reconcileInterrupted w rid s) (\<lambda>_ s.
         if crs \<noteq> 1 then (Inr (), s)
         else seq (if m_closed m then (Inr (), s) else closeDurable w s) (\<lambda>_ s.
           let s1 = s\<lparr>s_state := StateClosed\<rparr>
           in if ces = 0 then emit w [] SessionClosedPayload s1 else (Inr (), s1)))))"

end
