(* ===== verification/Runloop.thy ===== *)
theory Runloop
  imports Session
begin

text \<open>
  \<open>internal/engine/session.go\<close>: the goroutine of a run. \<open>run_step\<close> moves it from one point at
  which the session's lock is released, or a call leaves the package, to the next; between
  two moves any other operation of the session can come (\<open>sess_step\<close>). Of a provider it is
  assumed that an error of the text callback ends the attempt with that error.
\<close>

subsection \<open>Retries and failures\<close>

definition retryable :: "failure_class \<Rightarrow> bool" where
  "retryable c \<longleftrightarrow> c = ClassRateLimit \<or> c = ClassTransient \<or> c = ClassOverloaded"

definition millisecond :: int where "millisecond = 1000000"

fun retry_loop :: "nat \<Rightarrow> int \<Rightarrow> int" where
  "retry_loop 0 delay = (if delay > 30 * second then 30 * second else delay)"
| "retry_loop (Suc n) delay = (if delay \<ge> 30 * second then 30 * second else retry_loop n (i64 (delay * 2)))"

definition retryDelay :: "nat \<Rightarrow> int" where
  "retryDelay k = retry_loop k (500 * millisecond)"

text \<open>The delay before the next attempt; \<open>jitter\<close> is the configured function.\<close>

definition next_delay :: "(int \<Rightarrow> int) \<Rightarrow> failure \<Rightarrow> nat \<Rightarrow> int" where
  "next_delay jitter f k =
    (let d = (if f_retry_after f > 0 then (if f_retry_after f > 120 * second then 120 * second else f_retry_after f)
              else jitter (retryDelay k))
     in if d < 0 then 0 else d)"

fun class_text :: "failure_class \<Rightarrow> bytes" where
  "class_text ClassPermanent = ''permanent''"
| "class_text ClassProtocol = ''protocol''"
| "class_text ClassRateLimit = ''rate_limit''"
| "class_text ClassTransient = ''transient''"
| "class_text ClassOverloaded = ''overloaded''"
| "class_text ClassContextOverflow = ''context_overflow''"
| "class_text ClassOutputLimit = ''output_limit''"
| "class_text ClassCancelled = ''cancelled''"

fun failureCause :: "engine_error call_error \<Rightarrow> bytes" where
  "failureCause (Callback e) =
     (if e = FromStore ErrBudgetExhausted then CauseBudgetExhausted
      else if e = FromPrompt ErrContextLimit then CauseContextLimit else CauseEngineInvariant)"
| "failureCause (Failed f) = (case f_class f of
     ClassPermanent \<Rightarrow> CauseProviderPermanent
   | ClassProtocol \<Rightarrow> CauseProviderProtocol
   | ClassContextOverflow \<Rightarrow> CauseContextLimit
   | ClassOutputLimit \<Rightarrow> CauseProviderOutput
   | ClassRateLimit \<Rightarrow> CauseProviderTransient
   | ClassTransient \<Rightarrow> CauseProviderTransient
   | ClassOverloaded \<Rightarrow> CauseProviderTransient
   | ClassCancelled \<Rightarrow> CauseEngineInvariant)"
| "failureCause CtxDone = CauseEngineInvariant"

fun validate_calls :: "bytes list \<Rightarrow> tool_call list \<Rightarrow> bool" where
  "validate_calls seen [] = True"
| "validate_calls seen (c # cs) =
     (\<not> (tc_id c = [] \<or> tc_name c = [] \<or> \<not> json_valid (tc_args c) \<or> tc_id c \<in> set seen) \<and>
      validate_calls (tc_id c # seen) cs)"

definition validateToolCalls :: "tool_call list \<Rightarrow> bool" where
  "validateToolCalls cs = validate_calls [] cs"

definition buildRequest :: "world \<Rightarrow> bytes \<Rightarrow> session \<Rightarrow> (prompt_error, request) result" where
  "buildRequest w goal s = (case w_assembler w of
     None \<Rightarrow> Inr \<lparr>req_prompt = goal, req_stable = [], req_dynamic = [], req_messages = [], req_tools = [],
                  req_max_output = 0\<rparr>
   | Some cfg \<Rightarrow> Build cfg goal (s_docs s) (s_records s) (Catalog (w_broker w)))"

subsection \<open>The end of a run\<close>

definition finishDurable :: "world \<Rightarrow> bytes \<Rightarrow> session \<Rightarrow> (engine_error, unit) result \<times> session" where
  "finishDurable w rid s = (case s_durable s of
     None \<Rightarrow> (Inr (), s)
   | Some st \<Rightarrow> (let (r, s') = on_store (FinishRun rid (now w s) (io_now w s)) st s
                 in (map_sum FromStore id r, tick s')))"

definition outcome_event :: "bytes \<Rightarrow> bytes \<Rightarrow> ev_payload" where
  "outcome_event oc cause =
     (if oc = RunOutcomeCancelled then RunCancelledPayload
      else if oc = RunOutcomeFailed \<or> oc = RunOutcomeInterrupted then RunFailedPayload cause
      else RunCompletedPayload)"

definition finish_facts :: "world \<Rightarrow> bytes \<Rightarrow> bytes \<Rightarrow> bytes \<Rightarrow> session \<Rightarrow> (engine_error, event) result \<times> session" where
  "finish_facts w rid oc cause s =
     seq (if oc = RunOutcomeCancelled then appendPayload w rid CancellationBoundaryPayload s else (Inr (), s)) (\<lambda>_ s.
     seq (appendPayload w rid (RunOutcomePayload oc cause) s) (\<lambda>_ s.
     seq (persistEvent w rid (outcome_event oc cause) s) (\<lambda>ev s.
     seq (finishDurable w rid s) (\<lambda>_ s. (Inr ev, s)))))"

definition finishRun :: "world \<Rightarrow> bytes \<Rightarrow> bytes \<Rightarrow> bytes \<Rightarrow> session \<Rightarrow> session" where
  "finishRun w rid oc cause s = (case finish_facts w rid oc cause s of
     (Inl e, s') \<Rightarrow> faultSession e s'
   | (Inr ev, s') \<Rightarrow> (publishEvent ev s')\<lparr>s_state := StateIdle, s_error := None, s_cancelled := False,
        s_partial := [], s_tool := None, s_run := None\<rparr>)"

subsection \<open>One move\<close>

definition goto :: "bytes \<Rightarrow> bytes \<Rightarrow> pc \<Rightarrow> session \<Rightarrow> session" where
  "goto rid goal p s = s\<lparr>s_run := Some (rid, goal, p)\<rparr>"

text \<open>Text given to the observer of the run: \<open>s.partial += safe\<close> and the delta event.\<close>

definition emit_delta :: "world \<Rightarrow> bytes \<Rightarrow> bytes \<Rightarrow> session \<Rightarrow> (engine_error, unit) result \<times> session" where
  "emit_delta w rid safe s = emit w rid (AssistantDeltaPayload safe) (s\<lparr>s_partial := s_partial s @ safe\<rparr>)"

definition next_attempt :: "request \<Rightarrow> nat \<Rightarrow> bool \<Rightarrow> (failure option, response) result \<Rightarrow> bytes \<Rightarrow> stream_redactor \<Rightarrow> pc" where
  "next_attempt req k cancelled fin streamed rd = (case fin of
     Inr resp \<Rightarrow> AtEnded (Inr resp) streamed rd
   | Inl None \<Rightarrow> AtEnded (Inl CtxDone) streamed rd
   | Inl (Some f) \<Rightarrow> (if cancelled \<or> \<not> retryable (f_class f) \<or> k \<ge> 8 then AtEnded (Inl (Failed f)) streamed rd
                     else AtBackoff req k f))"

definition decide :: "bool \<Rightarrow> call_end \<Rightarrow> bytes \<Rightarrow> pc" where
  "decide cancelled res streamed =
     (if cancelled then AtFinish RunOutcomeCancelled []
      else (case res of
         Inl e \<Rightarrow> AtFinish RunOutcomeFailed (failureCause e)
       | Inr resp \<Rightarrow>
          (let projected = pt_content (ProjectText (resp_text resp)) in
           if streamed \<noteq> [] \<and> streamed \<noteq> projected then AtFinish RunOutcomeFailed CauseEngineInvariant
           else if resp_reason resp = ReasonLength \<and> resp_calls resp = []
                then AtFinish RunOutcomeFailed CauseProviderOutput
           else AtBlock resp projected)))"

text \<open>The assistant block, under one hold of the lock.\<close>

definition assistant_block :: "world \<Rightarrow> bytes \<Rightarrow> response \<Rightarrow> bytes \<Rightarrow> session \<Rightarrow> (engine_error, unit) result \<times> session" where
  "assistant_block w rid resp projected s =
     (if projected = [] then (Inr (), s)
      else if resp_reason resp = ReasonLength then (Inr (), s\<lparr>s_partial := []\<rparr>)
      else (let (r, s') = seq (appendPayload w rid (AssistantBlockPayload projected) s)
                              (\<lambda>_ s. emit w rid (AssistantTextPayload projected) s)
            in (r, s'\<lparr>s_partial := []\<rparr>)))"

definition after_block :: "tool_call list \<Rightarrow> pc" where
  "after_block cs =
     (if cs = [] then AtFinish RunOutcomeCompleted []
      else if \<not> validateToolCalls cs then AtFinish RunOutcomeFailed CauseProviderProtocol
      else AtCalls cs)"

definition tool_facts :: "world \<Rightarrow> bytes \<Rightarrow> tool_call \<Rightarrow> tool_result \<Rightarrow> session \<Rightarrow> (engine_error, unit) result \<times> session" where
  "tool_facts w rid c r s =
     (let (q, s1) = appendPayload w rid (result_payload r) s; s2 = s1\<lparr>s_tool := None\<rparr>
      in seq (q, s2) (\<lambda>_ s. emit w rid (ToolFinishedPayload (tc_id c) (tr_outcome r)) s))"

text \<open>The parts of \<open>completeWithRetry\<close>: an attempt, its text, a failure, the wait for the next one.\<close>

definition start_attempt :: "world \<Rightarrow> bytes \<Rightarrow> bytes \<Rightarrow> request \<Rightarrow> nat \<Rightarrow> session \<Rightarrow> session" where
  "start_attempt w rid goal req k s = (case reserve w rid BudgetTransportAttempt 0 s of
     (Inl e, s') \<Rightarrow> goto rid goal (AtEnded (Inl (Callback e)) [] NewStreamRedactor) s'
   | (Inr _, s') \<Rightarrow> (let (ds, fin) = w_call w (s_tick s') req
        in goto rid goal (AtStream req k ds fin [] NewStreamRedactor) (tick s')))"

definition onText :: "world \<Rightarrow> bytes \<Rightarrow> bytes \<Rightarrow> request \<Rightarrow> nat \<Rightarrow> bytes \<Rightarrow> bytes list \<Rightarrow> (failure option, response) result
    \<Rightarrow> bytes \<Rightarrow> stream_redactor \<Rightarrow> session \<Rightarrow> session" where
  "onText w rid goal req k d ds fin streamed rd s =
     (let (rd', safe) = sr_write NewDetector d rd in
      if safe = [] then goto rid goal (AtStream req k ds fin streamed rd') s
      else (case emit_delta w rid safe s of
         (Inl e, s') \<Rightarrow> goto rid goal (AtEnded (Inl (Callback e)) (streamed @ safe) rd') s'
       | (Inr _, s') \<Rightarrow> goto rid goal (AtStream req k ds fin (streamed @ safe) rd') s'))"

definition schedule_retry :: "world \<Rightarrow> bytes \<Rightarrow> bytes \<Rightarrow> request \<Rightarrow> nat \<Rightarrow> failure \<Rightarrow> session \<Rightarrow> session" where
  "schedule_retry w rid goal req k f s =
     (let delay = next_delay (w_jitter w (s_tick s)) f k in
      case reserve w rid BudgetRetryDelay delay s of
        (Inl e, s') \<Rightarrow> goto rid goal (AtEnded (Inl (Callback e)) [] NewStreamRedactor) s'
      | (Inr _, s') \<Rightarrow> goto rid goal (AtReset req k f delay) s')"

definition resetStream :: "session \<Rightarrow> session" where
  "resetStream s = s\<lparr>s_partial := []\<rparr>"

definition announce_retry :: "world \<Rightarrow> bytes \<Rightarrow> bytes \<Rightarrow> request \<Rightarrow> nat \<Rightarrow> failure \<Rightarrow> int \<Rightarrow> session \<Rightarrow> session" where
  "announce_retry w rid goal req k f delay s =
     (case emit w rid (RetryScheduledPayload (int k + 1) (delay div millisecond) (class_text (f_class f))) s of
        (Inl e, s') \<Rightarrow> goto rid goal (AtEnded (Inl (Callback e)) [] NewStreamRedactor) s'
      | (Inr _, s') \<Rightarrow> goto rid goal (AtSleep req k) s')"

definition wait_retry :: "world \<Rightarrow> bytes \<Rightarrow> bytes \<Rightarrow> request \<Rightarrow> nat \<Rightarrow> session \<Rightarrow> session" where
  "wait_retry w rid goal req k s =
     goto rid goal (if s_cancelled s \<and> w_wakes w (s_tick s) then AtEnded (Inl CtxDone) [] NewStreamRedactor
                    else AtAttempt req (Suc k)) (tick s)"

text \<open>The rest of the text once the call is over, and the start and the execution of a tool.\<close>

definition close_stream :: "world \<Rightarrow> bytes \<Rightarrow> bytes \<Rightarrow> call_end \<Rightarrow> bytes \<Rightarrow> stream_redactor \<Rightarrow> session \<Rightarrow> session" where
  "close_stream w rid goal res streamed rd s =
     (let trailing = (if is_ok res then snd (sr_close NewDetector rd) else []) in
      if trailing = [] then goto rid goal (AtDecide res streamed) s
      else (case emit_delta w rid trailing s of
         (Inl e, s') \<Rightarrow> goto rid goal (AtDecide (Inl (Callback e)) (streamed @ trailing)) s'
       | (Inr _, s') \<Rightarrow> goto rid goal (AtDecide res (streamed @ trailing)) s'))"

definition next_tool :: "world \<Rightarrow> bytes \<Rightarrow> bytes \<Rightarrow> tool_call \<Rightarrow> bool \<Rightarrow> (tool_call \<times> bool) list \<Rightarrow> bool \<Rightarrow> bool
    \<Rightarrow> session \<Rightarrow> session" where
  "next_tool w rid goal c sensitive rest stopped blocked s =
     (if stopped then goto rid goal (AtResult c (SkippedResult (tc_id c)) rest stopped blocked) s
      else if sensitive then goto rid goal (AtResult c (BlockedResult (tc_id c)) rest stopped True) s
      else (case emit w rid (ToolStartedPayload (tc_id c) (tc_name c)) (s\<lparr>s_tool := Some (tc_id c, tc_name c)\<rparr>) of
         (Inl e, s') \<Rightarrow> faultSession e s'
       | (Inr _, s') \<Rightarrow> goto rid goal (AtExecute c (s_cancelled s') rest stopped blocked) s'))"

lemmas step_parts [simp] = start_attempt_def onText_def schedule_retry_def resetStream_def announce_retry_def
  wait_retry_def close_stream_def next_tool_def

fun step_at :: "world \<Rightarrow> bytes \<Rightarrow> bytes \<Rightarrow> pc \<Rightarrow> session \<Rightarrow> session" where
  "step_at w rid goal AtTop s =
     (if s_cancelled s then goto rid goal (AtFinish RunOutcomeCancelled []) s
      else (case buildRequest w goal s of
         Inl _ \<Rightarrow> goto rid goal (AtFinish RunOutcomeFailed CauseContextLimit) s
       | Inr req \<Rightarrow> goto rid goal (AtReserve req) s))"
| "step_at w rid goal (AtReserve req) s = (case reserve w rid BudgetLogicalModelCall 0 s of
     (Inl _, s') \<Rightarrow> goto rid goal (AtFinish RunOutcomeFailed CauseBudgetExhausted) s'
   | (Inr _, s') \<Rightarrow> goto rid goal (AtAttempt req 0) s')"
| "step_at w rid goal (AtAttempt req k) s = start_attempt w rid goal req k s"
| "step_at w rid goal (AtStream req k [] fin streamed rd) s =
     goto rid goal (next_attempt req k (s_cancelled s) fin streamed rd) s"
| "step_at w rid goal (AtStream req k (d # ds) fin streamed rd) s = onText w rid goal req k d ds fin streamed rd s"
| "step_at w rid goal (AtBackoff req k f) s = schedule_retry w rid goal req k f s"
| "step_at w rid goal (AtReset req k f delay) s = goto rid goal (AtAnnounce req k f delay) (resetStream s)"
| "step_at w rid goal (AtAnnounce req k f delay) s = announce_retry w rid goal req k f delay s"
| "step_at w rid goal (AtSleep req k) s = wait_retry w rid goal req k s"
| "step_at w rid goal (AtEnded res streamed rd) s = close_stream w rid goal res streamed rd s"
| "step_at w rid goal (AtDecide res streamed) s =
     (let p = decide (s_cancelled s) res streamed
      in goto rid goal p (if p = AtFinish RunOutcomeFailed CauseProviderOutput \<and> is_ok res
                          then s\<lparr>s_partial := []\<rparr> else s))"
| "step_at w rid goal (AtBlock resp projected) s = (case assistant_block w rid resp projected s of
     (Inl _, s') \<Rightarrow> goto rid goal (AtFinish RunOutcomeFailed CauseEngineInvariant) s'
   | (Inr _, s') \<Rightarrow> goto rid goal (after_block (resp_calls resp)) s')"
| "step_at w rid goal (AtCalls cs) s =
     (let (safe, sensitive) = ProjectCalls (w_lib w) cs in
      case appendToolCalls w rid safe s of
        (Inl e, s') \<Rightarrow> faultSession e s'
      | (Inr _, s') \<Rightarrow> goto rid goal (AtTool (zip safe sensitive) False False) s')"
| "step_at w rid goal (AtTool [] stopped blocked) s = goto rid goal (AtAfter blocked) s"
| "step_at w rid goal (AtTool ((c, sensitive) # rest) stopped blocked) s =
     next_tool w rid goal c sensitive rest stopped blocked s"
| "step_at w rid goal (AtExecute c gone rest stopped blocked) s =
     (let r = Execute (w_lib w) (w_broker w) (\<lambda>n. gone \<or> (s_cancelled s \<and> w_phase w (s_tick s) \<le> n)) c
      in goto rid goal (AtResult c r rest stopped blocked) (tick s))"
| "step_at w rid goal (AtResult c r rest stopped blocked) s = (case tool_facts w rid c r s of
     (Inl e, s') \<Rightarrow> faultSession e s'
   | (Inr _, s') \<Rightarrow> goto rid goal (AtTool rest (stopped \<or> tr_outcome r \<noteq> ToolResultSuccess) blocked) s')"
| "step_at w rid goal (AtAfter blocked) s =
     (if s_cancelled s then goto rid goal (AtFinish RunOutcomeCancelled []) s
      else if blocked then goto rid goal (AtFinish RunOutcomeFailed CauseSensitiveContent) s
      else goto rid goal AtTop s)"
| "step_at w rid goal (AtFinish oc cause) s = finishRun w rid oc cause s"

definition run_step :: "world \<Rightarrow> session \<Rightarrow> session" where
  "run_step w s = (case s_run s of None \<Rightarrow> s | Some (rid, goal, p) \<Rightarrow> step_at w rid goal p s)"

subsection \<open>All moves of a session\<close>

inductive other_step :: "world \<Rightarrow> session \<Rightarrow> session \<Rightarrow> bool" for w s where
  command: "other_step w s (snd (Apply w gone cmd s))"
| observe: "other_step w s (snd (Observe after s))"
| leave: "i < length (s_subs s) \<Longrightarrow> other_step w s (unsubscribe i s)"
| deliver: "i < length (s_subs s) \<Longrightarrow> sub_step (sn_sub (s_subs s ! i)) t \<Longrightarrow>
    other_step w s (s\<lparr>s_subs := (s_subs s)[i := (s_subs s ! i)\<lparr>sn_sub := t\<rparr>]\<rparr>)"
| stop: "other_step w s (shutdownCancel s)"
| shut: "other_step w s (shutdownClose s)"

inductive sess_step :: "world \<Rightarrow> session \<Rightarrow> session \<Rightarrow> bool" for w s where
  run: "s_run s \<noteq> None \<Longrightarrow> sess_step w s (run_step w s)"
| other: "other_step w s s' \<Longrightarrow> sess_step w s s'"

inductive reach :: "world \<Rightarrow> session \<Rightarrow> session \<Rightarrow> bool" for w s where
  start: "reach w s s"
| step: "reach w s s1 \<Longrightarrow> sess_step w s1 s2 \<Longrightarrow> reach w s s2"

inductive_cases sess_stepE: "sess_step w s t"
inductive_cases other_stepE: "other_step w s t"

end
