(* ===== verification/Durability.thy ===== *)
theory Durability
  imports Store
begin

text \<open>
  What the store promises. \<open>durable_ok\<close> says that the directory holds exactly the session object;
  every operation whose writes succeed keeps it, so that \<open>Open\<close> gives the object back, and
  an operation cut short by a failed, torn or unsynced write leaves a directory that opens
  with every committed fact or is rejected. The second part is about the manifest's own
  invariants: budgets, command identities and run names, whatever the writes do.
\<close>

datatype store_op =
    OpAppend "trecord list" | OpEvent event | OpBegin bytes gotime | OpRecord bytes gotime
  | OpFinish bytes gotime | OpReconcile bytes gotime | OpClose gotime
  | OpReserve bytes budget_counter int

definition drop_value :: "('e, 'a) result \<times> 's \<Rightarrow> ('e, unit) result \<times> 's" where
  "drop_value p = map_prod (map_sum id (\<lambda>_. ())) id p"

fun run_op :: "clock_text \<Rightarrow> store_op \<Rightarrow> io \<Rightarrow> store \<Rightarrow> (store_error, unit) result \<times> store" where
  "run_op ct (OpAppend rs) io s = drop_value (AppendTranscript ct rs io s)"
| "run_op ct (OpEvent e) io s = AppendEvent ct e io s"
| "run_op ct (OpBegin c t) io s = drop_value (BeginRun c t io s)"
| "run_op ct (OpRecord c t) io s = RecordCommand c t io s"
| "run_op ct (OpFinish r t) io s = FinishRun r t io s"
| "run_op ct (OpReconcile r t) io s = ReconcileRun r t io s"
| "run_op ct (OpClose t) io s = Close t io s"
| "run_op ct (OpReserve r k n) io s = drop_value (ReserveBudget r k n io s)"

subsection \<open>The directory holds the object\<close>

definition manifest_ok :: "stdlib \<Rightarrow> manifest \<Rightarrow> bool" where
  "manifest_ok lib m \<longleftrightarrow> m_format m = FormatVersion \<and> validateSessionID (m_session m) \<and>
     manifest_identity_ok lib (m_session m) m \<and> active_ok m"

definition counted :: "store \<Rightarrow> bool" where
  "counted s \<longleftrightarrow> m_transcript_seq (st_manifest s) = of_nat (length (st_transcript s)) \<and>
     m_event_cursor (st_manifest s) = of_nat (length (st_events s))"

definition logs_ok :: "clock_text \<Rightarrow> store \<Rightarrow> bool" where
  "logs_ok ct s \<longleftrightarrow>
     readJSONLines (record_read ct) (d_transcript (st_disk s)) = Some (st_transcript s) \<and>
     readJSONLines (event_read ct) (d_events (st_disk s)) = Some (st_events s) \<and>
     valid_log (st_transcript s) \<and> events_ok (m_session (st_manifest s)) (st_events s)"

definition durable_ok :: "stdlib \<Rightarrow> clock_text \<Rightarrow> store \<Rightarrow> bool" where
  "durable_ok lib ct s \<longleftrightarrow> d_manifest (st_disk s) = GoodManifest (st_manifest s) \<and>
     manifest_ok lib (st_manifest s) \<and> counted s \<and> logs_ok ct s"

lemma Open_exact:
  assumes "durable_ok lib ct s"
  shows "Open lib ct (m_session (st_manifest s)) (SessionDir (st_disk s)) = Inr s"
  using assms by (simp add: durable_ok_def manifest_ok_def counted_def logs_ok_def Open_def)

text \<open>
  \<open>Open\<close> looks at the manifest, at the transcript and at the events in turn; this is what it
  makes of a good manifest.
\<close>

lemma Open_parts:
  assumes "d_manifest d = GoodManifest m" "manifest_ok lib m"
    and "readJSONLines (record_read ct) (d_transcript d) = Some rs" "valid_log rs"
    and "readJSONLines (event_read ct) (d_events d) = Some evs" "events_ok (m_session m) evs"
    and "m_transcript_seq m \<le> of_nat (length rs)" "m_event_cursor m \<le> of_nat (length evs)"
  shows "Open lib ct (m_session m) (SessionDir d) =
    Inr \<lparr>st_manifest = m\<lparr>m_transcript_seq := of_nat (length rs), m_event_cursor := of_nat (length evs)\<rparr>,
         st_transcript = rs, st_events = evs, st_disk = d\<rparr>"
  using assms by (simp add: manifest_ok_def Open_def not_less)

lemma Open_unreadable:
  assumes "d_manifest d = GoodManifest m" "manifest_ok lib m"
    and "readJSONLines (record_read ct) (d_transcript d) = None \<or> readJSONLines (event_read ct) (d_events d) = None"
  shows "Open lib ct (m_session m) (SessionDir d) = Inl ErrCorrupt"
  using assms by (auto simp: manifest_ok_def Open_def split: option.split)

subsection \<open>What each operation asks of its caller\<close>

text \<open>
  The appended facts keep the log valid (the store checks records one by one only), have lines
  that can be read back, and times are not zero.
\<close>

fun op_ok :: "clock_text \<Rightarrow> store_op \<Rightarrow> store \<Rightarrow> bool" where
  "op_ok ct (OpAppend rs) s = (case assign_seq (m_transcript_seq (st_manifest s)) rs of
     Inl _ \<Rightarrow> True
   | Inr as \<Rightarrow> valid_log (st_transcript s @ as) \<and> (\<forall>a \<in> set as. record_ok ct a))"
| "op_ok ct (OpEvent e) s = (ev_validate e = Inr () \<and> event_ok ct e)"
| "op_ok ct (OpBegin c t) s = (t \<noteq> 0)"
| "op_ok ct (OpRecord c t) s = (t \<noteq> 0)"
| "op_ok ct (OpFinish r t) s = (t \<noteq> 0)"
| "op_ok ct (OpReconcile r t) s = (t \<noteq> 0)"
| "op_ok ct (OpClose t) s = (t \<noteq> 0)"
| "op_ok ct (OpReserve r k n) s = True"

lemma run_name_nonempty [simp]: "run_name n \<noteq> []"
  by (simp add: run_name_def)

lemma run_name_inject [simp]: "run_name m = run_name n \<longleftrightarrow> m = n"
  by (simp add: run_name_def word_unat_eq_iff)

lemma run_name_safe [simp]: "list_all safe_char (run_name n)"
proof -
  have "is_digit c \<Longrightarrow> safe_char c" for c
    by (auto simp: is_digit_def byte_in_def safe_char_def)
  then show ?thesis
    by (auto simp: run_name_def list_all_iff safe_char_def dest: show_nat_digits)
qed

lemma assign_seq_props:
  "assign_seq n rs = Inr as \<Longrightarrow> length as = length rs \<and> (\<forall>a \<in> set as. Validate a = Inr () \<and> r_time a \<noteq> 0)"
proof (induction n rs arbitrary: as rule: assign_seq.induct)
  case (2 n r rs)
  from "2.prems" obtain u bs where u: "Validate (r\<lparr>r_seq := n + 1\<rparr>) = Inr u" "assign_seq (n + 1) rs = Inr bs"
    "as = r\<lparr>r_seq := n + 1\<rparr> # bs"
    by (cases "assign_seq (n + 1) rs") (auto simp: Let_def split: sum.splits)
  with "2.IH" [OF refl u(1) u(2)] show ?case by (auto simp: Validate_def split: if_splits)
qed simp

text \<open>The manifest an operation leaves behind when its writes succeed is a good one.\<close>

lemma identity_updates [simp]:
  "manifest_identity_ok lib i (m\<lparr>m_transcript_seq := n\<rparr>) = manifest_identity_ok lib i m"
  "manifest_identity_ok lib i (m\<lparr>m_event_cursor := n\<rparr>) = manifest_identity_ok lib i m"
  "manifest_identity_ok lib i (m\<lparr>m_seen := f\<rparr>) = manifest_identity_ok lib i m"
  "manifest_identity_ok lib i (m\<lparr>m_next_run := n\<rparr>) = manifest_identity_ok lib i m"
  "manifest_identity_ok lib i (m\<lparr>m_budgets := g\<rparr>) = manifest_identity_ok lib i m"
  "manifest_identity_ok lib i (m\<lparr>m_active := a\<rparr>) = manifest_identity_ok lib i m"
  "manifest_identity_ok lib i (m\<lparr>m_closed := b\<rparr>) = manifest_identity_ok lib i m"
  "t \<noteq> 0 \<Longrightarrow> manifest_identity_ok lib i m \<Longrightarrow> manifest_identity_ok lib i (m\<lparr>m_updated := t\<rparr>)"
  by (simp_all add: manifest_identity_ok_def)

lemma active_updates [simp]:
  "active_ok (m\<lparr>m_transcript_seq := n\<rparr>) = active_ok m"
  "active_ok (m\<lparr>m_event_cursor := n\<rparr>) = active_ok m"
  "active_ok (m\<lparr>m_seen := f\<rparr>) = active_ok m"
  "active_ok (m\<lparr>m_next_run := n\<rparr>) = active_ok m"
  "active_ok (m\<lparr>m_updated := t\<rparr>) = active_ok m"
  "active_ok (m\<lparr>m_closed := b\<rparr>) = active_ok m"
  "active_ok (m\<lparr>m_active := None\<rparr>)"
  by (simp_all add: active_ok_def split: option.split)

lemma active_budget [simp]:
  "active_ok m \<Longrightarrow> active_ok (m\<lparr>m_budgets := (m_budgets m)(r := Some b)\<rparr>)"
  by (auto simp: active_ok_def split: option.splits)

subsection \<open>Appends\<close>

context line_codec
begin

text \<open>
  One append, whatever the file system does: a reported success is readable in full, and a
  failure leaves an unreadable file or some first part of what was to be written.
\<close>

lemma append_log_read:
  assumes "readJSONLines dec f = Some old" "\<forall>a \<in> set as. ok a" "append_log enc as io f = (b, f')"
  shows "b \<Longrightarrow> readJSONLines dec f' = Some (old @ as)"
    and "readJSONLines dec f' = None \<and> (\<exists>n. io = IoTorn n) \<or> (\<exists>n \<le> length as. readJSONLines dec f' = Some (old @ take n as))"
proof -
  have all: "(b \<longrightarrow> readJSONLines dec f' = Some (old @ as)) \<and>
    (readJSONLines dec f' = None \<and> (\<exists>n. io = IoTorn n) \<or> (\<exists>n \<le> length as. readJSONLines dec f' = Some (old @ take n as)))"
  proof (cases "as = []")
    case True
    with assms show ?thesis by (auto simp: append_log_def)
  next
    case False
    from encode_some [OF assms(2)] obtain t where t: "encode_lines enc as = Some t" by blast
    define d where "d = (case f of None \<Rightarrow> [] | Some d \<Rightarrow> d)"
    from read_append [OF assms(1,2)] t False have whole: "readJSONLines dec (Some (d @ t)) = Some (old @ as)"
      by (simp add: appendJSONLines_def d_def)
    have full: "\<exists>n \<le> length as. readJSONLines dec (Some (d @ t)) = Some (old @ take n as)"
      using whole by (intro exI [of _ "length as"]) simp
    have none: "\<exists>n \<le> length as. readJSONLines dec f = Some (old @ take n as)"
      using assms(1) by (intro exI [of _ 0]) simp
    from assms(3) t False have eq: "(b, f') = (case io of IoOpen \<Rightarrow> (False, f) | IoTorn n \<Rightarrow> (False, Some (d @ take n t))
        | IoSync \<Rightarrow> (False, Some (d @ t)) | _ \<Rightarrow> (True, Some (d @ t)))"
      by (simp add: append_log_def Let_def flip: d_def)
    show ?thesis
    proof (cases io)
      case (IoTorn n)
      from t have "encode_lines enc as = Some (take n t @ drop n t)" by simp
      from read_torn [OF assms(1,2) this] eq IoTorn show ?thesis by (simp add: d_def)
    qed (use eq whole full none in auto)
  qed
  from all show "b \<Longrightarrow> readJSONLines dec f' = Some (old @ as)" by blast
  from all show "readJSONLines dec f' = None \<and> (\<exists>n. io = IoTorn n) \<or> (\<exists>n \<le> length as. readJSONLines dec f' = Some (old @ take n as))"
    by blast
qed

lemma append_log_ok: "\<forall>a \<in> set as. ok a \<Longrightarrow> \<exists>f'. append_log enc as IoOk f = (True, f')"
  using encode_some [of as] by (auto simp: append_log_def Let_def)

end

subsection \<open>Successful operations\<close>

lemma persist_ok: "persist a IoOk s = (Inr a, s\<lparr>st_disk := (st_disk s)\<lparr>d_manifest := GoodManifest (st_manifest s)\<rparr>\<rparr>)"
  by (simp add: persist_def write_manifest_def)

lemma events_ok_snoc:
  assumes "events_ok i evs" "ev_validate e = Inr ()" "ev_session e = i" "ev_cursor e = of_nat (length evs) + 1"
  shows "events_ok i (evs @ [e])"
  using assms by (auto simp: events_ok_def nth_append less_Suc_eq)

lemma append_durable:
  assumes "durable_ok lib ct s" "op_ok ct (OpAppend rs) s" "AppendTranscript ct rs IoOk s = (r, s')"
  shows "durable_ok lib ct s'"
proof (cases "assign_seq (m_transcript_seq (st_manifest s)) rs")
  case (Inl e)
  with assms show ?thesis by (simp add: AppendTranscript_def)
next
  case (Inr as)
  with assms(2) have ok: "valid_log (st_transcript s @ as)" "\<forall>a \<in> set as. record_ok ct a" by auto
  from records.append_log_ok [OF ok(2)] obtain f' where
    f': "append_log (record_line ct) as IoOk (d_transcript (st_disk s)) = (True, f')" by blast
  have "readJSONLines (record_read ct) f' = Some (st_transcript s @ as)"
    using records.append_log_read(1) [OF _ ok(2) f'] assms(1) by (simp add: durable_ok_def logs_ok_def)
  moreover have "as \<noteq> [] \<Longrightarrow> r_time (last as) \<noteq> 0" using assign_seq_props [OF Inr] by simp
  ultimately show ?thesis using assms Inr f' ok
    by (auto simp: AppendTranscript_def persist_ok durable_ok_def manifest_ok_def counted_def logs_ok_def Let_def)
qed

lemma event_durable:
  assumes "durable_ok lib ct s" "op_ok ct (OpEvent e) s" "AppendEvent ct e IoOk s = (r, s')"
  shows "durable_ok lib ct s'"
proof (cases "ev_session e \<noteq> m_session (st_manifest s) \<or> ev_cursor e \<noteq> m_event_cursor (st_manifest s) + 1")
  case True
  with assms show ?thesis by (simp add: AppendEvent_def)
next
  case False
  from assms(2) have ok: "\<forall>a \<in> set [e]. event_ok ct a" "ev_validate e = Inr ()" by auto
  from events.append_log_ok [OF ok(1)] obtain f' where
    f': "append_log (event_line ct) [e] IoOk (d_events (st_disk s)) = (True, f')" by blast
  have "readJSONLines (event_read ct) f' = Some (st_events s @ [e])"
    using events.append_log_read(1) [OF _ ok(1) f'] assms(1) by (simp add: durable_ok_def logs_ok_def)
  moreover have "ev_time e \<noteq> 0" using ok(2) by (simp add: ev_validate_iff envelope_ok_def)
  ultimately show ?thesis using assms False f' ok events_ok_snoc
    by (auto simp: AppendEvent_def persist_ok durable_ok_def manifest_ok_def counted_def logs_ok_def Let_def)
qed

text \<open>The operations that only replace the manifest.\<close>

lemma manifest_durable:
  assumes "durable_ok lib ct s" "manifest_ok lib m'" "m_session m' = m_session (st_manifest s)"
    "m_transcript_seq m' = m_transcript_seq (st_manifest s)" "m_event_cursor m' = m_event_cursor (st_manifest s)"
  shows "durable_ok lib ct (snd (persist a IoOk (s\<lparr>st_manifest := m'\<rparr>)))"
  using assms by (simp add: persist_ok durable_ok_def counted_def logs_ok_def)

lemma run_op_durable:
  assumes "durable_ok lib ct s" "op_ok ct op s" "run_op ct op IoOk s = (r, s')"
  shows "durable_ok lib ct s'"
proof (cases op)
  case (OpAppend rs)
  with assms append_durable show ?thesis by (cases "AppendTranscript ct rs IoOk s") (auto simp: drop_value_def)
next
  case (OpEvent e)
  with assms event_durable show ?thesis by auto
next
  case (OpBegin c t)
  with assms manifest_durable [OF assms(1)] show ?thesis
    by (cases "BeginRun c t IoOk s")
       (auto simp: BeginRun_def drop_value_def Let_def persist_ok durable_ok_def manifest_ok_def active_ok_def
         counted_def logs_ok_def split: if_splits)
next
  case (OpReserve rid k n)
  with assms show ?thesis
    by (cases "ReserveBudget rid k n IoOk s")
       (auto simp: ReserveBudget_def drop_value_def Let_def persist_ok durable_ok_def manifest_ok_def
         counted_def logs_ok_def split: option.splits sum.splits)
qed (use assms in \<open>auto simp: RecordCommand_def FinishRun_def ReconcileRun_def Close_def Let_def persist_ok durable_ok_def
         manifest_ok_def counted_def logs_ok_def split: if_splits\<close>)

text \<open>The session a fresh directory starts from.\<close>

lemma Create_durable:
  assumes "Create lib resolve taken root i ws projection binding now IoOk = Inr s"
    and "now \<noteq> 0" "projection \<noteq> []" "\<And>w c d. resolve w = Some (c, d) \<Longrightarrow> is_abs c \<and> d \<noteq> []"
  shows "durable_ok lib ct s" "m_session (st_manifest s) = i" "st_transcript s = []" "st_events s = []"
proof -
  from assms(1) obtain c d where "resolve ws = Some (c, d)" by (auto simp: Create_def split: if_splits option.splits)
  moreover have "\<not> is_abs []" by (simp add: is_abs_def)
  moreover from calculation assms(4) have "is_abs c" "d \<noteq> []" "c \<noteq> []" by auto
  ultimately show "durable_ok lib ct s" "m_session (st_manifest s) = i" "st_transcript s = []" "st_events s = []"
    using assms
    by (auto simp: Create_def persist_ok durable_ok_def manifest_ok_def manifest_identity_ok_def active_ok_def
        counted_def logs_ok_def readJSONLines_def events_ok_def Let_def split: if_splits)
qed

inductive evolves :: "clock_text \<Rightarrow> store \<Rightarrow> store \<Rightarrow> bool" for ct s where
  start: "evolves ct s s"
| op: "evolves ct s s1 \<Longrightarrow> op_ok ct op s1 \<Longrightarrow> run_op ct op IoOk s1 = (r, s2) \<Longrightarrow> evolves ct s s2"

lemma Create_fresh:
  assumes "Create lib resolve taken root i ws projection binding now io = Inr s"
  shows "m_budgets (st_manifest s) = (\<lambda>_. None)" "m_next_run (st_manifest s) = 0" "m_seen (st_manifest s) = (\<lambda>_. None)"
  using assms by (cases io; auto simp: Create_def persist_def write_manifest_def Let_def
      split: if_splits option.splits)+

lemma run_op_session: "run_op ct op io s = (r, s') \<Longrightarrow> m_session (st_manifest s') = m_session (st_manifest s)"
  by (cases op)
     (auto simp: store_op_defs drop_value_def Let_def map_prod_def split: if_splits prod.splits option.splits sum.splits)

lemma evolves_durable:
  assumes "evolves ct s s'" "durable_ok lib ct s"
  shows "durable_ok lib ct s' \<and> m_session (st_manifest s') = m_session (st_manifest s)"
  using assms(1)
proof induction
  case (op s1 op r s2)
  then show ?case using run_op_durable [of lib ct s1 op r s2] run_op_session [of ct op IoOk s1 r s2] by simp
qed (use assms(2) in simp_all)

subsection \<open>Operations cut short\<close>

lemma persist_disk:
  "snd (persist a io s) = s\<lparr>st_disk := snd (write_manifest (st_manifest s) io (st_disk s))\<rparr>"
  "is_ok (fst (persist a io s)) \<Longrightarrow> persist a io s = persist a IoOk s"
  "fst (persist a io s) = Inr b \<Longrightarrow> b = a"
  by (auto simp: persist_def write_manifest_def Let_def split: prod.splits if_splits io.splits)

lemma persist_manifest: "st_manifest (snd (persist a io s)) = st_manifest s"
  by (simp add: persist_disk(1))

lemma append_log_success:
  "append_log enc as io f = (True, f') \<Longrightarrow> append_log enc as IoOk f = (True, f')"
  by (auto simp: append_log_def Let_def split: if_splits option.splits io.splits)

lemma is_ok_map [simp]: "is_ok (map_sum f g r) = is_ok r"
  by (cases r) simp_all

lemma drop_value_ok [simp]: "is_ok (fst (drop_value p)) \<longleftrightarrow> is_ok (fst p)"
  by (simp add: drop_value_def)

lemma persist_error: "fst (persist a io s) = Inl e \<Longrightarrow> \<exists>b. io = IoManifest b"
  by (auto simp: persist_def write_manifest_def Let_def split: prod.splits if_splits io.splits)

text \<open>A reported success is a complete one.\<close>

lemma run_op_success:
  assumes "is_ok (fst (run_op ct op io s))"
  shows "run_op ct op io s = run_op ct op IoOk s"
proof (cases op)
  case (OpAppend rs)
  with assms have "is_ok (fst (AppendTranscript ct rs io s))" by simp
  then have "AppendTranscript ct rs io s = AppendTranscript ct rs IoOk s"
  proof (cases "assign_seq (m_transcript_seq (st_manifest s)) rs")
    case (Inr as)
    assume ok: "is_ok (fst (AppendTranscript ct rs io s))"
    with Inr obtain f' where f': "append_log (record_line ct) as io (d_transcript (st_disk s)) = (True, f')"
      by (cases "append_log (record_line ct) as io (d_transcript (st_disk s))")
         (auto simp: AppendTranscript_def Let_def split: if_splits)
    from ok show ?thesis unfolding AppendTranscript_def Inr
      by (auto simp: Let_def f' append_log_success [OF f'] dest: persist_disk(2))
  qed (simp add: AppendTranscript_def)
  with OpAppend show ?thesis by simp
next
  case (OpEvent e)
  let ?bad = "ev_session e \<noteq> m_session (st_manifest s) \<or> ev_cursor e \<noteq> m_event_cursor (st_manifest s) + 1"
  from assms OpEvent have ok: "is_ok (fst (AppendEvent ct e io s))" "\<not> ?bad"
    by (auto simp: AppendEvent_def Let_def split: if_splits)
  then obtain f' where f': "append_log (event_line ct) [e] io (d_events (st_disk s)) = (True, f')"
    by (cases "append_log (event_line ct) [e] io (d_events (st_disk s))")
       (auto simp: AppendEvent_def Let_def split: if_splits)
  from ok have "AppendEvent ct e io s = AppendEvent ct e IoOk s" unfolding AppendEvent_def
    by (simp add: Let_def f' append_log_success [OF f']) (drule persist_disk(2), simp)
  with OpEvent show ?thesis by simp
next
  case (OpBegin c t)
  with assms show ?thesis
    by (auto simp: BeginRun_def Let_def drop_value_def dest: persist_disk(2) split: if_splits)
next
  case (OpReserve rid k n)
  with assms show ?thesis
    by (auto simp: ReserveBudget_def drop_value_def Let_def dest: persist_disk(2) split: option.splits sum.splits)
qed (use assms in \<open>auto simp: RecordCommand_def FinishRun_def ReconcileRun_def Close_def Let_def
       dest: persist_disk(2) split: if_splits\<close>)

text \<open>What a directory opens as lies between what was committed before and after the operation.\<close>

definition recovers :: "stdlib \<Rightarrow> clock_text \<Rightarrow> store \<Rightarrow> store \<Rightarrow> disk \<Rightarrow> bool" where
  "recovers lib ct s t d \<longleftrightarrow> (\<exists>u. Open lib ct (m_session (st_manifest s)) (SessionDir d) = Inr u \<and>
     prefix (st_transcript s) (st_transcript u) \<and> prefix (st_transcript u) (st_transcript t) \<and>
     prefix (st_events s) (st_events u) \<and> prefix (st_events u) (st_events t))"

lemma recoversI:
  assumes "d_manifest d = GoodManifest m" "manifest_ok lib m" "m_session m = m_session (st_manifest s)"
    and "readJSONLines (record_read ct) (d_transcript d) = Some rs" "valid_log rs"
    and "readJSONLines (event_read ct) (d_events d) = Some evs" "events_ok (m_session m) evs"
    and "m_transcript_seq m \<le> of_nat (length rs)" "m_event_cursor m \<le> of_nat (length evs)"
    and "prefix (st_transcript s) rs" "prefix rs (st_transcript t)" "prefix (st_events s) evs" "prefix evs (st_events t)"
  shows "recovers lib ct s t d"
  using Open_parts [OF assms(1,2,4-9)] assms(3,10-13) by (auto simp: recovers_def)

lemma of_nat_mono64: "m \<le> n \<Longrightarrow> n < 2 ^ 64 \<Longrightarrow> (of_nat m :: u64) \<le> of_nat n"
  by (simp add: word_le_nat_alt unat_of_nat take_bit_nat_eq_self)

lemma events_ok_prefix: "events_ok i (evs @ evs') \<Longrightarrow> events_ok i evs"
  unfolding events_ok_def by (metis (no_types, lifting) length_append nth_append trans_less_add1)

lemma durable_recovers:
  assumes "durable_ok lib ct s" "prefix (st_transcript s) (st_transcript t)" "prefix (st_events s) (st_events t)"
  shows "recovers lib ct s t (st_disk s)"
  using Open_exact [OF assms(1)] assms(2,3) unfolding recovers_def by auto

lemma append_crash:
  assumes d: "durable_ok lib ct s" and ok: "op_ok ct (OpAppend rs) s"
    and t: "AppendTranscript ct rs IoOk s = (r, t)" and s': "AppendTranscript ct rs io s = (Inl e, s')"
    and small: "length (st_transcript t) < 2 ^ 64"
  shows "recovers lib ct s t (st_disk s') \<or>
    Open lib ct (m_session (st_manifest s)) (SessionDir (st_disk s')) = Inl ErrCorrupt \<and> (\<exists>n. io = IoTorn n)"
proof (cases "assign_seq (m_transcript_seq (st_manifest s)) rs")
  case (Inl e)
  with t s' durable_recovers [OF d, of t] show ?thesis by (simp add: AppendTranscript_def)
next
  case (Inr as)
  with ok have as: "valid_log (st_transcript s @ as)" "\<forall>a \<in> set as. record_ok ct a" by auto
  obtain b f' where f': "append_log (record_line ct) as io (d_transcript (st_disk s)) = (b, f')" by fastforce
  from d have s: "readJSONLines (record_read ct) (d_transcript (st_disk s)) = Some (st_transcript s)"
    "manifest_ok lib (st_manifest s)" "d_manifest (st_disk s) = GoodManifest (st_manifest s)" "counted s"
    "readJSONLines (event_read ct) (d_events (st_disk s)) = Some (st_events s)"
    "events_ok (m_session (st_manifest s)) (st_events s)"
    by (auto simp: durable_ok_def logs_ok_def)
  note read = records.append_log_read [OF s(1) as(2) f']
  from records.append_log_ok [OF as(2)] obtain g where
    "append_log (record_line ct) as IoOk (d_transcript (st_disk s)) = (True, g)" by blast
  with t Inr have tt: "st_transcript t = st_transcript s @ as" "st_events t = st_events s"
    by (auto simp: AppendTranscript_def persist_ok Let_def)
  show ?thesis
  proof (cases b)
    case True
    define m1 where "m1 = (st_manifest s)\<lparr>m_transcript_seq := m_transcript_seq (st_manifest s) + of_nat (length as)\<rparr>"
    define m2 where "m2 = (if as \<noteq> [] then m1\<lparr>m_updated := r_time (last as)\<rparr> else m1)"
    from True s' Inr f' have disk: "st_disk s' = snd (write_manifest m2 io ((st_disk s)\<lparr>d_transcript := f'\<rparr>))"
      using persist_disk(1) [of as io]
      by (auto simp: AppendTranscript_def Let_def m1_def m2_def dest!: arg_cong [where f = snd])
    have "as \<noteq> [] \<Longrightarrow> r_time (last as) \<noteq> 0" using assign_seq_props [OF Inr] by simp
    then have m2: "manifest_ok lib m2" "m_session m2 = m_session (st_manifest s)"
      "m_event_cursor m2 = m_event_cursor (st_manifest s)"
      "m_transcript_seq m2 = m_transcript_seq (st_manifest s) + of_nat (length as)"
      using s(2) by (simp_all add: m2_def m1_def manifest_ok_def)
    have le: "of_nat (length (st_transcript s)) \<le> (of_nat (length (st_transcript s)) + of_nat (length as) :: u64)"
      using of_nat_mono64 [of "length (st_transcript s)" "length (st_transcript s) + length as"] small tt by simp
    have logs: "readJSONLines (record_read ct) (d_transcript (st_disk s')) = Some (st_transcript s @ as)"
      "d_events (st_disk s') = d_events (st_disk s)"
      using read(1) [OF True] disk by (auto simp: write_manifest_def split: io.splits)
    have "d_manifest (st_disk s') = GoodManifest m2 \<or> d_manifest (st_disk s') = GoodManifest (st_manifest s)"
      using disk s(3) by (auto simp: write_manifest_def split: io.splits)
    then have "recovers lib ct s t (st_disk s')"
    proof
      assume "d_manifest (st_disk s') = GoodManifest m2"
      from recoversI [OF this m2(1,2) logs(1) as(1), of "st_events s" t] show ?thesis
        using logs(2) s(4-6) m2(2-4) tt by (simp add: counted_def)
    next
      assume "d_manifest (st_disk s') = GoodManifest (st_manifest s)"
      from recoversI [OF this s(2) refl logs(1) as(1), of "st_events s" t] show ?thesis
        using logs(2) s(4-6) le tt by (simp add: counted_def)
    qed
    then show ?thesis ..
  next
    case False
    with s' Inr f' have disk: "st_disk s' = (st_disk s)\<lparr>d_transcript := f'\<rparr>"
      by (auto simp: AppendTranscript_def Let_def)
    from read(2) show ?thesis
    proof
      assume "readJSONLines (record_read ct) f' = None \<and> (\<exists>n. io = IoTorn n)"
      with Open_unreadable [of "st_disk s'"] s disk show ?thesis by simp
    next
      assume "\<exists>n \<le> length as. readJSONLines (record_read ct) f' = Some (st_transcript s @ take n as)"
      then obtain n where 2: "n \<le> length as" "readJSONLines (record_read ct) f' = Some (st_transcript s @ take n as)"
        by auto
      have "valid_log ((st_transcript s @ take n as) @ drop n as)" using as(1) by simp
      then have "valid_log (st_transcript s @ take n as)" by (rule valid_log_prefix)
      moreover have "(of_nat (length (st_transcript s)) :: u64) \<le> of_nat (length (st_transcript s @ take n as))"
        using 2(1) small tt by (intro of_nat_mono64) auto
      ultimately have "recovers lib ct s t (st_disk s')" using 2 disk s tt unfolding counted_def
        by (intro recoversI [of _ "st_manifest s" _ _ _ "st_transcript s @ take n as" "st_events s"])
           (auto simp: take_is_prefix simp del: of_nat_add length_append)
      then show ?thesis ..
    qed
  qed
qed

lemma event_crash:
  assumes d: "durable_ok lib ct s" and ok: "op_ok ct (OpEvent e) s"
    and t: "AppendEvent ct e IoOk s = (r, t)" and s': "AppendEvent ct e io s = (Inl err, s')"
    and small: "length (st_events t) < 2 ^ 64"
  shows "recovers lib ct s t (st_disk s') \<or>
    Open lib ct (m_session (st_manifest s)) (SessionDir (st_disk s')) = Inl ErrCorrupt \<and> (\<exists>n. io = IoTorn n)"
proof (cases "ev_session e \<noteq> m_session (st_manifest s) \<or> ev_cursor e \<noteq> m_event_cursor (st_manifest s) + 1")
  case True
  with t s' durable_recovers [OF d, of t] show ?thesis by (simp add: AppendEvent_def Let_def)
next
  case False
  from ok have e: "\<forall>a \<in> set [e]. event_ok ct a" "ev_validate e = Inr ()" by auto
  obtain b f' where f': "append_log (event_line ct) [e] io (d_events (st_disk s)) = (b, f')" by fastforce
  from d have s: "readJSONLines (event_read ct) (d_events (st_disk s)) = Some (st_events s)"
    "manifest_ok lib (st_manifest s)" "d_manifest (st_disk s) = GoodManifest (st_manifest s)" "counted s"
    "readJSONLines (record_read ct) (d_transcript (st_disk s)) = Some (st_transcript s)" "valid_log (st_transcript s)"
    "events_ok (m_session (st_manifest s)) (st_events s)"
    by (auto simp: durable_ok_def logs_ok_def)
  have evs: "events_ok (m_session (st_manifest s)) (st_events s @ [e])"
    using events_ok_snoc [OF s(7) e(2)] False s(4) by (simp add: counted_def)
  note read = events.append_log_read [OF s(1) e(1) f']
  from events.append_log_ok [OF e(1)] obtain g where
    "append_log (event_line ct) [e] IoOk (d_events (st_disk s)) = (True, g)" by blast
  with t False have tt: "st_transcript t = st_transcript s" "st_events t = st_events s @ [e]"
    by (auto simp: AppendEvent_def persist_ok Let_def)
  have le: "of_nat (length (st_events s)) \<le> (of_nat (length (st_events s)) + 1 :: u64)"
    using of_nat_mono64 [of "length (st_events s)" "length (st_events s) + 1"] small tt by (simp add: add.commute)
  show ?thesis
  proof (cases b)
    case True
    define m1 where "m1 = (st_manifest s)\<lparr>m_event_cursor := ev_cursor e, m_updated := ev_time e\<rparr>"
    from True s' False f' have disk: "st_disk s' = snd (write_manifest m1 io ((st_disk s)\<lparr>d_events := f'\<rparr>))"
      using persist_disk(1) [of "()" io]
      by (auto simp: AppendEvent_def Let_def m1_def dest!: arg_cong [where f = snd])
    have m1: "manifest_ok lib m1" "m_session m1 = m_session (st_manifest s)"
      "m_event_cursor m1 = m_event_cursor (st_manifest s) + 1" "m_transcript_seq m1 = m_transcript_seq (st_manifest s)"
      using s(2) False e(2) by (simp_all add: m1_def manifest_ok_def ev_validate_iff envelope_ok_def)
    have logs: "readJSONLines (event_read ct) (d_events (st_disk s')) = Some (st_events s @ [e])"
      "d_transcript (st_disk s') = d_transcript (st_disk s)"
      using read(1) [OF True] disk by (auto simp: write_manifest_def split: io.splits)
    have "d_manifest (st_disk s') = GoodManifest m1 \<or> d_manifest (st_disk s') = GoodManifest (st_manifest s)"
      using disk s(3) by (auto simp: write_manifest_def split: io.splits)
    then have "recovers lib ct s t (st_disk s')"
    proof
      assume "d_manifest (st_disk s') = GoodManifest m1"
      from recoversI [OF this m1(1,2) _ s(6) logs(1), of t] show ?thesis
        using logs(2) s(4,5) m1(2-4) evs tt by (simp add: counted_def add.commute)
    next
      assume "d_manifest (st_disk s') = GoodManifest (st_manifest s)"
      from recoversI [OF this s(2) refl _ s(6) logs(1), of t] show ?thesis
        using logs(2) s(4,5) le evs tt by (simp add: counted_def add.commute)
    qed
    then show ?thesis ..
  next
    case b: False
    with s' False f' have disk: "st_disk s' = (st_disk s)\<lparr>d_events := f'\<rparr>"
      by (auto simp: AppendEvent_def Let_def)
    from read(2) show ?thesis
    proof
      assume "readJSONLines (event_read ct) f' = None \<and> (\<exists>n. io = IoTorn n)"
      with Open_unreadable [of "st_disk s'"] s disk show ?thesis by simp
    next
      assume "\<exists>n \<le> length [e]. readJSONLines (event_read ct) f' = Some (st_events s @ take n [e])"
      then obtain n where n: "readJSONLines (event_read ct) f' = Some (st_events s @ take n [e])" by auto
      have "events_ok (m_session (st_manifest s)) (st_events s @ take n [e])"
        using evs s(7) by (cases n) simp_all
      moreover have "m_event_cursor (st_manifest s) \<le> of_nat (length (st_events s @ take n [e]))"
        using le s(4) by (cases n) (simp_all add: counted_def add.commute)
      ultimately have "recovers lib ct s t (st_disk s')"
        using recoversI [of "st_disk s'" "st_manifest s" lib s ct "st_transcript s" "st_events s @ take n [e]" t]
          n disk s tt by (cases n) (simp_all add: counted_def)
      then show ?thesis ..
    qed
  qed
qed

text \<open>The manifest an operation writes: a good one, of the same session and with the same counters.\<close>

definition same_counts :: "stdlib \<Rightarrow> manifest \<Rightarrow> manifest \<Rightarrow> bool" where
  "same_counts lib m m' \<longleftrightarrow> manifest_ok lib m' \<and> m_session m' = m_session m \<and>
     m_transcript_seq m' = m_transcript_seq m \<and> m_event_cursor m' = m_event_cursor m"

lemma manifest_ok_updates:
  assumes "manifest_ok lib m"
  shows "t \<noteq> 0 \<Longrightarrow> same_counts lib m (m\<lparr>m_seen := f, m_updated := t\<rparr>)"
    and "t \<noteq> 0 \<Longrightarrow> same_counts lib m (m\<lparr>m_active := None, m_updated := t\<rparr>)"
    and "t \<noteq> 0 \<Longrightarrow> same_counts lib m (m\<lparr>m_closed := True, m_updated := t\<rparr>)"
    and "same_counts lib m (m\<lparr>m_budgets := (m_budgets m)(r := Some b)\<rparr>)"
    and "t \<noteq> 0 \<Longrightarrow> same_counts lib m (m\<lparr>m_seen := f, m_next_run := n,
      m_budgets := (m_budgets m)(run_name n := Some b), m_active := Some (run_name n, t), m_updated := t\<rparr>)"
  using assms by (simp_all add: same_counts_def manifest_ok_def) (simp add: active_ok_def)

text \<open>Operations other than the two appends either change nothing or replace the manifest.\<close>

definition replaces :: "stdlib \<Rightarrow> io \<Rightarrow> store \<Rightarrow> store \<Rightarrow> bool" where
  "replaces lib io s s' \<longleftrightarrow> s' = s \<or> (\<exists>m'. same_counts lib (st_manifest s) m' \<and>
     s' = s\<lparr>st_manifest := m', st_disk := snd (write_manifest m' io (st_disk s))\<rparr>)"

lemma persist_replaces:
  "same_counts lib (st_manifest s) m' \<Longrightarrow> replaces lib io s (snd (persist a io (s\<lparr>st_manifest := m'\<rparr>)))"
  unfolding replaces_def by (rule disjI2) (auto simp: persist_disk(1))

lemma snd_drop_value [simp]: "snd (drop_value p) = snd p"
  by (simp add: drop_value_def)

lemma replaces_refl [simp]: "replaces lib io s s"
  by (simp add: replaces_def)

lemma manifest_op_shape:
  assumes "op_ok ct op s" "manifest_ok lib (st_manifest s)"
    and "\<And>rs. op \<noteq> OpAppend rs" "\<And>e. op \<noteq> OpEvent e"
  shows "replaces lib io s (snd (run_op ct op io s))"
proof (cases op)
  case (OpBegin c t)
  with assms(1) show ?thesis
    by (auto simp: BeginRun_def Let_def intro!: persist_replaces manifest_ok_updates(5) assms(2))
next
  case (OpReserve r k n)
  then show ?thesis
    by (auto simp: ReserveBudget_def Let_def split: option.split sum.split
        intro!: persist_replaces manifest_ok_updates(4) assms(2))
next
  case (OpRecord c t)
  with assms(1) show ?thesis
    by (auto simp: RecordCommand_def Let_def intro!: persist_replaces manifest_ok_updates(1) assms(2))
next
  case (OpClose t)
  with assms(1) show ?thesis
    by (auto simp: Close_def Let_def intro!: persist_replaces manifest_ok_updates(3) assms(2))
qed (use assms in \<open>auto simp: FinishRun_def ReconcileRun_def Let_def
       intro!: persist_replaces manifest_ok_updates(2)\<close>)

lemma write_manifest_disk:
  "snd (write_manifest m io d) = d \<or> snd (write_manifest m io d) = d\<lparr>d_manifest := GoodManifest m\<rparr>"
  by (cases io) (simp_all add: write_manifest_def)

lemma replaces_crash:
  assumes "durable_ok lib ct s" "replaces lib io s s'"
    and "prefix (st_transcript s) (st_transcript t)" "prefix (st_events s) (st_events t)"
  shows "recovers lib ct s t (st_disk s')"
proof -
  note same = durable_recovers [OF assms(1,3,4)]
  from assms(2) consider "st_disk s' = st_disk s"
    | m' where "same_counts lib (st_manifest s) m'" "st_disk s' = (st_disk s)\<lparr>d_manifest := GoodManifest m'\<rparr>"
    using write_manifest_disk [of _ io "st_disk s"] by (force simp: replaces_def)
  then show ?thesis
  proof cases
    case (2 m')
    with assms recoversI [of "st_disk s'" m' lib s ct "st_transcript s" "st_events s" t] show ?thesis
      by (simp add: durable_ok_def logs_ok_def counted_def same_counts_def)
  qed (use same in simp)
qed

lemma replaces_logs:
  "replaces lib io s s' \<Longrightarrow> st_transcript s' = st_transcript s \<and> st_events s' = st_events s"
  by (auto simp: replaces_def)

text \<open>
  A crash: whatever happens to the writes of one operation on a session whose directory is
  intact, the directory opens with everything committed before and nothing but a first part of
  what was being written; only a torn write can make it be rejected.
\<close>

lemma crash_cases:
  assumes d: "durable_ok lib ct s" and ok: "op_ok ct op s"
    and t: "run_op ct op IoOk s = (r, t)" and s': "run_op ct op io s = (r', s')"
    and small: "length (st_transcript t) < 2 ^ 64" "length (st_events t) < 2 ^ 64"
  shows "recovers lib ct s t (st_disk s') \<or>
    Open lib ct (m_session (st_manifest s)) (SessionDir (st_disk s')) = Inl ErrCorrupt \<and> (\<exists>n. io = IoTorn n)"
proof (cases "is_ok r'")
  case True
  then have "(r', s') = (r, t)" using run_op_success [of ct op io s] s' t by simp
  moreover have "recovers lib ct t t (st_disk t)"
    using durable_recovers [OF run_op_durable [OF d ok t]] by simp
  moreover have "m_session (st_manifest t) = m_session (st_manifest s)" using run_op_session [OF t] .
  moreover have "prefix (st_transcript s) (st_transcript t)" "prefix (st_events s) (st_events t)"
    using t by (cases op; auto simp: store_op_defs Let_def drop_value_def map_prod_def
        split: if_splits prod.splits option.splits sum.splits)+
  ultimately show ?thesis unfolding recovers_def by (metis Pair_inject prefix_order.trans)
next
  case False
  then obtain e where e: "r' = Inl e" by (cases r') auto
  have shape: ?thesis if "\<And>rs. op \<noteq> OpAppend rs" "\<And>e. op \<noteq> OpEvent e"
  proof -
    have man: "manifest_ok lib (st_manifest s)" using d by (simp add: durable_ok_def)
    from manifest_op_shape [OF ok man that, of IoOk] t replaces_logs have
      "st_transcript t = st_transcript s" "st_events t = st_events s" by fastforce+
    with replaces_crash [OF d, of io s' t] manifest_op_shape [OF ok man that, of io] s' show ?thesis by simp
  qed
  show ?thesis
  proof (cases op)
    case (OpAppend rs)
    with t s' e obtain q q' where "AppendTranscript ct rs IoOk s = (q, t)" "AppendTranscript ct rs io s = (Inl q', s')"
      by (cases "AppendTranscript ct rs IoOk s"; cases "AppendTranscript ct rs io s"; cases "fst (AppendTranscript ct rs io s)")
         (auto simp: drop_value_def)
    with append_crash [OF d, of rs] ok small OpAppend show ?thesis by blast
  next
    case (OpEvent ev)
    with t s' e event_crash [OF d, of ev] ok small show ?thesis by simp
  qed (use shape in simp_all)
qed

subsection \<open>Budgets, commands and run names\<close>

text \<open>Any \<open>n\<close> operations, whatever their writes do. A \<open>time.Duration\<close> is a 64-bit integer.\<close>

fun op_typed :: "store_op \<Rightarrow> bool" where
  "op_typed (OpReserve r k n) = i64_range n"
| "op_typed _ = True"

inductive store_run :: "clock_text \<Rightarrow> store \<Rightarrow> nat \<Rightarrow> store \<Rightarrow> bool" for ct s where
  none: "store_run ct s 0 s"
| more: "store_run ct s n s1 \<Longrightarrow> op_typed op \<Longrightarrow> run_op ct op io s1 = (r, s2) \<Longrightarrow> store_run ct s (Suc n) s2"

definition budget_ok :: "run_budget \<Rightarrow> bool" where
  "budget_ok b \<longleftrightarrow> logical_calls b \<le> MaxLogicalModelCalls \<and> attempts b \<le> MaxTransportAttempts \<and>
     0 \<le> retry_delay b \<and> retry_delay b \<le> MaxRetryDelay"

definition budgets_ok :: "manifest \<Rightarrow> bool" where
  "budgets_ok m \<longleftrightarrow> (\<forall>r b. m_budgets m r = Some b \<longrightarrow> budget_ok b)"

lemmas budget_limits = MaxLogicalModelCalls_def MaxTransportAttempts_def MaxRetryDelay_def minute_def second_def

lemma zero_budget_ok [simp]: "budget_ok zero_budget"
  by (simp add: budget_ok_def zero_budget_def budget_limits)

lemma less_inc64: "(x :: u64) < y \<Longrightarrow> x + 1 \<le> y"
  by (simp add: inc_le)

lemma reserve_keeps:
  assumes "budget_ok b" "i64_range n" "reserve_in k n b = Inr b'"
  shows "budget_ok b'"
proof (cases k)
  case BudgetRetryDelay
  from assms(1) have b: "0 \<le> retry_delay b" "retry_delay b \<le> MaxRetryDelay" by (auto simp: budget_ok_def)
  from assms(2,3) BudgetRetryDelay have n: "0 \<le> n" "\<not> retry_delay b > i64 (MaxRetryDelay - n)"
    "b' = b\<lparr>retry_delay := i64 (retry_delay b + n)\<rparr>" by (auto simp: reserve_in_def split: if_splits)
  have "i64 (MaxRetryDelay - n) = MaxRetryDelay - n"
    using n(1) assms(2) by (intro i64_id) (simp add: i64_range_def budget_limits)
  with n have "retry_delay b + n \<le> MaxRetryDelay" by simp
  moreover from this b n(1) have "i64 (retry_delay b + n) = retry_delay b + n"
    by (intro i64_id) (simp add: i64_range_def budget_limits)
  ultimately show ?thesis using n b assms(1) by (simp add: budget_ok_def)
qed (use assms in \<open>auto simp: reserve_in_def budget_ok_def not_le less_inc64 split: if_splits\<close>)

text \<open>The run names in use are those of the runs begun so far.\<close>

definition runs_named :: "manifest \<Rightarrow> bool" where
  "runs_named m \<longleftrightarrow> (\<forall>r. m_budgets m r \<noteq> None \<longrightarrow> (\<exists>k \<le> m_next_run m. r = run_name k))"

text \<open>How the manifest in memory can change: this holds also when a write fails.\<close>

lemma run_op_manifest:
  assumes "run_op ct op io s = (r, s')"
  defines "m \<equiv> st_manifest s" and "m' \<equiv> st_manifest s'"
  shows "m_seen m' = m_seen m \<or> (\<exists>c. m_seen m' = (m_seen m)(c := Some True))"
    and "m_budgets m' = m_budgets m \<and> m_next_run m' = m_next_run m \<or>
      (m_next_run m' = m_next_run m + 1 \<and>
        m_budgets m' = (m_budgets m)(run_name (m_next_run m + 1) := Some zero_budget)) \<or>
      (\<exists>rid k n b b'. op = OpReserve rid k n \<and> m_budgets m rid = Some b \<and> reserve_in k n b = Inr b' \<and>
        m_next_run m' = m_next_run m \<and> m_budgets m' = (m_budgets m)(rid := Some b'))"
proof -
  have pm: "st_manifest (snd (persist a io u)) = st_manifest u" for a :: 'x and u by (simp add: persist_disk(1))
  have s': "s' = snd (run_op ct op io s)" using assms(1) by simp
  show "m_seen m' = m_seen m \<or> (\<exists>c. m_seen m' = (m_seen m)(c := Some True))"
    unfolding m_def m'_def s'
    by (cases op)
       (auto simp: AppendTranscript_def AppendEvent_def BeginRun_def ReserveBudget_def RecordCommand_def
         FinishRun_def ReconcileRun_def Close_def Let_def pm split: sum.split prod.split option.split)
  show "m_budgets m' = m_budgets m \<and> m_next_run m' = m_next_run m \<or>
      (m_next_run m' = m_next_run m + 1 \<and>
        m_budgets m' = (m_budgets m)(run_name (m_next_run m + 1) := Some zero_budget)) \<or>
      (\<exists>rid k n b b'. op = OpReserve rid k n \<and> m_budgets m rid = Some b \<and> reserve_in k n b = Inr b' \<and>
        m_next_run m' = m_next_run m \<and> m_budgets m' = (m_budgets m)(rid := Some b'))"
    unfolding m_def m'_def s'
    by (cases op)
       (auto simp: AppendTranscript_def AppendEvent_def BeginRun_def ReserveBudget_def RecordCommand_def
         FinishRun_def ReconcileRun_def Close_def Let_def pm split: sum.split prod.split option.split)
qed

lemma seen_keeps:
  "run_op ct op io s = (r, s') \<Longrightarrow> seen_command (st_manifest s) c \<Longrightarrow> seen_command (st_manifest s') c"
  using run_op_manifest(1) [of ct op io s r s'] by (auto simp: seen_command_def)

lemma store_run_seen: "store_run ct s n s' \<Longrightarrow> seen_command (st_manifest s) c \<Longrightarrow> seen_command (st_manifest s') c"
  by (induction rule: store_run.induct) (auto dest: seen_keeps)

lemma budgets_keep:
  assumes "run_op ct op io s = (r, s')" "op_typed op" "budgets_ok (st_manifest s)"
  shows "budgets_ok (st_manifest s')"
  using run_op_manifest(2) [OF assms(1)]
proof (elim disjE exE conjE)
  fix rid k n b b'
  assume "op = OpReserve rid k n" "m_budgets (st_manifest s) rid = Some b" "reserve_in k n b = Inr b'"
    "m_budgets (st_manifest s') = (m_budgets (st_manifest s))(rid := Some b')"
  with assms(2,3) reserve_keeps [of b n k b'] show ?thesis by (auto simp: budgets_ok_def split: if_splits)
qed (use assms(3) in \<open>auto simp: budgets_ok_def split: if_splits\<close>)

lemma store_run_budgets: "store_run ct s n s' \<Longrightarrow> budgets_ok (st_manifest s) \<Longrightarrow> budgets_ok (st_manifest s')"
  by (induction rule: store_run.induct) (auto dest: budgets_keep)

text \<open>As long as the run counter does not wrap, which takes 2^64 operations.\<close>

lemma store_run_names:
  assumes "store_run ct s n s'" "runs_named (st_manifest s)" "unat (m_next_run (st_manifest s)) + n < 2 ^ 64"
  shows "runs_named (st_manifest s') \<and> unat (m_next_run (st_manifest s')) \<le> unat (m_next_run (st_manifest s)) + n"
  using assms
proof induction
  case (more n s1 op io r s2)
  let ?m = "st_manifest s1" and ?m' = "st_manifest s2"
  from more have IH: "runs_named ?m" "unat (m_next_run ?m) \<le> unat (m_next_run (st_manifest s)) + n" by auto
  have bound: "unat (m_next_run ?m) + 1 < 2 ^ 64" using IH(2) more.prems(2) by simp
  then have inc: "unat (m_next_run ?m + 1) = unat (m_next_run ?m) + 1" by (simp add: unat_word_ariths)
  then have le: "m_next_run ?m \<le> m_next_run ?m + 1" by (simp add: word_le_nat_alt)
  from run_op_manifest(2) [OF more.hyps(3)] show ?case
  proof (elim disjE exE conjE)
    assume "m_next_run ?m' = m_next_run ?m + 1"
      "m_budgets ?m' = (m_budgets ?m)(run_name (m_next_run ?m + 1) := Some zero_budget)"
    with IH inc le show ?thesis unfolding runs_named_def by (auto intro: order_trans)
  qed (use IH in \<open>auto simp: runs_named_def\<close>)
qed simp

subsection \<open>A small store\<close>

definition sample_binding :: provider_binding where
  "sample_binding = (let d = replicate 64 (CHR ''a'') in
     \<lparr>pb_digest = d, pb_adapter = ''scripted'', pb_wire = ''v1'', pb_endpoint_sha = d, pb_credential_sha = d,
      pb_model = ''m'', pb_window = 1000, pb_max_output = 100, pb_temperature = None, pb_seed = None,
      pb_tool_choice = ''auto'', pb_preferences_sha = d, pb_prompt_version = ''p''\<rparr>)"

definition sample_clock :: clock_text where
  "sample_clock = \<lparr>ct_show = (\<lambda>t. show_nat (nat t)), ct_read = (\<lambda>s. Some (int (read_nat s)))\<rparr>"

definition sample_resolve :: "bytes \<Rightarrow> (bytes \<times> bytes) option" where
  "sample_resolve w = Some (''/w'', ''dev:1'')"

lemma sample_clock_ok [simp]: "0 \<le> t \<Longrightarrow> clock_ok sample_clock t"
  using show_nat_digits [of _ "nat t"]
  by (fastforce simp: clock_ok_def sample_clock_def list_all_iff safe_char_def is_digit_def byte_in_def)

definition sample_manifest :: manifest where
  "sample_manifest = \<lparr>m_format = FormatVersion, m_session = ''s'', m_workspace = ''/w'', m_ws_identity = ''dev:1'',
     m_created = 1, m_updated = 1, m_closed = False, m_projection = ''v1'', m_binding = sample_binding,
     m_workspace_read = True, m_transcript_seq = 0, m_event_cursor = 0, m_next_run = 0,
     m_seen = (\<lambda>_. None), m_budgets = (\<lambda>_. None), m_active = None\<rparr>"

definition sample_store :: store where
  "sample_store = \<lparr>st_manifest = sample_manifest, st_transcript = [], st_events = [],
     st_disk = \<lparr>d_manifest = GoodManifest sample_manifest, d_transcript = None, d_events = None\<rparr>\<rparr>"

lemma sample_binding_valid: "binding_valid sample_lib sample_binding"
  by (simp add: binding_valid_def sample_binding_def validSHA256_def byte_in_def ComputeDigest_def sample_lib_def Let_def list_all_iff)

lemma sample_session: "validateSessionID ''s''"
  by (simp add: validateSessionID_def is_lower_def byte_in_def Base_def)

lemma sample_Create:
  "Create sample_lib sample_resolve False ''/r'' ''s'' ''/w'' ''v1'' sample_binding 1 IoOk = Inr sample_store"
  using sample_binding_valid sample_session
  by (simp add: Create_def sample_resolve_def persist_ok sample_store_def sample_manifest_def Let_def)

lemma sample_durable: "durable_ok sample_lib ct sample_store"
  by (rule Create_durable(1) [OF sample_Create]) (auto simp: sample_resolve_def is_abs_def)

subsection \<open>Properties\<close>

text \<open>
  Reopening is exact: a session directory that \<open>Create\<close> made and any operations of the
  store with successful writes and lawful facts changed opens as the very session object the
  process held: manifest, transcript, events and directory.
\<close>

theorem reopen_exact:
  assumes "Create lib resolve taken root i ws projection binding now IoOk = Inr s0"
    and "now \<noteq> 0" "projection \<noteq> []" "\<And>w c d. resolve w = Some (c, d) \<Longrightarrow> is_abs c \<and> d \<noteq> []"
    and "evolves ct s0 s"
  shows "Open lib ct i (SessionDir (st_disk s)) = Inr s"
proof -
  from Create_durable [OF assms(1-4)] have "durable_ok lib ct s0" "m_session (st_manifest s0) = i" by simp_all
  with evolves_durable [OF assms(5)] have "durable_ok lib ct s" "m_session (st_manifest s) = i" by simp_all
  with Open_exact [of lib ct s] show ?thesis by simp
qed

lemma run_op_pair: "run_op ct op io s = (fst (run_op ct op io s), snd (run_op ct op io s))"
  by simp

definition sample_begun :: store where
  "sample_begun = snd (BeginRun ''c1'' 5 IoOk sample_store)"

lemma sample_evolves: "evolves ct sample_store sample_begun"
  using evolves.op [OF evolves.start, of ct "OpBegin ''c1'' 5" sample_store, OF _ run_op_pair]
  by (simp add: sample_begun_def)

theorem reopen_exact_witness:
  "Open sample_lib sample_clock ''s'' (SessionDir (st_disk sample_begun)) = Inr sample_begun"
  by (rule reopen_exact [OF sample_Create]) (auto simp: sample_resolve_def is_abs_def intro: sample_evolves)

text \<open>
  C5: Crash safety: when the writes of one operation fail, tear or are not synced, the
  directory opens with every fact committed before it, followed by a first part of the facts
  the operation was writing; only a torn write can make it be rejected as corrupt instead.
\<close>

theorem crash_recovery:
  assumes "durable_ok lib ct s" "op_ok ct op s" "run_op ct op IoOk s = (r, t)" "run_op ct op io s = (r', s')"
    and "length (st_transcript t) < 2 ^ 64" "length (st_events t) < 2 ^ 64"
  shows "recovers lib ct s t (st_disk s') \<or>
    Open lib ct (m_session (st_manifest s)) (SessionDir (st_disk s')) = Inl ErrCorrupt \<and> (\<exists>n. io = IoTorn n)"
  using crash_cases [OF assms] .

theorem crash_recovery_witness:
  "recovers sample_lib sample_clock sample_store sample_begun
     (st_disk (snd (BeginRun ''c1'' 5 (IoManifest False) sample_store))) \<or>
   Open sample_lib sample_clock (m_session (st_manifest sample_store))
     (SessionDir (st_disk (snd (BeginRun ''c1'' 5 (IoManifest False) sample_store)))) = Inl ErrCorrupt \<and>
     (\<exists>n. IoManifest False = IoTorn n)"
proof (rule crash_recovery [OF sample_durable])
  show "op_ok sample_clock (OpBegin ''c1'' 5) sample_store" by simp
  show "run_op sample_clock (OpBegin ''c1'' 5) IoOk sample_store =
      (fst (run_op sample_clock (OpBegin ''c1'' 5) IoOk sample_store), sample_begun)"
    by (simp add: sample_begun_def prod_eq_iff)
  show "run_op sample_clock (OpBegin ''c1'' 5) (IoManifest False) sample_store =
      (fst (run_op sample_clock (OpBegin ''c1'' 5) (IoManifest False) sample_store),
       snd (BeginRun ''c1'' 5 (IoManifest False) sample_store))"
    by (simp add: prod_eq_iff)
qed (simp_all add: sample_begun_def BeginRun_def persist_ok sample_store_def sample_manifest_def
       seen_command_def Let_def)

text \<open>
  C12: No run exceeds its budgets: after any operations on a new session, whatever their writes
  do, every run has used at most 64 logical model calls and 96 transport attempts and waited
  at most ten minutes.
\<close>

theorem budgets_bounded:
  assumes "Create lib resolve taken root i ws projection binding now io = Inr s0"
    and "store_run ct s0 n s" "m_budgets (st_manifest s) rid = Some b"
  shows "logical_calls b \<le> 64 \<and> attempts b \<le> 96 \<and> 0 \<le> retry_delay b \<and> retry_delay b \<le> 600 * 1000000000"
proof -
  from Create_fresh [OF assms(1)] have "budgets_ok (st_manifest s0)" by (simp add: budgets_ok_def)
  from store_run_budgets [OF assms(2) this] assms(3) have "budget_ok b" by (simp add: budgets_ok_def)
  then show ?thesis by (simp add: budget_ok_def budget_limits)
qed

lemma sample_run: "store_run ct sample_store 1 sample_begun"
  using store_run.more [OF store_run.none, of "OpBegin ''c1'' 5" ct IoOk sample_store, OF _ run_op_pair]
  by (simp add: sample_begun_def)

lemma sample_begun_manifest:
  "st_manifest sample_begun = sample_manifest\<lparr>m_seen := (\<lambda>_. None)(''c1'' := Some True), m_next_run := 1,
     m_budgets := (\<lambda>_. None)(run_name 1 := Some zero_budget), m_active := Some (run_name 1, 5), m_updated := 5\<rparr>"
  by (simp add: sample_begun_def BeginRun_def persist_ok sample_store_def sample_manifest_def seen_command_def Let_def)

theorem budgets_bounded_witness:
  "logical_calls zero_budget \<le> 64 \<and> attempts zero_budget \<le> 96 \<and> 0 \<le> retry_delay zero_budget \<and>
     retry_delay zero_budget \<le> 600 * 1000000000"
  by (rule budgets_bounded [OF sample_Create sample_run, of "run_name 1"]) (simp add: sample_begun_manifest)

text \<open>
  A command identity is accepted at most once: once it has been recorded, by whichever
  operation, no later \<open>RecordCommand\<close> or \<open>BeginRun\<close> with it succeeds, whatever happens in between.
\<close>

theorem commands_once:
  assumes "is_ok (fst (RecordCommand c t io s)) \<and> s1 = snd (RecordCommand c t io s) \<or>
      is_ok (fst (BeginRun c t io s)) \<and> s1 = snd (BeginRun c t io s)"
    and "store_run ct s1 n s'"
  shows "RecordCommand c t' io' s' = (Inl ErrDuplicateCommand, s') \<and> \<not> is_ok (fst (BeginRun c t' io' s'))"
proof -
  have "seen_command (st_manifest s1) c" using assms(1)
    by (auto simp: RecordCommand_def BeginRun_def Let_def persist_disk(1) seen_command_def split: if_splits)
  then have "seen_command (st_manifest s') c" using store_run_seen [OF assms(2)] by blast
  then show ?thesis by (auto simp: RecordCommand_def BeginRun_def Let_def)
qed

theorem commands_once_witness:
  "RecordCommand ''c1'' 9 IoOk sample_begun = (Inl ErrDuplicateCommand, sample_begun) \<and>
   \<not> is_ok (fst (BeginRun ''c1'' 9 IoOk sample_begun))"
proof (rule commands_once [OF _ store_run.none])
  show "is_ok (fst (RecordCommand ''c1'' 5 IoOk sample_store)) \<and> sample_begun = snd (RecordCommand ''c1'' 5 IoOk sample_store) \<or>
      is_ok (fst (BeginRun ''c1'' 5 IoOk sample_store)) \<and> sample_begun = snd (BeginRun ''c1'' 5 IoOk sample_store)"
    by (simp add: sample_begun_def BeginRun_def persist_ok sample_store_def sample_manifest_def seen_command_def Let_def)
qed

text \<open>
  C13: Run identities are never reused: the name \<open>BeginRun\<close> gives out has not been given to an
  earlier run of the session, for the first 2^64 - 1 operations on it.
\<close>

theorem run_names_fresh:
  assumes "Create lib resolve taken root i ws projection binding now io = Inr s0"
    and "store_run ct s0 n s" "n + 1 < 2 ^ 64" "BeginRun c t io' s = (Inr rid, s')"
  shows "m_budgets (st_manifest s) rid = None \<and> m_budgets (st_manifest s') rid = Some zero_budget"
proof -
  from Create_fresh [OF assms(1)] have s0: "runs_named (st_manifest s0)" "m_next_run (st_manifest s0) = 0"
    by (simp_all add: runs_named_def)
  let ?m = "st_manifest s"
  from store_run_names [OF assms(2) s0(1)] s0(2) assms(3) have m: "runs_named ?m" "unat (m_next_run ?m) \<le> n" by auto
  from assms(4) have rid: "rid = run_name (m_next_run ?m + 1)"
      "m_budgets (st_manifest s') = (m_budgets ?m)(rid := Some zero_budget)"
    by (auto simp: BeginRun_def persist_def Let_def split: if_splits prod.splits)
  have "unat (m_next_run ?m + 1) = unat (m_next_run ?m) + 1" using m(2) assms(3) by (simp add: unat_word_ariths)
  then have "\<not> m_next_run ?m + 1 \<le> m_next_run ?m" by (simp add: word_le_nat_alt)
  with m(1) rid show ?thesis by (auto simp: runs_named_def)
qed

theorem run_names_fresh_witness:
  "m_budgets (st_manifest sample_store) (run_name 1) = None \<and>
   m_budgets (st_manifest sample_begun) (run_name 1) = Some zero_budget"
proof (rule run_names_fresh [OF sample_Create store_run.none])
  show "BeginRun ''c1'' 5 IoOk sample_store = (Inr (run_name 1), sample_begun)"
    by (simp add: sample_begun_def BeginRun_def persist_ok sample_store_def sample_manifest_def seen_command_def Let_def)
qed simp

end
