(* ===== verification/Sessionlive.thy ===== *)
theory Sessionlive
  imports Runloop Durability
begin

text \<open>
  Invariants of the session that hold whatever the clock, the file system, the provider and
  the tools do: the frames of the primitive operations, the state of the session against the
  run's goroutine, the history of events and what each observer receives.
\<close>

subsection \<open>Frames\<close>

lemma seq_simps [simp]:
  "seq (Inl e, s) f = (Inl e, s)" "seq (Inr a, s) f = f a s"
  by (simp_all add: seq_def)

lemma seq_cases:
  assumes "seq p f = (r, t)"
  obtains e s where "p = (Inl e, s)" "r = Inl e" "t = s"
  | a s where "p = (Inr a, s)" "f a s = (r, t)"
  using assms by (cases p; cases "fst p") auto

lemma seqE:
  assumes "P (snd p)" "\<And>a s. p = (Inr a, s) \<Longrightarrow> P s \<Longrightarrow> P (snd (f a s))"
  shows "P (snd (seq p f))"
  using assms by (cases p; cases "fst p") auto

named_theorems frames "what a primitive operation of a session leaves as it is"

lemma tick_frame [simp]:
  "s_id (tick s) = s_id s" "s_state (tick s) = s_state s" "s_seen (tick s) = s_seen s"
  "s_cursor (tick s) = s_cursor s" "s_runs (tick s) = s_runs s" "s_history (tick s) = s_history s"
  "s_records (tick s) = s_records s" "s_subs (tick s) = s_subs s" "s_partial (tick s) = s_partial s"
  "s_tool (tick s) = s_tool s" "s_budget (tick s) = s_budget s" "s_cancelled (tick s) = s_cancelled s"
  "s_error (tick s) = s_error s" "s_docs (tick s) = s_docs s" "s_durable (tick s) = s_durable s"
  "s_run (tick s) = s_run s" "s_tick (tick s) = Suc (s_tick s)"
  by (simp_all add: tick_def)

text \<open>The fields that no primitive but a fault, a publication or the run's end touches.\<close>

definition same_core :: "session \<Rightarrow> session \<Rightarrow> bool" where
  "same_core s t \<longleftrightarrow> s_id t = s_id s \<and> s_state t = s_state s \<and> s_history t = s_history s \<and>
     s_subs t = s_subs s \<and> s_cancelled t = s_cancelled s \<and> s_error t = s_error s \<and> s_run t = s_run s \<and>
     s_tick s \<le> s_tick t"

lemma same_coreD:
  assumes "same_core s t"
  shows "s_id t = s_id s" "s_state t = s_state s" "s_history t = s_history s" "s_subs t = s_subs s"
    "s_cancelled t = s_cancelled s" "s_error t = s_error s" "s_run t = s_run s" "s_tick s \<le> s_tick t"
  using assms by (simp_all add: same_core_def)

lemma same_core_refl [simp]: "same_core s s"
  by (simp add: same_core_def)

lemma same_core_trans [trans]: "same_core s t \<Longrightarrow> same_core t u \<Longrightarrow> same_core s u"
  by (auto simp: same_core_def)

lemma on_store_snd [simp]:
  "snd (on_store f st s) = s\<lparr>s_durable := Some (snd (f st))\<rparr>" "fst (on_store f st s) = fst (f st)"
  by (simp_all add: on_store_def case_prod_beta)

lemma on_store_pair: "on_store f st s = (fst (f st), s\<lparr>s_durable := Some (snd (f st))\<rparr>)"
  by (simp add: on_store_def case_prod_beta)

lemmas effect_defs = appendPayload_def add_records_def appendToolCalls_def persistEvent_def reserve_def
  recordCommand_def beginRun_def closeDurable_def finishDurable_def reconcileDurable_def refreshDocs_def

lemma core_frames [frames]:
  "same_core s (snd (appendPayload w rid p s))" "same_core s (snd (appendToolCalls w rid cs s))"
  "same_core s (snd (persistEvent w rid ev s))" "same_core s (snd (reserve w rid k n s))"
  "same_core s (snd (recordCommand w c s))" "same_core s (snd (beginRun w c s))"
  "same_core s (snd (closeDurable w s))" "same_core s (snd (finishDurable w rid s))"
  "same_core s (snd (reconcileDurable w rid s))" "same_core s (snd (refreshDocs w s))"
  by (auto simp: same_core_def effect_defs on_store_pair Let_def
      split: sum.split option.split store_error.split)

lemma cursor_frames [frames]:
  "s_cursor (snd (appendPayload w rid p s)) = s_cursor s" "s_cursor (snd (appendToolCalls w rid cs s)) = s_cursor s"
  "s_cursor (snd (reserve w rid k n s)) = s_cursor s" "s_cursor (snd (recordCommand w c s)) = s_cursor s"
  "s_cursor (snd (beginRun w c s)) = s_cursor s" "s_cursor (snd (closeDurable w s)) = s_cursor s"
  "s_cursor (snd (finishDurable w rid s)) = s_cursor s" "s_cursor (snd (reconcileDurable w rid s)) = s_cursor s"
  "s_cursor (snd (refreshDocs w s)) = s_cursor s"
  by (auto simp: effect_defs on_store_pair Let_def split: sum.split option.split store_error.split)

lemma persistEvent_error: "persistEvent w rid p s = (Inl e, t) \<Longrightarrow> s_cursor t = s_cursor s"
  by (auto simp: persistEvent_def on_store_pair split: sum.splits option.splits)

lemma persistEvent_ok:
  "persistEvent w rid p s = (Inr ev, t) \<Longrightarrow> s_cursor t = s_cursor s + 1 \<and>
     ev_new (s_id s) rid (s_cursor s + 1) (now w s) (ev_kind_of p) p = Inr ev"
  by (auto simp: persistEvent_def on_store_pair split: sum.splits option.splits)

subsection \<open>The history and its observers\<close>

definition due :: "event list \<Rightarrow> subscription \<Rightarrow> event list" where
  "due h n = filter (\<lambda>ev. ev_cursor ev > sn_after n) (take (sn_from n) h) @ drop (sn_from n) h"

definition observed :: "event list \<Rightarrow> subscription \<Rightarrow> bool" where
  "observed h n \<longleftrightarrow> sn_from n \<le> length h \<and> sub_ok (due h n) (sn_sub n)"

definition busy :: "'a option \<Rightarrow> bool" where "busy r \<longleftrightarrow> r \<noteq> None"

lemma busy_simps [simp]: "busy (Some x)" "\<not> busy None" "\<not> busy r \<longleftrightarrow> r = None"
  by (simp_all add: busy_def)

definition live :: "session \<Rightarrow> bool" where
  "live s \<longleftrightarrow> events_ok (s_id s) (s_history s) \<and>
     (s_state s \<noteq> StateFaulted \<longrightarrow> s_cursor s = of_nat (length (s_history s))) \<and>
     list_all (observed (s_history s)) (s_subs s) \<and>
     (s_state s = StateRunning \<longleftrightarrow> busy (s_run s))"

lemma live_core:
  assumes "live s" "same_core s t" "s_cursor t = s_cursor s"
  shows "live t"
  using assms by (simp add: live_def same_core_def)

lemma observed_snoc: "observed h n \<Longrightarrow> observed (h @ [ev]) (n\<lparr>sn_sub := enqueue ev (sn_sub n)\<rparr>)"
  using sub_ok_enqueue [of "due h n" "sn_sub n" ev] by (simp add: observed_def due_def)

lemma observed_close: "observed h n \<Longrightarrow> observed h (n\<lparr>sn_sub := sub_close (sn_sub n)\<rparr>)"
  using sub_ok_close by (auto simp: observed_def due_def)

text \<open>A fault needs less: an event may be durable that was never published.\<close>

definition published :: "session \<Rightarrow> bool" where
  "published s \<longleftrightarrow> events_ok (s_id s) (s_history s) \<and> list_all (observed (s_history s)) (s_subs s)"

lemma published_core: "published s \<Longrightarrow> same_core s t \<Longrightarrow> published t"
  by (simp add: published_def same_core_def)

lemma live_published: "live s \<Longrightarrow> published s"
  by (simp add: live_def published_def)

lemma live_fault [preserved]: "published s \<Longrightarrow> live (faultSession e s)"
  by (auto simp: published_def live_def faultSession_def list_all_iff observed_close)

text \<open>Publication, with or without a change of state around it.\<close>

lemma live_publish:
  assumes "live s" "s_state s \<noteq> StateFaulted" "persistEvent w rid p s = (Inr ev, t)" "same_core t u" "s_cursor u = s_cursor t"
    and "(s_state v = StateRunning) = busy (s_run v)" "s_state v \<noteq> StateFaulted"
    and "s_id v = s_id u" "s_history v = s_history u @ [ev]" "s_cursor v = s_cursor u"
    and "s_subs v = map (\<lambda>n. n\<lparr>sn_sub := enqueue ev (sn_sub n)\<rparr>) (s_subs u)"
  shows "live v"
proof -
  from assms(3) have core: "same_core s t" using core_frames(3) [of s w rid p] by simp
  from persistEvent_ok [OF assms(3)] have ev: "s_cursor t = s_cursor s + 1"
    "ev_new (s_id s) rid (s_cursor s + 1) (now w s) (ev_kind_of p) p = Inr ev" by auto
  have cur: "s_cursor s = of_nat (length (s_history s))" using assms(1,2) by (simp add: live_def)
  from ev_new_fields [OF ev(2)] have "ev_session ev = s_id s" "ev_cursor ev = s_cursor s + 1" by simp_all
  with ev_new_valid [OF ev(2)] cur have "events_ok (s_id s) (s_history s @ [ev])"
    using assms(1) events_ok_snoc [of "s_id s" "s_history s" ev] by (simp add: live_def)
  moreover have "list_all (observed (s_history s @ [ev])) (map (\<lambda>n. n\<lparr>sn_sub := enqueue ev (sn_sub n)\<rparr>) (s_subs s))"
    using assms(1) by (auto simp: live_def list_all_iff observed_snoc)
  ultimately show ?thesis using assms(4-) core ev(1) cur
    by (simp add: live_def same_coreD [OF assms(4)] same_coreD [OF core] add.commute)
qed

lemma live_emit [preserved]:
  assumes "live s" "s_state s \<noteq> StateFaulted"
  shows "live (snd (emit w rid p s))" "s_state (snd (emit w rid p s)) = s_state s"
    "s_run (snd (emit w rid p s)) = s_run s"
proof -
  obtain r t where p: "persistEvent w rid p s = (r, t)" by fastforce
  then have core: "same_core s t" using core_frames(3) [of s w rid p] by simp
  have "live (snd (emit w rid p s)) \<and> s_state (snd (emit w rid p s)) = s_state s \<and> s_run (snd (emit w rid p s)) = s_run s"
  proof (cases r)
    case (Inl e)
    from persistEvent_error [OF p [unfolded Inl]] live_core [OF assms(1) core] have "live t" by simp
    with p Inl core show ?thesis by (simp add: emit_def same_core_def)
  next
    case (Inr ev)
    have "live (publishEvent ev t)"
      by (rule live_publish [OF assms p [unfolded Inr] same_core_refl refl])
         (use assms core in \<open>auto simp: publishEvent_def live_def same_core_def\<close>)
    with p Inr core show ?thesis by (simp add: emit_def publishEvent_def same_core_def)
  qed
  then show "live (snd (emit w rid p s))" "s_state (snd (emit w rid p s)) = s_state s"
    "s_run (snd (emit w rid p s)) = s_run s" by auto
qed

subsection \<open>Commands\<close>

text \<open>A session that is up in state \<open>S\<close> with the goroutine at \<open>r\<close>.\<close>

definition up :: "sess_state \<Rightarrow> (bytes \<times> bytes \<times> pc) option \<Rightarrow> session \<Rightarrow> bool" where
  "up S r s \<longleftrightarrow> live s \<and> s_state s = S \<and> s_run s = r \<and> S \<noteq> StateFaulted"

lemma up_core: "up S r s \<Longrightarrow> same_core s t \<Longrightarrow> s_cursor t = s_cursor s \<Longrightarrow> up S r t"
  using live_core [of s t] by (simp add: up_def same_core_def)

lemma up_ops [preserved]:
  assumes "up S r s"
  shows "up S r (snd (appendPayload w rid p s))" "up S r (snd (appendToolCalls w rid cs s))"
    "up S r (snd (reserve w rid k n s))" "up S r (snd (recordCommand w c s))"
    "up S r (snd (beginRun w c s))" "up S r (snd (closeDurable w s))" "up S r (snd (refreshDocs w s))"
    "up S r (snd (reconcileDurable w rid s))" "up S r (snd (finishDurable w rid s))"
  by (rule up_core [OF assms]; rule frames)+

lemma up_emit [preserved]: "up S r s \<Longrightarrow> up S r (snd (emit w rid ev s))"
  using live_emit [of s w rid ev] by (auto simp: up_def)

lemma up_live: "up S r s \<Longrightarrow> live s"
  by (simp add: up_def)

lemma up_fields [preserved]:
  "up S r s \<Longrightarrow> up S r (s\<lparr>s_partial := x\<rparr>)" "up S r s \<Longrightarrow> up S r (s\<lparr>s_tool := y\<rparr>)"
  "up S r s \<Longrightarrow> up S r (s\<lparr>s_cancelled := b\<rparr>)" "up S r s \<Longrightarrow> up S r (tick s)"
  by (auto simp: up_def live_def)

text \<open>
  Sequencing with one invariant for the states between and another for the result.
\<close>

lemma seq_rule:
  assumes "I (snd p)" "\<And>e s. p = (Inl e, s) \<Longrightarrow> I s \<Longrightarrow> Q s"
    and "\<And>a s. p = (Inr a, s) \<Longrightarrow> I s \<Longrightarrow> Q (snd (f a s))"
  shows "Q (snd (seq p f))"
  using assms by (cases p; cases "fst p") auto

lemma or_fault_live: "live (snd p) \<Longrightarrow> live (snd (or_fault p))"
  by (cases p; cases "fst p") (auto simp: or_fault_def live_published live_fault)

lemma or_fault_ok: "or_fault p = (Inr a, s) \<Longrightarrow> p = (Inr a, s)"
  by (auto simp: or_fault_def split: prod.splits sum.splits)

lemma startRun_live:
  assumes "up StateIdle None s"
  shows "live (snd (startRun w rid prompt s))"
  unfolding startRun_def
proof (rule seq_rule [where I = "up StateIdle None"])
  fix a t assume t: "up StateIdle None t"
  show "live (snd (seq (if s_docs t \<noteq> [] then appendPayload w rid (TranscriptPayload (s_docs t)) t else (Inr (), t))
     (\<lambda>_ s. seq (emit w rid (RunStartedPayload prompt) s) (\<lambda>_ s.
       (Inr (), s\<lparr>s_cancelled := False, s_state := StateRunning, s_run := Some (rid, prompt, AtTop)\<rparr>)))))"
  proof (rule seq_rule [where I = "up StateIdle None"])
    fix a u assume "up StateIdle None u"
    then have "up StateIdle None (snd (emit w rid (RunStartedPayload prompt) u))" by (rule preserved)
    then show "live (snd (seq (emit w rid (RunStartedPayload prompt) u) (\<lambda>_ s.
       (Inr (), s\<lparr>s_cancelled := False, s_state := StateRunning, s_run := Some (rid, prompt, AtTop)\<rparr>))))"
      by (rule seq_rule) (auto simp: up_def live_def)
  qed (use t in \<open>auto intro: preserved simp: up_live\<close>)
qed (use assms in \<open>auto intro: preserved simp: up_live\<close>)

lemma applySubmit_live:
  assumes "live s" "s_state s \<noteq> StateFaulted"
  shows "live (snd (applySubmit w cmd s))"
proof (cases "s_state s = StateClosed \<or> s_state s = StateRunning")
  case True
  with assms show ?thesis by (auto simp: applySubmit_def)
next
  case False
  with assms have idle: "up StateIdle None s" by (cases "s_state s") (auto simp: up_def live_def)
  have sens: "live (snd (seq (recordCommand w (cmd_id cmd) s) (\<lambda>_ s.
      seq (or_fault (emit w [] (WarningPayload ''detected_credential_in_prompt'') s)) (\<lambda>_ s. (Inl SensitivePrompt, s)))))"
  proof (rule seq_rule [where I = "up StateIdle None"])
    fix a t assume "up StateIdle None t"
    then have "live (snd (or_fault (emit w [] (WarningPayload ''detected_credential_in_prompt'') t)))"
      by (intro or_fault_live up_live preserved)
    then show "live (snd (seq (or_fault (emit w [] (WarningPayload ''detected_credential_in_prompt'') t))
        (\<lambda>_ s. (Inl SensitivePrompt, s))))" by (rule seqE) simp
  qed (use idle in \<open>auto intro: preserved simp: up_live\<close>)
  have run: "live (snd (seq (refreshDocs w s) (\<lambda>_ s. (case beginRun w (cmd_id cmd) s of
       (Inl e, s') \<Rightarrow> (Inl e, if e = DuplicateCommand \<or> e = SessionClosed then s' else faultSession e s')
     | (Inr rid, s') \<Rightarrow> or_fault (startRun w rid prompt s')))))" for prompt
  proof (rule seq_rule [where I = "up StateIdle None"])
    fix a t assume "up StateIdle None t"
    then have "up StateIdle None (snd (beginRun w (cmd_id cmd) t))" by (rule preserved)
    then show "live (snd (case beginRun w (cmd_id cmd) t of
       (Inl e, s') \<Rightarrow> (Inl e, if e = DuplicateCommand \<or> e = SessionClosed then s' else faultSession e s')
     | (Inr rid, s') \<Rightarrow> or_fault (startRun w rid prompt s')))"
      by (auto simp: case_prod_beta up_live live_published live_fault startRun_live intro!: or_fault_live split: sum.split)
  qed (use idle in \<open>auto intro: preserved simp: up_live\<close>)
  from False assms(1) show ?thesis
    by (auto simp: applySubmit_def sens run split: sum.split)
qed

lemma applyClose_live:
  assumes "live s" "s_state s \<noteq> StateFaulted"
  shows "live (snd (applyClose w cmd s))"
proof (cases "s_state s = StateRunning")
  case True
  with assms show ?thesis by (simp add: applyClose_def)
next
  case False
  with assms have u: "up (s_state s) None s" by (auto simp: up_def live_def)
  have fault: "live (snd (seq (or_fault p) f))"
    if "up S None (snd p)" "\<And>a t. up S None t \<Longrightarrow> live (snd (f a t))" for S and p :: "(engine_error, unit) result \<times> session" and f :: "unit \<Rightarrow> session \<Rightarrow> (engine_error, unit) result \<times> session"
    using that by (cases p; cases "fst p") (auto simp: or_fault_def up_live live_published live_fault)
  show ?thesis unfolding applyClose_def if_not_P [OF False]
  proof (rule seq_rule [where I = "up (s_state s) None"])
    fix a t assume t: "up (s_state s) None t"
    show "live (snd (if s_state t = StateClosed then (Inr (), t) else
        seq (or_fault (appendPayload w [] ClosedPayload t)) (\<lambda>_ s. seq (or_fault (closeDurable w s)) (\<lambda>_ s.
          or_fault (emit w [] SessionClosedPayload (s\<lparr>s_state := StateClosed\<rparr>))))))"
    proof (cases "s_state t = StateClosed")
      case nc: False
      have "live (snd (or_fault (emit w [] SessionClosedPayload (v\<lparr>s_state := StateClosed\<rparr>))))"
        if "up (s_state s) None v" for v
      proof -
        have "up StateClosed None (v\<lparr>s_state := StateClosed\<rparr>)" using that by (auto simp: up_def live_def)
        then show ?thesis by (intro or_fault_live up_live preserved)
      qed
      with nc t show ?thesis by (auto intro!: fault [of "s_state s"] preserved)
    qed (use t in \<open>simp add: up_live\<close>)
  qed (use u in \<open>auto intro: preserved simp: up_live\<close>)
qed

lemma Apply_live [preserved]:
  assumes "live s"
  shows "live (snd (Apply w gone cmd s))"
proof -
  have cancel: "live (snd (applyCancel w cmd s))" if "s_state s \<noteq> StateFaulted"
    unfolding applyCancel_def
  proof (rule seq_rule [where I = "up (s_state s) (s_run s)"])
    show "up (s_state s) (s_run s) (snd (recordCommand w (cmd_id cmd) s))"
      using assms that by (intro preserved) (simp add: up_def)
  qed (auto simp: up_def live_def)
  have resume: "live (snd (applyResume w cmd s))" if "s_state s \<noteq> StateFaulted"
  proof -
    have "live (snd (seq (recordCommand w (cmd_id cmd) s) (\<lambda>_ s. or_fault (emit w [] SessionResumedPayload s))))"
    proof (rule seq_rule [where I = "up (s_state s) (s_run s)"])
      show "up (s_state s) (s_run s) (snd (recordCommand w (cmd_id cmd) s))"
        using assms that by (intro preserved) (simp add: up_def)
    qed (auto simp: up_live intro!: or_fault_live up_live [OF up_emit])
    with assms show ?thesis by (simp add: applyResume_def)
  qed
  from assms cancel resume applySubmit_live [OF assms] applyClose_live [OF assms] show ?thesis
    by (auto simp: Apply_def split: sum.split cmd_kind.split)
qed

subsection \<open>The run\<close>

abbreviation running :: "session \<Rightarrow> bool" where
  "running s \<equiv> up StateRunning (s_run s) s \<and> busy (s_run s)"

lemma running_up: "up StateRunning r s \<Longrightarrow> busy r \<Longrightarrow> running s"
  by (simp add: up_def)

lemma up_goto: "up StateRunning r s \<Longrightarrow> live (goto rid goal p s)"
  by (simp add: up_def live_def goto_def)

lemma finish_facts_ok:
  assumes "finish_facts w rid oc cause s = (Inr ev, s')"
  obtains s1 t where "same_core s s1" "s_cursor s1 = s_cursor s"
    "persistEvent w rid (outcome_event oc cause) s1 = (Inr ev, t)" "same_core t s'" "s_cursor s' = s_cursor t"
proof -
  define p0 where "p0 = (if oc = RunOutcomeCancelled then appendPayload w rid CancellationBoundaryPayload s else (Inr (), s))"
  from assms obtain s0 where p0: "p0 = (Inr (), s0)" and
    r0: "seq (appendPayload w rid (RunOutcomePayload oc cause) s0) (\<lambda>_ s.
     seq (persistEvent w rid (outcome_event oc cause) s) (\<lambda>ev s.
     seq (finishDurable w rid s) (\<lambda>_ s. (Inr ev, s)))) = (Inr ev, s')"
    unfolding finish_facts_def p0_def [symmetric] by (auto elim: seq_cases)
  have "same_core s (snd p0)" "s_cursor (snd p0) = s_cursor s"
    by (auto simp: p0_def intro: frames)
  with p0 have c0: "same_core s s0" "s_cursor s0 = s_cursor s" by auto
  from r0 obtain s1 where s1: "appendPayload w rid (RunOutcomePayload oc cause) s0 = (Inr (), s1)" and
    r1: "seq (persistEvent w rid (outcome_event oc cause) s1) (\<lambda>ev s.
     seq (finishDurable w rid s) (\<lambda>_ s. (Inr ev, s))) = (Inr ev, s')" by (auto elim: seq_cases)
  from s1 core_frames(1) [of s0 w rid "RunOutcomePayload oc cause"] cursor_frames(1) [of w rid "RunOutcomePayload oc cause" s0]
  have c1: "same_core s0 s1" "s_cursor s1 = s_cursor s0" by auto
  from r1 obtain t where t: "persistEvent w rid (outcome_event oc cause) s1 = (Inr ev, t)" "finishDurable w rid t = (Inr (), s')"
    by (auto elim!: seq_cases)
  from t(2) core_frames(8) [of t w rid] cursor_frames(7) [of w rid t] have "same_core t s'" "s_cursor s' = s_cursor t" by auto
  with c0 c1 t(1) that same_core_trans show ?thesis by metis
qed

lemma finish_facts_published:
  assumes "published s" shows "published (snd (finish_facts w rid oc cause s))"
proof -
  have step: "published (snd q)" if "same_core t (snd q)" "published t" for q :: "('x, 'y) result \<times> session" and t
    using that published_core by blast
  show ?thesis unfolding finish_facts_def
    by (intro seqE [where P = published] step [OF core_frames(1)] step [OF core_frames(3)] step [OF core_frames(8)]
        conjI impI) (auto intro: step [OF core_frames(1)] simp: assms)
qed

lemma finishRun_live:
  assumes "up StateRunning r s"
  shows "live (finishRun w rid oc cause s)"
proof (cases "finish_facts w rid oc cause s")
  case (Pair q s')
  show ?thesis
  proof (cases q)
    case (Inl e)
    from finish_facts_published [of s w rid oc cause] assms Pair have "published s'"
      by (simp add: up_def live_published)
    with Pair Inl show ?thesis by (simp add: finishRun_def live_fault)
  next
    case (Inr ev)
    with Pair obtain s1 t where c: "same_core s s1" "s_cursor s1 = s_cursor s"
      "persistEvent w rid (outcome_event oc cause) s1 = (Inr ev, t)" "same_core t s'" "s_cursor s' = s_cursor t"
      by (auto elim: finish_facts_ok)
    have "live s1" "s_state s1 \<noteq> StateFaulted" using up_core [OF assms c(1,2)] by (simp_all add: up_def)
    from live_publish [OF this c(3-5)] Pair Inr show ?thesis by (simp add: finishRun_def publishEvent_def)
  qed
qed

lemma emit_delta_up: "up S r s \<Longrightarrow> up S r (snd (emit_delta w rid safe s))"
  unfolding emit_delta_def by (intro preserved)

lemma assistant_block_up: "up S r s \<Longrightarrow> up S r (snd (assistant_block w rid resp projected s))"
  unfolding assistant_block_def
  by (auto simp: case_prod_beta intro!: preserved seqE [where P = "up S r"])

lemma tool_facts_up: "up S r s \<Longrightarrow> up S r (snd (tool_facts w rid c res s))"
  unfolding tool_facts_def
  by (auto simp: case_prod_beta Let_def intro!: preserved seqE [where P = "up S r"])

lemma step_at_live:
  assumes "up StateRunning r s"
  shows "live (step_at w rid goal p s)"
proof -
  note ops = preserved emit_delta_up assistant_block_up tool_facts_up
  have two: "live (case q of (Inl e, s') \<Rightarrow> f e s' | (Inr a, s') \<Rightarrow> g a s')"
    if "up StateRunning r (snd q)" "\<And>e t. up StateRunning r t \<Longrightarrow> live (f e t)" "\<And>a t. up StateRunning r t \<Longrightarrow> live (g a t)"
    for q :: "(engine_error, 'x) result \<times> session" and f g
    using that by (cases q; cases "fst q") auto
  have fault: "up StateRunning r t \<Longrightarrow> live (faultSession e t)" for t e
    by (simp add: up_live live_published live_fault)
  show ?thesis
    using assms
  proof (induction w rid goal p s rule: step_at.induct)
    case (1 w rid goal s)
    then show ?case by (auto intro: up_goto split: sum.split)
  next
    case (2 w rid goal req s)
    then show ?case by (auto intro!: two up_goto ops)
  next
    case (3 w rid goal req k s)
    then show ?case by (auto simp: case_prod_beta Let_def intro!: two [unfolded case_prod_beta] up_goto ops)
  next
    case (5 w rid goal req k d ds fin streamed rd s)
    then show ?case by (cases "sr_write NewDetector d rd") (auto simp: Let_def intro!: two up_goto ops)
  next
    case (6 w rid goal req k f s)
    then show ?case by (auto simp: Let_def intro!: two up_goto ops)
  next
    case (8 w rid goal req k f delay s)
    then show ?case by (auto intro!: two up_goto ops)
  next
    case (10 w rid goal res streamed rd s)
    then show ?case by (auto simp: Let_def intro!: two up_goto ops)
  next
    case (11 w rid goal res streamed s)
    then show ?case by (auto simp: Let_def intro!: up_goto ops)
  next
    case (12 w rid goal resp projected s)
    then show ?case by (auto intro!: two up_goto ops)
  next
    case (13 w rid goal cs s)
    then show ?case by (auto simp: case_prod_beta intro!: two [unfolded case_prod_beta] up_goto ops fault)
  next
    case (15 w rid goal c sensitive rest stopped blocked s)
    then show ?case by (auto intro!: two up_goto ops fault)
  next
    case (17 w rid goal c res rest stopped blocked s)
    then show ?case by (auto intro!: two up_goto ops fault)
  next
    case (19 w rid goal oc cause s)
    then show ?case by (auto intro: finishRun_live)
  qed (auto simp: Let_def intro!: up_goto ops)
qed

lemma run_step_live [preserved]: "live s \<Longrightarrow> live (run_step w s)"
proof (cases "s_run s")
  case (Some x)
  assume "live s"
  with Some have "up StateRunning (Some x) s" by (simp add: up_def live_def)
  then show ?thesis by (cases x) (auto simp: run_step_def Some intro: step_at_live)
qed (simp add: run_step_def)

subsection \<open>Every move\<close>

lemma list_all_update: "list_all P xs \<Longrightarrow> P x \<Longrightarrow> list_all P (xs[i := x])"
  by (auto simp: list_all_iff dest: set_update_subset_insert [THEN subsetD])

lemma other_step_live: "other_step w s t \<Longrightarrow> live s \<Longrightarrow> live t"
proof (induction rule: other_step.induct)
  case (command gone cmd)
  then show ?case by (rule Apply_live)
next
  case (observe after)
  then show ?case
    by (auto simp: Observe_def live_def observed_def due_def sub_ok_new)
next
  case (leave i)
  then have "observed (s_history s) (s_subs s ! i)" by (simp add: live_def list_all_length)
  from observed_close [OF this] leave show ?case by (simp add: unsubscribe_def live_def list_all_update)
next
  case (deliver i t)
  then have "observed (s_history s) (s_subs s ! i)" by (simp add: live_def list_all_length)
  with deliver(2) have "observed (s_history s) ((s_subs s ! i)\<lparr>sn_sub := t\<rparr>)"
    by (auto simp: observed_def due_def intro: sub_ok_step)
  with deliver show ?case by (simp add: live_def list_all_update)
next
  case shut
  then show ?case by (auto simp: shutdownClose_def live_def list_all_iff observed_close)
qed (simp add: shutdownCancel_def live_def)

lemma sess_step_live: "sess_step w s t \<Longrightarrow> live s \<Longrightarrow> live t"
  by (erule sess_stepE) (auto intro: run_step_live other_step_live)

lemma reach_live: "reach w s t \<Longrightarrow> live s \<Longrightarrow> live t"
  by (induction rule: reach.induct) (auto intro: sess_step_live)

lemma fresh_live: "live (fresh_session i docs)"
  by (simp add: fresh_session_def live_def events_ok_def)

subsection \<open>A new session\<close>

definition created :: "store \<Rightarrow> bool" where
  "created st \<longleftrightarrow> (\<exists>lib resolve taken root i ws projection binding now io.
     Create lib resolve taken root i ws projection binding now io = Inr st)"

text \<open>What a session starts from: nothing, or the durable session just created.\<close>

lemma NewSession_starts:
  assumes "NewSession w i docs durable = (Inr (), s0)" "\<And>st. durable = Some st \<Longrightarrow> created st"
  shows "s_state s0 = StateIdle" "s_run s0 = None" "s_history s0 = []" "s_records s0 = []" "s_subs s0 = []" "s_cursor s0 = 0"
    "s_durable s0 = durable" "\<And>st. durable = Some st \<Longrightarrow> st_transcript st = [] \<and> st_events st = [] \<and>
      m_transcript_seq (st_manifest st) = 0 \<and> m_event_cursor (st_manifest st) = 0 \<and> m_active (st_manifest st) = None \<and>
      \<not> m_closed (st_manifest st)"
proof -
  have new: "st_transcript st = [] \<and> st_events st = [] \<and> m_transcript_seq (st_manifest st) = 0 \<and>
      m_event_cursor (st_manifest st) = 0 \<and> m_active (st_manifest st) = None \<and> \<not> m_closed (st_manifest st)"
    if "durable = Some st" for st
    using assms(2) [OF that] by (auto simp: created_def Create_def persist_def write_manifest_def Let_def
        split: if_splits option.splits io.splits)
  then show "\<And>st. durable = Some st \<Longrightarrow> st_transcript st = [] \<and> st_events st = [] \<and>
      m_transcript_seq (st_manifest st) = 0 \<and> m_event_cursor (st_manifest st) = 0 \<and> m_active (st_manifest st) = None \<and>
      \<not> m_closed (st_manifest st)" .
  show "s_state s0 = StateIdle" "s_run s0 = None" "s_history s0 = []" "s_records s0 = []" "s_subs s0 = []" "s_cursor s0 = 0"
    "s_durable s0 = durable"
    using assms(1) new
    by (cases durable; auto simp: NewSession_def load_session_def fresh_session_def close_records_def close_events_def
        close_facts_bad_def Let_def split: if_splits)+
qed

lemma NewSession_live:
  assumes "NewSession w i docs durable = (Inr (), s0)" "\<And>st. durable = Some st \<Longrightarrow> created st"
  shows "live s0"
  using NewSession_starts [OF assms] by (simp add: live_def events_ok_def)

subsection \<open>Properties\<close>

text \<open>
  C6: Observation is complete: in every reachable state, and whatever fails, an observer that
  is still subscribed has received, in order and without gap or repetition, a first part of the
  events after the cursor it asked for, the rest being in its queue; one that left or was cut
  off has received a first part of them.
\<close>

theorem observation_complete:
  assumes "NewSession w i docs durable = (Inr (), s0)" "\<And>st. durable = Some st \<Longrightarrow> created st"
    and "reach w s0 s" "n \<in> set (s_subs s)"
  shows "prefix (sub_out (sn_sub n)) (due (s_history s) n) \<and>
    (sub_closed (sn_sub n) \<or>
     sub_out (sn_sub n) @ sub_hand (sn_sub n) @ sub_queue (sn_sub n) = due (s_history s) n)"
proof -
  from reach_live [OF assms(3) NewSession_live [OF assms(1,2)]] assms(4) have "sub_ok (due (s_history s) n) (sn_sub n)"
    by (auto simp: live_def list_all_iff observed_def)
  with sub_okD show ?thesis by blast
qed

definition sample_world :: world where
  "sample_world = \<lparr>w_lib = sample_lib, w_clock = sample_clock, w_broker = [], w_assembler = None, w_docs = None,
     w_now = (\<lambda>n. int n + 1), w_io = (\<lambda>_. IoOk),
     w_call = (\<lambda>n req. ([], Inr \<lparr>resp_text = ''done'', resp_calls = [], resp_usage = no_usage, resp_reason = ReasonStop\<rparr>)),
     w_jitter = (\<lambda>_ d. d), w_wakes = (\<lambda>_. True), w_phase = (\<lambda>_. 0)\<rparr>"

lemma reach_observe: "reach w s (snd (Observe after s))"
  by (intro reach.step [OF reach.start] sess_step.other other_step.observe)

lemma sample_new: "NewSession sample_world ''s'' [] None = (Inr (), fresh_session ''s'' [])"
  by (simp add: NewSession_def)

theorem observation_complete_witness:
  "prefix (sub_out (newSubscriber [])) (due [] \<lparr>sn_after = 0, sn_from = 0, sn_sub = newSubscriber []\<rparr>) \<and>
   (sub_closed (newSubscriber []) \<or> sub_out (newSubscriber []) @ sub_hand (newSubscriber []) @
      sub_queue (newSubscriber []) = due [] \<lparr>sn_after = 0, sn_from = 0, sn_sub = newSubscriber []\<rparr>)"
  using observation_complete [OF sample_new _ reach_observe [of sample_world "fresh_session ''s'' []" 0],
      of "\<lparr>sn_after = 0, sn_from = 0, sn_sub = newSubscriber []\<rparr>"]
  by (simp add: Observe_def fresh_session_def)

text \<open>
  C10: The event history of a session is contiguous and belongs to it: in every reachable
  state each event validates, names the session, and has its position as cursor; unless the
  session is faulted, its cursor is the number of events; and a run is active exactly in the
  running state.
\<close>

theorem history_contiguous:
  assumes "NewSession w i docs durable = (Inr (), s0)" "\<And>st. durable = Some st \<Longrightarrow> created st"
    and "reach w s0 s" "k < length (s_history s)"
  shows "ev_validate (s_history s ! k) = Inr () \<and> ev_session (s_history s ! k) = s_id s \<and>
    ev_cursor (s_history s ! k) = of_nat (k + 1) \<and>
    (s_state s = StateFaulted \<or> s_cursor s = of_nat (length (s_history s))) \<and>
    (s_state s = StateRunning) = (s_run s \<noteq> None)"
  using reach_live [OF assms(3) NewSession_live [OF assms(1,2)]] assms(4) by (auto simp: live_def events_ok_def busy_def)

lemma sample_validate: "cmd_validate (NewResume ''c'') = Inr ()" "cmd_session (NewResume ''c'') = []"
  "cmd_id (NewResume ''c'') = ''c''" "cmd_kind (NewResume ''c'') = KindResume"
  by (simp_all add: cmd_validate_control) (simp_all add: cmd_new_defs)

lemma sample_resumed:
  "\<exists>ev. ev_new ''s'' [] 1 2 (ev_kind_of SessionResumedPayload) SessionResumedPayload = Inr ev \<and>
     s_history (snd (Apply sample_world False (NewResume ''c'') (fresh_session ''s'' []))) = [ev]"
proof -
  have "ev_new ''s'' [] 1 2 (ev_kind_of SessionResumedPayload) SessionResumedPayload =
    Inr \<lparr>ev_session = ''s'', ev_run = [], ev_cursor = 1, ev_time = 2, ev_kind = KindSessionResumed,
      ev_payload = ev_marshal SessionResumedPayload\<rparr>"
    by (subst ev_new_ok) (simp_all add: envelope_ok_def runFact_def)
  then show ?thesis
    by (simp add: Apply_def sample_validate applyResume_def recordCommand_def fresh_session_def or_fault_def emit_def
        persistEvent_def tick_def sample_world_def now_def publishEvent_def)
qed

theorem history_contiguous_witness:
  "ev_cursor (s_history (snd (Apply sample_world False (NewResume ''c'') (fresh_session ''s'' []))) ! 0) = 1"
proof -
  let ?s = "snd (Apply sample_world False (NewResume ''c'') (fresh_session ''s'' []))"
  have "reach sample_world (fresh_session ''s'' []) ?s"
    by (intro reach.step [OF reach.start] sess_step.other other_step.command)
  moreover have "0 < length (s_history ?s)" using sample_resumed by auto
  ultimately show ?thesis using history_contiguous [OF sample_new, of ?s 0] by simp
qed

end
