(* ===== verification/Sessionend.thy ===== *)
theory Sessionend
  imports Sessionlive
begin

text \<open>
  Every run ends. The budgets of a run and the position of its goroutine give a measure that
  each move of the goroutine lowers and that nothing else raises while the run is active.
\<close>

subsection \<open>Budgets during a run\<close>

definition budget_of :: "bytes \<Rightarrow> session \<Rightarrow> run_budget" where
  "budget_of rid s = (case (case s_durable s of Some st \<Rightarrow> m_budgets (st_manifest st) rid | None \<Rightarrow> s_budget s rid) of
     None \<Rightarrow> zero_budget | Some b \<Rightarrow> b)"

definition calls_left :: "bytes \<Rightarrow> session \<Rightarrow> nat" where
  "calls_left rid s = 64 - unat (logical_calls (budget_of rid s))"

definition attempts_left :: "bytes \<Rightarrow> session \<Rightarrow> nat" where
  "attempts_left rid s = 96 - unat (attempts (budget_of rid s))"

definition keeps_budget :: "session \<Rightarrow> session \<Rightarrow> bool" where
  "keeps_budget s t \<longleftrightarrow> (\<forall>rid. budget_of rid t = budget_of rid s)"

lemma keeps_budget_refl [simp]: "keeps_budget s s"
  by (simp add: keeps_budget_def)

lemma keeps_budget_trans [trans]: "keeps_budget s t \<Longrightarrow> keeps_budget t u \<Longrightarrow> keeps_budget s u"
  by (simp add: keeps_budget_def)

declare persist_manifest [simp]

lemma store_budgets [simp]:
  "m_budgets (st_manifest (snd (AppendTranscript ct rs io st))) = m_budgets (st_manifest st)"
  "m_budgets (st_manifest (snd (AppendEvent ct e io st))) = m_budgets (st_manifest st)"
  "m_budgets (st_manifest (snd (RecordCommand c t io st))) = m_budgets (st_manifest st)"
  "m_budgets (st_manifest (snd (FinishRun r t io st))) = m_budgets (st_manifest st)"
  "m_budgets (st_manifest (snd (Close t io st))) = m_budgets (st_manifest st)"
  by (auto simp: AppendTranscript_def AppendEvent_def RecordCommand_def FinishRun_def Close_def Let_def
      split: sum.split prod.split)

lemma budget_frames [frames]:
  "keeps_budget s (snd (appendPayload w rid p s))" "keeps_budget s (snd (appendToolCalls w rid cs s))"
  "keeps_budget s (snd (persistEvent w rid ev s))" "keeps_budget s (snd (recordCommand w c s))"
  "keeps_budget s (snd (finishDurable w rid s))"
  by (auto simp: keeps_budget_def budget_of_def effect_defs on_store_pair Let_def
      split: sum.split option.split prod.split)

lemma budget_emit [frames]: "keeps_budget s (snd (emit w rid p s))"
proof -
  have "keeps_budget t (publishEvent ev t)" for t ev
    by (simp add: keeps_budget_def budget_of_def publishEvent_def cong: option.case_cong)
  with budget_frames(3) [of s w rid p] keeps_budget_trans show ?thesis
    by (cases "persistEvent w rid p s"; cases "fst (persistEvent w rid p s)") (auto simp: emit_def)
qed

lemma budget_fields [simp]:
  "budget_of r (s\<lparr>s_partial := x\<rparr>) = budget_of r s" "budget_of r (s\<lparr>s_tool := y\<rparr>) = budget_of r s"
  "budget_of r (tick s) = budget_of r s" "budget_of r (goto rid goal p s) = budget_of r s"
  by (simp_all add: budget_of_def tick_def goto_def cong: option.case_cong)

text \<open>A reservation never raises what is left, and a successful one of a counter lowers it.\<close>

lemma unat_inc64: "(x :: u64) < y \<Longrightarrow> unat (x + 1) = unat x + 1"
proof -
  assume "x < y"
  then have "unat x < unat y" by (simp add: word_less_nat_alt)
  moreover have "unat y < 2 ^ LENGTH(64)" by (rule unsigned_less)
  ultimately show ?thesis by (simp add: unat_word_ariths)
qed

lemma reserve_logical:
  assumes "reserve_in BudgetLogicalModelCall n b = Inr b'"
  shows "unat (logical_calls b) < 64 \<and> unat (logical_calls b') = unat (logical_calls b) + 1 \<and> attempts b' = attempts b"
proof -
  from assms have lt: "logical_calls b < 64" and b': "b' = b\<lparr>logical_calls := logical_calls b + 1\<rparr>"
    by (auto simp: reserve_in_def MaxLogicalModelCalls_def not_le split: if_splits)
  from lt have "unat (logical_calls b) < 64" by (simp add: word_less_nat_alt)
  with unat_inc64 [OF lt] b' show ?thesis by simp
qed

lemma reserve_transport:
  assumes "reserve_in BudgetTransportAttempt n b = Inr b'"
  shows "unat (attempts b) < 96 \<and> unat (attempts b') = unat (attempts b) + 1 \<and> logical_calls b' = logical_calls b"
proof -
  from assms have lt: "attempts b < 96" and b': "b' = b\<lparr>attempts := attempts b + 1\<rparr>"
    by (auto simp: reserve_in_def MaxTransportAttempts_def not_le split: if_splits)
  from lt have "unat (attempts b) < 96" by (simp add: word_less_nat_alt)
  with unat_inc64 [OF lt] b' show ?thesis by simp
qed

lemma reserve_delay:
  "reserve_in BudgetRetryDelay n b = Inr b' \<Longrightarrow> logical_calls b' = logical_calls b \<and> attempts b' = attempts b"
  by (auto simp: reserve_in_def split: if_splits)

lemma reserve_in_counts:
  assumes "reserve_in k n b = Inr b'"
  shows "unat (logical_calls b) \<le> unat (logical_calls b')" "unat (attempts b) \<le> unat (attempts b')"
  using assms reserve_logical [of n b b'] reserve_transport [of n b b'] reserve_delay [of n b b']
  by (cases k; simp add: reserve_in_def [of "BudgetOther _"])+

lemma reserve_shape:
  "budget_of rid (snd (reserve w rid k n s)) = budget_of rid s \<and> (\<exists>e. fst (reserve w rid k n s) = Inl e) \<or>
   (\<exists>b'. reserve_in k n (budget_of rid s) = Inr b' \<and> budget_of rid (snd (reserve w rid k n s)) = b') \<or>
   (\<exists>b. k = BudgetOther b) \<and> budget_of rid (snd (reserve w rid k n s)) = budget_of rid s"
proof (cases "s_durable s")
  case None
  then show ?thesis
    by (cases "s_budget s rid"; cases "reserve_in k n (budget_of rid s)"; cases k)
       (auto simp: reserve_def budget_of_def reserve_in_def Let_def split: if_splits)
next
  case (Some st)
  show ?thesis
  proof (cases "m_budgets (st_manifest st) rid")
    case None
    with Some show ?thesis by (simp add: reserve_def on_store_pair ReserveBudget_def budget_of_def Let_def)
  next
    case (Some b)
    with \<open>s_durable s = Some st\<close> show ?thesis
      by (cases "reserve_in k n b") (auto simp: reserve_def on_store_pair ReserveBudget_def budget_of_def Let_def)
  qed
qed

lemma reserve_left:
  "calls_left rid (snd (reserve w rid k n s)) \<le> calls_left rid s"
  "attempts_left rid (snd (reserve w rid k n s)) \<le> attempts_left rid s"
  using reserve_shape [of rid w k n s] reserve_in_counts(1,2) [of k n "budget_of rid s"]
  by (auto simp: calls_left_def attempts_left_def intro: diff_le_mono2)

lemma reserve_ok_shape:
  assumes "reserve w rid k n s = (Inr (), t)" "\<And>b. k \<noteq> BudgetOther b"
  obtains b' where "reserve_in k n (budget_of rid s) = Inr b'" "budget_of rid t = b'"
  using reserve_shape [of rid w k n s] assms by auto

lemma reserve_strict:
  "reserve w rid BudgetLogicalModelCall n s = (Inr (), t) \<Longrightarrow> calls_left rid t < calls_left rid s"
  "reserve w rid BudgetTransportAttempt n s = (Inr (), t) \<Longrightarrow>
     attempts_left rid t < attempts_left rid s \<and> calls_left rid t = calls_left rid s"
proof -
  show "calls_left rid t < calls_left rid s" if "reserve w rid BudgetLogicalModelCall n s = (Inr (), t)"
    using that by (rule reserve_ok_shape) (auto dest: reserve_logical simp: calls_left_def)
  show "attempts_left rid t < attempts_left rid s \<and> calls_left rid t = calls_left rid s"
    if "reserve w rid BudgetTransportAttempt n s = (Inr (), t)"
    using that by (rule reserve_ok_shape) (auto dest: reserve_transport simp: attempts_left_def calls_left_def)
qed

subsection \<open>The measure\<close>

definition reply_calls :: "('e, response) result \<Rightarrow> nat" where
  "reply_calls r = (case r of Inl _ \<Rightarrow> 0 | Inr resp \<Rightarrow> length (resp_calls resp))"

fun rank :: "pc \<Rightarrow> nat" where
  "rank (AtFinish oc cause) = 1"
| "rank (AtReserve req) = 2"
| "rank AtTop = 3"
| "rank (AtAfter blocked) = 4"
| "rank (AtTool todo stopped blocked) = 5 + 3 * length todo"
| "rank (AtExecute c gone rest stopped blocked) = 7 + 3 * length rest"
| "rank (AtResult c r rest stopped blocked) = 6 + 3 * length rest"
| "rank (AtCalls cs) = 6 + 3 * length cs"
| "rank (AtBlock resp projected) = 7 + 3 * length (resp_calls resp)"
| "rank (AtDecide res streamed) = 8 + 3 * reply_calls res"
| "rank (AtEnded res streamed rd) = 9 + 3 * reply_calls res"
| "rank (AtAttempt req k) = 10"
| "rank (AtSleep req k) = 11"
| "rank (AtAnnounce req k f delay) = 12"
| "rank (AtReset req k f delay) = 13"
| "rank (AtBackoff req k f) = 14"
| "rank (AtStream req k ds fin streamed rd) = 15 + length ds + 3 * reply_calls fin"

lemma reply_calls_simps [simp]: "reply_calls (Inl e) = 0" "reply_calls (Inr r) = length (resp_calls r)"
  by (simp_all add: reply_calls_def)

definition lex3 :: "((nat \<times> nat \<times> nat) \<times> (nat \<times> nat \<times> nat)) set" where
  "lex3 = less_than <*lex*> less_than <*lex*> less_than"

lemma wf_lex3: "wf lex3"
  by (simp add: lex3_def wf_lex_prod)

lemma trans_lex3: "trans lex3"
  by (simp add: lex3_def)

definition weight_at :: "bytes \<Rightarrow> pc \<Rightarrow> session \<Rightarrow> nat \<times> nat \<times> nat" where
  "weight_at rid p s = (calls_left rid s, attempts_left rid s, Suc (rank p))"

definition weight :: "session \<Rightarrow> nat \<times> nat \<times> nat" where
  "weight s = (case s_run s of None \<Rightarrow> (0, 0, 0) | Some (rid, goal, p) \<Rightarrow> weight_at rid p s)"

lemma weight_goto: "weight (goto rid goal p s) = weight_at rid p s"
  by (simp add: weight_def goto_def weight_at_def calls_left_def attempts_left_def budget_of_def cong: option.case_cong)

lemma weight_fault: "(weight (faultSession e t), weight_at rid p s) \<in> lex3"
  by (auto simp: weight_def faultSession_def weight_at_def lex3_def)

lemma move_le:
  assumes "calls_left rid t \<le> calls_left rid s" "attempts_left rid t \<le> attempts_left rid s" "rank p' < rank p"
  shows "(weight (goto rid goal p' t), weight_at rid p s) \<in> lex3"
  using assms by (auto simp: weight_goto weight_at_def lex3_def)

lemma move_keeps:
  "keeps_budget s t \<Longrightarrow> rank p' < rank p \<Longrightarrow> (weight (goto rid goal p' t), weight_at rid p s) \<in> lex3"
  by (rule move_le) (simp_all add: keeps_budget_def calls_left_def attempts_left_def)

lemma keeps_fields [simp]:
  "keeps_budget s (s\<lparr>s_partial := x\<rparr>)" "keeps_budget s (s\<lparr>s_tool := y\<rparr>)" "keeps_budget s (tick s)"
  by (simp_all add: keeps_budget_def)

lemma keeps_after:
  "keeps_budget (s\<lparr>s_partial := x\<rparr>) t \<longleftrightarrow> keeps_budget s t" "keeps_budget (s\<lparr>s_tool := y\<rparr>) t \<longleftrightarrow> keeps_budget s t"
  "keeps_budget s (t\<lparr>s_partial := x\<rparr>) \<longleftrightarrow> keeps_budget s t" "keeps_budget s (t\<lparr>s_tool := y\<rparr>) \<longleftrightarrow> keeps_budget s t"
  by (simp_all add: keeps_budget_def)

lemma emit_delta_keeps: "keeps_budget s (snd (emit_delta w rid safe s))"
  using budget_emit [of "s\<lparr>s_partial := s_partial s @ safe\<rparr>" w rid] by (simp add: emit_delta_def keeps_after)

lemma assistant_block_keeps: "keeps_budget s (snd (assistant_block w rid resp projected s))"
proof -
  have "keeps_budget s (snd (seq (appendPayload w rid (AssistantBlockPayload projected) s)
      (\<lambda>_ s. emit w rid (AssistantTextPayload projected) s)))"
    by (rule seqE [where P = "keeps_budget s"]) (auto intro: frames keeps_budget_trans [OF _ budget_emit])
  then show ?thesis by (simp add: assistant_block_def case_prod_beta keeps_after)
qed

lemma tool_facts_keeps: "keeps_budget s (snd (tool_facts w rid c r s))"
proof -
  have "keeps_budget s ((snd (appendPayload w rid (result_payload r) s))\<lparr>s_tool := None\<rparr>)"
    by (simp add: keeps_after frames)
  with keeps_budget_trans [OF _ budget_emit] show ?thesis
    by (auto simp: tool_facts_def case_prod_beta Let_def intro!: seqE [where P = "keeps_budget s"])
qed

text \<open>Two-way results: the error branch and the value branch each lower the measure.\<close>

lemma two_moves:
  assumes "\<And>e t. q = (Inl e, t) \<Longrightarrow> (weight (f e t), x) \<in> lex3" "\<And>a t. q = (Inr a, t) \<Longrightarrow> (weight (g a t), x) \<in> lex3"
  shows "(weight (case q of (Inl e, t) \<Rightarrow> f e t | (Inr a, t) \<Rightarrow> g a t), x) \<in> lex3"
  using assms by (cases q; cases "fst q") auto

lemma keeps_pair: "keeps_budget s (snd q) \<Longrightarrow> q = (r, t) \<Longrightarrow> keeps_budget s t"
  by simp

lemma finishRun_weight: "(weight (finishRun w rid oc cause s), weight_at rid p s') \<in> lex3"
proof -
  have "s_run (finishRun w rid oc cause s) = None"
    by (simp add: finishRun_def case_prod_beta faultSession_def split: sum.split)
  then show ?thesis by (auto simp: weight_def weight_at_def lex3_def)
qed

lemma step_at_weight: "(weight (step_at w rid goal p s), weight_at rid p s) \<in> lex3"
proof (induction w rid goal p s rule: step_at.induct)
  case (1 w rid goal s)
  then show ?case by (auto intro!: move_keeps split: sum.split)
next
  case (2 w rid goal req s)
  show ?case unfolding step_at.simps
  proof (rule two_moves)
    fix e t assume "reserve w rid BudgetLogicalModelCall 0 s = (Inl e, t)"
    with reserve_left [of rid w BudgetLogicalModelCall 0 s]
    show "(weight (goto rid goal (AtFinish RunOutcomeFailed CauseBudgetExhausted) t), weight_at rid (AtReserve req) s) \<in> lex3"
      by (intro move_le) auto
  next
    fix a t assume "reserve w rid BudgetLogicalModelCall 0 s = (Inr a, t)"
    then have "calls_left rid t < calls_left rid s" by (simp add: reserve_strict(1))
    then show "(weight (goto rid goal (AtAttempt req 0) t), weight_at rid (AtReserve req) s) \<in> lex3"
      by (simp add: weight_goto weight_at_def lex3_def)
  qed
next
  case (3 w rid goal req k s)
  show ?case unfolding step_at.simps start_attempt_def
  proof (rule two_moves)
    fix e t assume "reserve w rid BudgetTransportAttempt 0 s = (Inl e, t)"
    with reserve_left [of rid w BudgetTransportAttempt 0 s]
    show "(weight (goto rid goal (AtEnded (Inl (Callback e)) [] NewStreamRedactor) t), weight_at rid (AtAttempt req k) s) \<in> lex3"
      by (intro move_le) auto
  next
    fix a t assume "reserve w rid BudgetTransportAttempt 0 s = (Inr a, t)"
    then have "attempts_left rid t < attempts_left rid s \<and> calls_left rid t = calls_left rid s"
      by (simp add: reserve_strict(2))
    then show "(weight (let (ds, fin) = w_call w (s_tick t) req in
        goto rid goal (AtStream req k ds fin [] NewStreamRedactor) (tick t)), weight_at rid (AtAttempt req k) s) \<in> lex3"
      by (simp add: case_prod_beta Let_def weight_goto weight_at_def lex3_def calls_left_def attempts_left_def)
  qed
next
  case (4 w rid goal req k fin streamed rd s)
  show ?case by (auto simp: next_attempt_def intro!: move_keeps split: sum.split option.split)
next
  case (5 w rid goal req k d ds fin streamed rd s)
  show ?case
    by (cases "sr_write NewDetector d rd")
       (auto simp: Let_def intro!: move_keeps two_moves dest: keeps_pair [OF emit_delta_keeps])
next
  case (6 w rid goal req k f s)
  show ?case unfolding step_at.simps schedule_retry_def Let_def
  proof (rule two_moves)
    fix e t assume "reserve w rid BudgetRetryDelay (next_delay (w_jitter w (s_tick s)) f k) s = (Inl e, t)"
    with reserve_left [of rid w BudgetRetryDelay "next_delay (w_jitter w (s_tick s)) f k" s]
    show "(weight (goto rid goal (AtEnded (Inl (Callback e)) [] NewStreamRedactor) t), weight_at rid (AtBackoff req k f) s) \<in> lex3"
      by (intro move_le) auto
  next
    fix a t assume "reserve w rid BudgetRetryDelay (next_delay (w_jitter w (s_tick s)) f k) s = (Inr a, t)"
    with reserve_left [of rid w BudgetRetryDelay "next_delay (w_jitter w (s_tick s)) f k" s]
    show "(weight (goto rid goal (AtReset req k f (next_delay (w_jitter w (s_tick s)) f k)) t),
        weight_at rid (AtBackoff req k f) s) \<in> lex3"
      by (intro move_le) auto
  qed
next
  case (8 w rid goal req k f delay s)
  show ?case by (auto intro!: move_keeps two_moves keeps_pair [OF budget_emit])
next
  case (10 w rid goal res streamed rd s)
  show ?case by (auto simp: Let_def intro!: move_keeps two_moves dest: keeps_pair [OF emit_delta_keeps])
next
  case (11 w rid goal res streamed s)
  have "rank (decide c res streamed) < rank (AtDecide res streamed)" for c
    by (auto simp: decide_def Let_def split: sum.split)
  then show ?case by (auto simp: Let_def intro!: move_keeps)
next
  case (12 w rid goal resp projected s)
  have "rank (after_block (resp_calls resp)) < rank (AtBlock resp projected)" by (simp add: after_block_def)
  then show ?case by (auto intro!: move_keeps two_moves keeps_pair [OF assistant_block_keeps])
next
  case (13 w rid goal cs s)
  show ?case
    by (auto simp: ProjectCalls_def intro!: move_keeps two_moves keeps_pair [OF budget_frames(2)] weight_fault)
next
  case (15 w rid goal c sensitive rest stopped blocked s)
  have "keeps_budget s (snd (emit w rid p (s\<lparr>s_tool := x\<rparr>)))" for p x
    using budget_emit [of "s\<lparr>s_tool := x\<rparr>" w rid p] by (simp add: keeps_after)
  note keep = keeps_pair [OF this]
  then show ?case by (auto intro!: move_keeps two_moves weight_fault dest: keep)
next
  case (17 w rid goal c r rest stopped blocked s)
  show ?case by (auto intro!: move_keeps two_moves keeps_pair [OF tool_facts_keeps] weight_fault)
next
  case (19 w rid goal oc cause s)
  show ?case by (simp add: finishRun_weight)
qed (auto simp: Let_def intro!: move_keeps)

lemma run_step_weight: "s_run s \<noteq> None \<Longrightarrow> (weight (run_step w s), weight s) \<in> lex3"
proof -
  assume "s_run s \<noteq> None"
  then obtain rid goal p where r: "s_run s = Some (rid, goal, p)" by auto
  with step_at_weight [of w rid goal p s] show ?thesis
    by (simp add: run_step_def weight_def [of s])
qed

subsection \<open>Other operations while a run is active\<close>

lemma cancel_active:
  assumes "s_state s = StateRunning"
  shows "s_run (snd (applyCancel w cmd s)) = s_run s \<and> keeps_budget s (snd (applyCancel w cmd s))"
  unfolding applyCancel_def
proof (rule seq_rule [where I = "\<lambda>t. s_run t = s_run s \<and> keeps_budget s t"])
  show "s_run (snd (recordCommand w (cmd_id cmd) s)) = s_run s \<and> keeps_budget s (snd (recordCommand w (cmd_id cmd) s))"
    using same_coreD(7) [OF core_frames(5)] budget_frames(4) by blast
qed (auto simp: keeps_budget_def budget_of_def cong: option.case_cong)

lemma Apply_active:
  assumes "s_state s = StateRunning"
  shows "s_run (snd (Apply w gone cmd s)) = s_run s \<and> keeps_budget s (snd (Apply w gone cmd s))"
  using assms cancel_active [OF assms, of w cmd]
  by (auto simp: Apply_def applySubmit_def applyResume_def applyClose_def split: sum.split cmd_kind.split)

lemma other_active:
  assumes "other_step w s t" "live s" "s_run s \<noteq> None"
  shows "s_run t = s_run s \<and> keeps_budget s t"
proof -
  have st: "s_state s = StateRunning" using assms(2,3) by (simp add: live_def busy_def)
  have upd: "keeps_budget s t" if "s_durable t = s_durable s" "s_budget t = s_budget s" for t
    using that by (cases "s_durable s") (simp_all add: keeps_budget_def budget_of_def)
  from assms(1) show ?thesis
    by cases (auto simp: Apply_active st intro: upd simp: Observe_def unsubscribe_def shutdownCancel_def shutdownClose_def)
qed

lemma other_weight:
  assumes "other_step w s t" "live s" "s_run s \<noteq> None"
  shows "weight t = weight s"
  using other_active [OF assms]
  by (auto simp: weight_def weight_at_def keeps_budget_def calls_left_def attempts_left_def split: option.split)

lemma sess_step_weight:
  assumes "sess_step w s t" "live s" "s_run s \<noteq> None"
  shows "weight t = weight s \<or> (weight t, weight s) \<in> lex3"
  using assms by cases (auto simp: run_step_weight other_weight)

text \<open>A sequence that never rises along a well-founded relation does not fall for ever.\<close>

lemma eventually_constant:
  assumes "wf r" "trans r" "\<And>i. g (Suc i) = g i \<or> (g (Suc i), g i) \<in> r"
  shows "\<exists>N. \<forall>j \<ge> N. g j = g N"
proof -
  have "\<forall>i. g i = x \<longrightarrow> (\<exists>N \<ge> i. \<forall>j \<ge> N. g j = g N)" for x
    using assms(1)
  proof (induction x rule: wf_induct_rule)
    case (less x)
    show ?case
    proof (intro allI impI)
      fix i assume i: "g i = x"
      show "\<exists>N \<ge> i. \<forall>j \<ge> N. g j = g N"
      proof (cases "\<forall>j \<ge> i. g j = x")
        case True
        with i show ?thesis by (intro exI [of _ i]) simp
      next
        case False
        then obtain j where j: "i \<le> j" "g j \<noteq> x" by auto
        have "g k = x \<or> (g k, x) \<in> r" if "i \<le> k" for k
          using that
        proof (induction k rule: dec_induct)
          case (step k)
          with assms(3) [of k] assms(2) show ?case by (metis transD)
        qed (use i in simp)
        with j have "(g j, x) \<in> r" by blast
        from less.IH [OF this] obtain N where "j \<le> N" "\<forall>l \<ge> N. g l = g N" by blast
        with j(1) show ?thesis by (meson le_trans)
      qed
    qed
  qed
  from this [of "g 0", rule_format, OF refl] show ?thesis by blast
qed

subsection \<open>Properties\<close>

text \<open>
  C7: Every run ends: in any infinite execution in which the goroutine of an active run keeps
  being scheduled, whatever commands, observers, failures, retries and tool calls are
  interleaved, there is a moment at which no run is active. The budgets of 64 model calls and
  96 attempts are what bounds the loop.
\<close>

theorem run_ends:
  assumes "live (f 0)" "\<And>i. sess_step w (f i) (f (Suc i))"
    and "\<And>i. \<exists>j \<ge> i. f (Suc j) = run_step w (f j)"
  shows "\<exists>k. s_run (f k) = None"
proof (rule ccontr)
  assume "\<not> (\<exists>k. s_run (f k) = None)"
  then have active: "s_run (f i) \<noteq> None" for i by metis
  have live: "live (f i)" for i
    by (induction i) (use assms(1,2) sess_step_live in auto)
  have "weight (f (Suc i)) = weight (f i) \<or> (weight (f (Suc i)), weight (f i)) \<in> lex3" for i
    using sess_step_weight [OF assms(2) live active] .
  from eventually_constant [of lex3 "\<lambda>i. weight (f i)", OF wf_lex3 trans_lex3 this]
  obtain N where N: "\<forall>j \<ge> N. weight (f j) = weight (f N)" by blast
  from assms(3) [of N] obtain j where j: "N \<le> j" "f (Suc j) = run_step w (f j)" by blast
  with run_step_weight [OF active, of w j] N have "(weight (f N), weight (f N)) \<in> lex3"
    by (metis le_SucI)
  then show False using wf_lex3 by (meson wf_irrefl)
qed

definition sample_running :: session where
  "sample_running = (fresh_session ''s'' [])\<lparr>s_state := StateRunning, s_run := Some (''run-1'', ''hi'', AtTop)\<rparr>"

theorem run_ends_witness:
  "\<exists>k. s_run ((run_step sample_world ^^ k) sample_running) = None"
proof (rule run_ends)
  let ?f = "\<lambda>k. (run_step sample_world ^^ k) sample_running"
  show live: "live (?f 0)" using fresh_live [of "''s''" "[]"]
    by (simp add: sample_running_def live_def fresh_session_def)
  have all: "live (?f i)" for i
    using live by (induction i) (simp_all add: run_step_live)
  show "sess_step sample_world (?f i) (?f (Suc i))" for i
  proof (cases "s_run (?f i) = None")
    case True
    with all [of i] have "shutdownCancel (?f i) = ?f (Suc i)" by (simp add: shutdownCancel_def run_step_def live_def)
    with other_step.stop [of sample_world "?f i"] show ?thesis by (simp add: sess_step.other)
  next
    case False
    then show ?thesis using sess_step.run [of "?f i" sample_world] by simp
  qed
  show "\<exists>j \<ge> i. ?f (Suc j) = run_step sample_world (?f j)" for i by (intro exI [of _ i]) simp
qed

text \<open>
  C8: Each move of a run's goroutine lowers a well-founded measure: the model calls left, then
  the transport attempts left, then the rank of the position it is at; so even with all the
  fault branches taken the loop performs finitely many moves.
\<close>

theorem run_move_decreases:
  assumes "s_run s \<noteq> None"
  shows "(weight (run_step w s), weight s) \<in> lex3 \<and> wf lex3"
  using run_step_weight [OF assms] wf_lex3 by blast

theorem run_move_decreases_witness:
  "(weight (run_step sample_world sample_running), weight sample_running) \<in> lex3 \<and> wf lex3"
  by (rule run_move_decreases) (simp add: sample_running_def)

end
