(* ===== verification/Sessionlog.thy ===== *)
theory Sessionlog
  imports Sessionlive
begin

text \<open>
  The transcript a session keeps. As long as no write has failed (\<open>calm\<close>) and the provider does
  not use a call identity twice (\<open>provider_fresh\<close>), the records are at every moment a valid log,
  equal to the durable one, whose open calls are exactly those the goroutine still has to
  answer; so a log at rest has no open call.
\<close>

subsection \<open>The assumptions on the outside\<close>

definition calm :: "world \<Rightarrow> session \<Rightarrow> bool" where
  "calm w s \<longleftrightarrow> (\<forall>n < s_tick s. w_io w n = IoOk)"

lemma calm_earlier: "calm w t \<Longrightarrow> s_tick s \<le> s_tick t \<Longrightarrow> calm w s"
  by (simp add: calm_def)

text \<open>The identity under which a call is stored.\<close>

definition safe_ids :: "world \<Rightarrow> tool_call list \<Rightarrow> bytes list" where
  "safe_ids w cs = map (\<lambda>c. to_valid (tc_id (fst (project_call (w_lib w) c)))) cs"

definition stored_id :: "bytes \<Rightarrow> bool" where "stored_id i \<longleftrightarrow> to_valid i = i"

lemma stored_id_valid [simp]: "stored_id (to_valid i)"
  by (simp add: stored_id_def)

text \<open>
  \<open>owner\<close> tells for a call identity the one attempt that may use it, the attempt at tick \<open>n\<close>
  being \<open>n + 1\<close>; 0 is for the calls of a transcript that was there before.
\<close>

definition provider_fresh :: "world \<Rightarrow> (bytes \<Rightarrow> nat) \<Rightarrow> bool" where
  "provider_fresh w owner \<longleftrightarrow> (\<forall>n req ds resp. w_call w n req = (ds, Inr resp) \<longrightarrow>
     distinct (safe_ids w (resp_calls resp)) \<and> (\<forall>i \<in> set (safe_ids w (resp_calls resp)). owner i = Suc n))"

subsection \<open>The records and the durable transcript\<close>

definition matches :: "session \<Rightarrow> bool" where
  "matches s \<longleftrightarrow> (\<forall>st. s_durable s = Some st \<longrightarrow> st_transcript st = s_records s \<and>
     m_transcript_seq (st_manifest st) = of_nat (length (s_records s)))"

definition keeps_log :: "session \<Rightarrow> session \<Rightarrow> bool" where
  "keeps_log s t \<longleftrightarrow> s_records t = s_records s \<and> s_tick s \<le> s_tick t \<and> (matches s \<longrightarrow> matches t)"

lemma keeps_log_refl [simp]: "keeps_log s s"
  by (simp add: keeps_log_def)

lemma keeps_log_trans [trans]: "keeps_log s t \<Longrightarrow> keeps_log t u \<Longrightarrow> keeps_log s u"
  by (auto simp: keeps_log_def)

lemma store_transcript [simp]:
  "st_transcript (snd (AppendEvent ct e io st)) = st_transcript st"
  "m_transcript_seq (st_manifest (snd (AppendEvent ct e io st))) = m_transcript_seq (st_manifest st)"
  "st_transcript (snd (RecordCommand c t io st)) = st_transcript st"
  "m_transcript_seq (st_manifest (snd (RecordCommand c t io st))) = m_transcript_seq (st_manifest st)"
  "st_transcript (snd (FinishRun r t io st)) = st_transcript st"
  "m_transcript_seq (st_manifest (snd (FinishRun r t io st))) = m_transcript_seq (st_manifest st)"
  "st_transcript (snd (Close t io st)) = st_transcript st"
  "m_transcript_seq (st_manifest (snd (Close t io st))) = m_transcript_seq (st_manifest st)"
  "st_transcript (snd (BeginRun c t io st)) = st_transcript st"
  "m_transcript_seq (st_manifest (snd (BeginRun c t io st))) = m_transcript_seq (st_manifest st)"
  "st_transcript (snd (ReserveBudget r k n io st)) = st_transcript st"
  "m_transcript_seq (st_manifest (snd (ReserveBudget r k n io st))) = m_transcript_seq (st_manifest st)"
  by (auto simp: AppendEvent_def RecordCommand_def FinishRun_def Close_def BeginRun_def ReserveBudget_def
      Let_def persist_disk(1) split: sum.split prod.split option.split)

lemma log_frames [frames]:
  "keeps_log s (snd (persistEvent w rid ev s))" "keeps_log s (snd (reserve w rid k n s))"
  "keeps_log s (snd (recordCommand w c s))" "keeps_log s (snd (beginRun w c s))"
  "keeps_log s (snd (closeDurable w s))" "keeps_log s (snd (finishDurable w rid s))"
  "keeps_log s (snd (reconcileDurable w rid s))" "keeps_log s (snd (refreshDocs w s))"
  by (auto simp: keeps_log_def matches_def effect_defs on_store_pair Let_def ReconcileRun_def
      split: sum.split option.split store_error.split)

lemma log_fields [simp]:
  "keeps_log s (tick s)" "keeps_log s (s\<lparr>s_partial := x\<rparr>)" "keeps_log s (s\<lparr>s_tool := y\<rparr>)"
  "keeps_log s (s\<lparr>s_cancelled := b\<rparr>)" "keeps_log s (s\<lparr>s_state := z\<rparr>)" "keeps_log s (s\<lparr>s_run := v\<rparr>)"
  "keeps_log s (s\<lparr>s_subs := u\<rparr>)" "keeps_log s (publishEvent ev s)" "keeps_log s (faultSession e s)"
  "keeps_log s (goto rid goal p s)"
  by (simp_all add: keeps_log_def matches_def publishEvent_def faultSession_def goto_def)

lemma log_emit [frames]: "keeps_log s (snd (emit w rid p s))"
  using log_frames(1) [of s w rid p] keeps_log_trans [OF _ log_fields(8)]
  by (cases "persistEvent w rid p s"; cases "fst (persistEvent w rid p s)") (auto simp: emit_def)

lemma assign_number: "assign_seq (of_nat n) rs = Inr as \<Longrightarrow> as = number_from n rs"
proof (induction rs arbitrary: n as)
  case (Cons r rs)
  show ?case
  proof (cases "assign_seq (of_nat n + 1) rs")
    case (Inr bs)
    with Cons.IH [of "Suc n" bs] have "bs = number_from (Suc n) rs" by (simp add: add.commute)
    with Cons.prems Inr show ?thesis by (auto simp: Let_def add.commute split: sum.splits)
  qed (use Cons.prems in \<open>auto simp: Let_def split: sum.splits\<close>)
qed simp

text \<open>What adding records does when the write does not fail: all or nothing.\<close>

lemma add_records_spec:
  assumes "matches s" "io_now w s = IoOk" "add_records w rs s = (q, t)"
  shows "matches t \<and> s_tick t = s_tick s \<and> (q = Inr () \<and> s_records t = s_records s @ number_from (length (s_records s)) rs \<or>
    (\<exists>e. q = Inl e) \<and> s_records t = s_records s)"
proof (cases "s_durable s")
  case None
  with assms(3) show ?thesis by (auto simp: add_records_def matches_def)
next
  case (Some st)
  with assms(1) have st: "st_transcript st = s_records s" "m_transcript_seq (st_manifest st) = of_nat (length (s_records s))"
    by (simp_all add: matches_def)
  show ?thesis
  proof (cases "assign_seq (m_transcript_seq (st_manifest st)) rs")
    case (Inl e)
    with Some assms(3) st show ?thesis by (auto simp: add_records_def on_store_pair AppendTranscript_def matches_def)
  next
    case (Inr as)
    with st have as: "as = number_from (length (s_records s)) rs" by (metis assign_number)
    obtain b f where f: "append_log (record_line (w_clock w)) as IoOk (d_transcript (st_disk st)) = (b, f)" by fastforce
    show ?thesis
      using Some assms(2,3) st Inr f as
      by (cases b) (auto simp: add_records_def on_store_pair AppendTranscript_def matches_def persist_ok Let_def)
  qed
qed

lemma append_spec:
  assumes "matches s" "calm w t" "appendPayload w rid p s = (q, t)"
  shows "matches t \<and> s_tick s < s_tick t \<and>
    ((\<exists>e. q = Inl e) \<and> s_records t = s_records s \<or>
     q = Inr () \<and> (\<exists>r. New rid (now w s) (kind_of p) p = Inr r \<and>
       s_records t = s_records s @ [r\<lparr>r_seq := of_nat (length (s_records s) + 1)\<rparr>]))"
proof (cases "New rid (now w s) (kind_of p) p")
  case (Inl e)
  with assms show ?thesis by (auto simp: appendPayload_def matches_def)
next
  case (Inr r)
  obtain q' u where u: "add_records w [r] s = (q', u)" by fastforce
  with assms(3) Inr have t: "q = q'" "t = tick u" by (auto simp: appendPayload_def)
  have "s_tick s < s_tick t" using u t by (auto simp: add_records_def on_store_pair split: option.splits sum.splits)
  then have "io_now w s = IoOk" using assms(2) by (simp add: calm_def io_now_def)
  from add_records_spec [OF assms(1) this u] t Inr show ?thesis
    by (auto simp: matches_def)
qed

lemma call_records_spec:
  "call_records w rid n cs = Inr rs \<Longrightarrow> list_all2 (\<lambda>c r. r_kind r = KindToolCall \<and> r_run r = rid \<and>
     Validate r = Inr () \<and> (\<exists>m a. DecodePayload r = Some (ToolCallPayload (to_valid (tc_id c)) m a))) cs rs"
proof (induction cs arbitrary: n rs)
  case (Cons c cs)
  let ?p = "ToolCallPayload (tc_id c) (tc_name c) (tc_args c)"
  from Cons.prems obtain r where r: "New rid (w_now w n) KindToolCall ?p = Inr r"
    by (auto split: sum.splits)
  then have "New rid (w_now w n) (kind_of ?p) ?p = Inr r" by simp
  from New_decodes [OF this] New_valid [OF r] New_fields [OF r] have
    "r_kind r = KindToolCall \<and> r_run r = rid \<and> Validate r = Inr () \<and>
      (\<exists>m a. DecodePayload r = Some (ToolCallPayload (to_valid (tc_id c)) m a))" by auto
  with Cons r show ?case by (cases "call_records w rid (Suc n) cs") auto
qed simp

lemma length_number [simp]: "length (number_from n rs) = length rs"
  by (induction n rs rule: number_from.induct) simp_all

lemma number_props:
  "numbered n (number_from n rs)"
  "list_all2 (\<lambda>c r. P c (r\<lparr>r_seq := 0\<rparr>)) cs rs \<Longrightarrow> list_all2 (\<lambda>c r. P c (r\<lparr>r_seq := 0\<rparr>)) cs (number_from n rs)"
proof -
  show "numbered n (number_from n rs)"
    by (induction n rs rule: number_from.induct) simp_all
  show "list_all2 (\<lambda>c r. P c (r\<lparr>r_seq := 0\<rparr>)) cs rs \<Longrightarrow> list_all2 (\<lambda>c r. P c (r\<lparr>r_seq := 0\<rparr>)) cs (number_from n rs)"
    by (induction n rs arbitrary: cs rule: number_from.induct) (auto simp: list_all2_Cons2)
qed

text \<open>A record of a call, apart from its number.\<close>

definition is_call :: "bytes \<Rightarrow> tool_call \<Rightarrow> trecord \<Rightarrow> bool" where
  "is_call rid c r \<longleftrightarrow> r_kind r = KindToolCall \<and> r_run r = rid \<and> Validate r = Inr () \<and>
     (\<exists>m a. DecodePayload r = Some (ToolCallPayload (to_valid (tc_id c)) m a))"

lemma is_call_seq [simp]: "is_call rid c (r\<lparr>r_seq := n\<rparr>) = is_call rid c r"
  by (simp add: is_call_def)

lemma call_spec:
  assumes "matches s" "calm w t" "appendToolCalls w rid cs s = (q, t)"
  shows "matches t \<and> s_tick s < s_tick t \<and>
    ((\<exists>e. q = Inl e) \<and> s_records t = s_records s \<or>
     q = Inr () \<and> (\<exists>rs. numbered (length (s_records s)) rs \<and> list_all2 (is_call rid) cs rs \<and>
       s_records t = s_records s @ rs))"
proof (cases "call_records w rid (s_tick s) cs")
  case (Inl e)
  with assms show ?thesis by (auto simp: appendToolCalls_def matches_def)
next
  case (Inr rs)
  obtain q' u where u: "add_records w rs s = (q', u)" by fastforce
  with assms(3) Inr have t: "q = q'" "t = u\<lparr>s_tick := s_tick u + length cs + 1\<rparr>" by (auto simp: appendToolCalls_def)
  have "s_tick s < s_tick t" using u t by (auto simp: add_records_def on_store_pair split: option.splits sum.splits)
  then have "io_now w s = IoOk" using assms(2) by (simp add: calm_def io_now_def)
  note spec = add_records_spec [OF assms(1) this u]
  have "list_all2 (is_call rid) cs rs" using call_records_spec [OF Inr] by (simp add: is_call_def [abs_def])
  then have "list_all2 (is_call rid) cs (number_from (length (s_records s)) rs)"
    using number_props(2) [of "is_call rid" cs rs] by simp
  with spec t number_props(1) [of "length (s_records s)" rs] \<open>s_tick s < s_tick t\<close> show ?thesis
    by (auto simp: matches_def)
qed

subsection \<open>Growing a valid log\<close>

lemma facts_seq [simp]:
  "call_facts [r\<lparr>r_seq := n\<rparr>] = call_facts [r]" "result_facts [r\<lparr>r_seq := n\<rparr>] = result_facts [r]"
  by (simp_all add: facts_single split: record_kind.split option.split tpayload.split)

lemma closed_snoc [simp]: "closed_log (rs @ [r]) \<longleftrightarrow> r_kind r = KindClosed"
  by (simp add: closed_log_def)

definition plain_payload :: "tpayload \<Rightarrow> bool" where
  "plain_payload p \<longleftrightarrow> kind_of p \<in> {KindUserMessage, KindAssistantBlock, KindCancellationBoundary, KindInstructionsLoaded, KindClosed}"

lemma open_facts_plain:
  "call_facts [r] = [] \<Longrightarrow> result_facts [r] = [] \<Longrightarrow> open_facts (rs @ [r]) = open_facts rs"
  by (simp add: open_facts_def)

lemma grow_plain:
  assumes "valid_log rs" "\<not> closed_log rs" "New rid t (kind_of p) p = Inr r" "plain_payload p"
  defines "r' \<equiv> r\<lparr>r_seq := of_nat (length rs + 1)\<rparr>"
  shows "valid_log (rs @ [r'])" "call_facts (rs @ [r']) = call_facts rs" "open_facts (rs @ [r']) = open_facts rs"
    "closed_log (rs @ [r']) \<longleftrightarrow> p = ClosedPayload"
proof -
  from New_fields [OF assms(3)] have k: "r_kind r = kind_of p" by auto
  have nofacts: "call_facts [r'] = []" "result_facts [r'] = []"
    using k assms(4) by (auto simp: r'_def plain_payload_def facts_single)
  have "pair_ok rs r'" using k assms(4) by (auto simp: r'_def plain_payload_def pair_ok_def)
  then show "valid_log (rs @ [r'])" using assms(1,2) New_valid [OF assms(3)] by (simp add: valid_log_snoc r'_def)
  show "call_facts (rs @ [r']) = call_facts rs" using nofacts by simp
  show "open_facts (rs @ [r']) = open_facts rs" using nofacts by (rule open_facts_plain)
  show "closed_log (rs @ [r']) \<longleftrightarrow> p = ClosedPayload" using k by (cases p) (simp_all add: r'_def)
qed

lemma grow_outcome:
  assumes "valid_log rs" "\<not> closed_log rs" "open_facts rs = []"
    and "New rid t (kind_of (RunOutcomePayload oc c)) (RunOutcomePayload oc c) = Inr r"
  defines "r' \<equiv> r\<lparr>r_seq := of_nat (length rs + 1)\<rparr>"
  shows "valid_log (rs @ [r'])" "call_facts (rs @ [r']) = call_facts rs" "open_facts (rs @ [r']) = []"
    "\<not> closed_log (rs @ [r'])"
proof -
  from New_fields [OF assms(4)] have k: "r_kind r = KindRunOutcome" by auto
  have nofacts: "call_facts [r'] = []" "result_facts [r'] = []" using k by (auto simp: r'_def facts_single)
  have "i \<in> fst ` set (result_facts rs)" if "(i, x) \<in> set (call_facts rs)" for i x
    using that assms(3) unfolding open_facts_empty by (metis fst_conv image_eqI subsetD)
  then have "pair_ok rs r'" using k by (auto simp: r'_def pair_ok_def)
  then show "valid_log (rs @ [r'])" using assms(1,2) New_valid [OF assms(4)] by (simp add: valid_log_snoc r'_def)
  show "call_facts (rs @ [r']) = call_facts rs" using nofacts by simp
  show "open_facts (rs @ [r']) = []" using open_facts_plain [OF nofacts] assms(3) by simp
  show "\<not> closed_log (rs @ [r'])" using k by (simp add: r'_def)
qed

lemma grow_result:
  assumes "valid_log rs" "\<not> closed_log rs" "open_facts rs = (to_valid i, rid) # fs"
    and "New rid t (kind_of (ToolResultPayload i oc c)) (ToolResultPayload i oc c) = Inr r"
  defines "r' \<equiv> r\<lparr>r_seq := of_nat (length rs + 1)\<rparr>"
  shows "valid_log (rs @ [r'])" "call_facts (rs @ [r']) = call_facts rs" "open_facts (rs @ [r']) = fs"
    "\<not> closed_log (rs @ [r'])"
proof -
  from New_fields [OF assms(4)] New_valid [OF assms(4)] New_decodes [OF assms(4)] have r: "r_kind r = KindToolResult"
    "r_run r = rid" "Validate r = Inr ()" "DecodePayload r = Some (ToolResultPayload (to_valid i) (to_valid oc) (to_valid c))"
    by auto
  then have "result_rec r' (to_valid i, rid)" by (simp add: result_rec_def r'_def)
  from append_result [OF assms(1-3) this] show "valid_log (rs @ [r'])" "open_facts (rs @ [r']) = fs" "\<not> closed_log (rs @ [r'])"
    by (simp_all add: r'_def)
  show "call_facts (rs @ [r']) = call_facts rs" using r by (simp add: r'_def facts_single)
qed

lemma valid_results_called: "valid_log rs \<Longrightarrow> fst ` set (result_facts rs) \<subseteq> fst ` set (call_facts rs)"
  by (erule valid_log_pairs) (auto simp: tracks_def)

lemma grow_call:
  assumes "valid_log rs" "\<not> closed_log rs" "to_valid (tc_id c) \<notin> fst ` set (call_facts rs)" "is_call rid c r"
    and "r_seq r = of_nat (length rs + 1)"
  shows "valid_log (rs @ [r])" "call_facts (rs @ [r]) = call_facts rs @ [(to_valid (tc_id c), rid)]"
    "open_facts (rs @ [r]) = open_facts rs @ [(to_valid (tc_id c), rid)]" "\<not> closed_log (rs @ [r])"
proof -
  from assms(4) have f: "call_facts [r] = [(to_valid (tc_id c), rid)]" "result_facts [r] = []" "r_kind r = KindToolCall"
    by (auto simp: is_call_def facts_single)
  have "pair_ok rs r" using assms(3,4) by (auto simp: is_call_def pair_ok_def)
  then show "valid_log (rs @ [r])" using assms by (simp add: valid_log_snoc is_call_def)
  show "call_facts (rs @ [r]) = call_facts rs @ [(to_valid (tc_id c), rid)]" using f by simp
  have "to_valid (tc_id c) \<notin> fst ` set (result_facts rs)" using valid_results_called [OF assms(1)] assms(3) by blast
  then show "open_facts (rs @ [r]) = open_facts rs @ [(to_valid (tc_id c), rid)]" using f by (simp add: open_facts_def)
  show "\<not> closed_log (rs @ [r])" using f by simp
qed

lemma grow_calls:
  assumes "valid_log rs" "\<not> closed_log rs" "distinct (map (\<lambda>c. to_valid (tc_id c)) cs)"
    and "\<forall>c \<in> set cs. to_valid (tc_id c) \<notin> fst ` set (call_facts rs)"
    and "list_all2 (is_call rid) cs qs" "numbered (length rs) qs"
  shows "valid_log (rs @ qs) \<and> call_facts (rs @ qs) = call_facts rs @ map (\<lambda>c. (to_valid (tc_id c), rid)) cs \<and>
    open_facts (rs @ qs) = open_facts rs @ map (\<lambda>c. (to_valid (tc_id c), rid)) cs \<and> \<not> closed_log (rs @ qs)"
  using assms
proof (induction cs arbitrary: rs qs)
  case (Cons c cs)
  from Cons.prems(5) obtain q qs' where q: "qs = q # qs'" "is_call rid c q" "list_all2 (is_call rid) cs qs'"
    by (auto simp: list_all2_Cons1)
  note step = grow_call [OF Cons.prems(1,2) _ q(2)]
  from Cons.prems q have s: "valid_log (rs @ [q])" "\<not> closed_log (rs @ [q])"
    "call_facts (rs @ [q]) = call_facts rs @ [(to_valid (tc_id c), rid)]"
    "open_facts (rs @ [q]) = open_facts rs @ [(to_valid (tc_id c), rid)]"
    using step by auto
  have "to_valid (tc_id d) \<noteq> to_valid (tc_id c)" if "d \<in> set cs" for d
    using Cons.prems(3) that by (metis (no_types, lifting) distinct.simps(2) image_eqI list.simps(9) set_map)
  then have "\<forall>d \<in> set cs. to_valid (tc_id d) \<notin> fst ` set (call_facts (rs @ [q]))"
    using Cons.prems(4) s(3) by auto
  from Cons.IH [OF s(1,2) _ this q(3)] Cons.prems(3,6) q(1) s(3,4) show ?case by simp
qed simp

subsection \<open>The invariant\<close>

definition logs :: "world \<Rightarrow> (bytes \<Rightarrow> nat) \<Rightarrow> bool \<Rightarrow> (bytes \<times> bytes) list \<Rightarrow> session \<Rightarrow> bool" where
  "logs w owner closed opens s \<longleftrightarrow> (calm w s \<longrightarrow> valid_log (s_records s) \<and> matches s \<and>
     (\<forall>i \<in> fst ` set (call_facts (s_records s)). stored_id i \<and> owner i \<le> s_tick s) \<and>
     closed_log (s_records s) = closed \<and> open_facts (s_records s) = opens)"

lemma logs_keeps: "logs w owner closed opens s \<Longrightarrow> keeps_log s t \<Longrightarrow> logs w owner closed opens t"
  using calm_earlier [of w t s] by (force simp: logs_def keeps_log_def)

lemma logs_append:
  assumes "logs w owner False opens s" "appendPayload w rid p s = (q, t)"
    and grow: "\<And>r. New rid (now w s) (kind_of p) p = Inr r \<Longrightarrow> valid_log (s_records s) \<Longrightarrow> \<not> closed_log (s_records s) \<Longrightarrow>
      open_facts (s_records s) = opens \<Longrightarrow>
      let rs = s_records s @ [r\<lparr>r_seq := of_nat (length (s_records s) + 1)\<rparr>] in
      valid_log rs \<and> call_facts rs = call_facts (s_records s) \<and> open_facts rs = opens' \<and> closed_log rs = cl"
  shows "logs w owner (q = Inr () \<and> cl) (if q = Inr () then opens' else opens) t"
  unfolding logs_def
proof
  assume t: "calm w t"
  have le: "s_tick s \<le> s_tick t" using same_coreD(8) [OF core_frames(1) [of s w rid p]] assms(2) by simp
  from calm_earlier [OF t le] assms(1) have s: "valid_log (s_records s)" "matches s"
    "\<forall>i \<in> fst ` set (call_facts (s_records s)). stored_id i \<and> owner i \<le> s_tick s" "\<not> closed_log (s_records s)"
    "open_facts (s_records s) = opens" by (auto simp: logs_def)
  from append_spec [OF s(2) t assms(2)] consider e where "q = Inl e" "s_records t = s_records s" "matches t"
    | r where "q = Inr ()" "New rid (now w s) (kind_of p) p = Inr r" "matches t"
        "s_records t = s_records s @ [r\<lparr>r_seq := of_nat (length (s_records s) + 1)\<rparr>]" by blast
  then show "valid_log (s_records t) \<and> matches t \<and> (\<forall>i \<in> fst ` set (call_facts (s_records t)). stored_id i \<and> owner i \<le> s_tick t) \<and>
      closed_log (s_records t) = (q = Inr () \<and> cl) \<and> open_facts (s_records t) = (if q = Inr () then opens' else opens)"
  proof cases
    case 1
    with s le show ?thesis by auto
  next
    case 2
    from grow [OF 2(2) s(1,4,5)] 2 s(3) le show ?thesis by (auto simp: Let_def)
  qed
qed

lemma logs_plain:
  assumes "logs w owner False opens s" "plain_payload p" "p \<noteq> ClosedPayload"
  shows "logs w owner False opens (snd (appendPayload w rid p s))"
proof -
  obtain q t where q: "appendPayload w rid p s = (q, t)" by fastforce
  have "logs w owner (q = Inr () \<and> False) (if q = Inr () then opens else opens) t"
    using assms(2,3) grow_plain [of "s_records s" rid _ p] by (intro logs_append [OF assms(1) q]) (auto simp: Let_def)
  with q show ?thesis by simp
qed

lemma logs_close:
  assumes "logs w owner False opens s" "appendPayload w rid ClosedPayload s = (q, t)"
  shows "logs w owner (q = Inr ()) opens t"
proof -
  have "logs w owner (q = Inr () \<and> True) (if q = Inr () then opens else opens) t"
    using grow_plain [of "s_records s" rid _ ClosedPayload]
    by (intro logs_append [OF assms]) (auto simp: Let_def plain_payload_def)
  then show ?thesis by simp
qed

lemma logs_outcome:
  assumes "logs w owner False [] s"
  shows "logs w owner False [] (snd (appendPayload w rid (RunOutcomePayload oc c) s))"
proof -
  obtain q t where q: "appendPayload w rid (RunOutcomePayload oc c) s = (q, t)" by fastforce
  have "logs w owner (q = Inr () \<and> False) (if q = Inr () then [] else []) t"
    using grow_outcome [of "s_records s" rid _ oc c] by (intro logs_append [OF assms q]) (auto simp: Let_def)
  with q show ?thesis by simp
qed

lemma logs_result:
  assumes "logs w owner False ((to_valid i, rid) # fs) s" "appendPayload w rid (ToolResultPayload i oc c) s = (q, t)"
  shows "logs w owner False (if q = Inr () then fs else (to_valid i, rid) # fs) t"
proof -
  have "logs w owner (q = Inr () \<and> False) (if q = Inr () then fs else (to_valid i, rid) # fs) t"
    using grow_result [of "s_records s" i rid fs _ oc c] by (intro logs_append [OF assms]) (auto simp: Let_def)
  then show ?thesis by simp
qed

lemma logs_calls:
  assumes "logs w owner False opens s" "appendToolCalls w rid cs s = (q, t)"
    and "calm w s \<Longrightarrow> distinct (map (\<lambda>c. to_valid (tc_id c)) cs) \<and> (\<forall>c \<in> set cs. owner (to_valid (tc_id c)) \<le> s_tick s \<and>
      to_valid (tc_id c) \<notin> fst ` set (call_facts (s_records s)))"
  shows "logs w owner False (if q = Inr () then opens @ map (\<lambda>c. (to_valid (tc_id c), rid)) cs else opens) t"
  unfolding logs_def
proof
  assume t: "calm w t"
  have le: "s_tick s \<le> s_tick t" using same_coreD(8) [OF core_frames(2) [of s w rid cs]] assms(2) by simp
  note cs = calm_earlier [OF t le]
  from cs assms(1) have s: "valid_log (s_records s)" "matches s"
    "\<forall>i \<in> fst ` set (call_facts (s_records s)). stored_id i \<and> owner i \<le> s_tick s" "\<not> closed_log (s_records s)"
    "open_facts (s_records s) = opens" by (auto simp: logs_def)
  from call_spec [OF s(2) t assms(2)] consider e where "q = Inl e" "s_records t = s_records s" "matches t"
    | qs where "q = Inr ()" "numbered (length (s_records s)) qs" "list_all2 (is_call rid) cs qs" "matches t"
        "s_records t = s_records s @ qs" by blast
  then show "valid_log (s_records t) \<and> matches t \<and> (\<forall>i \<in> fst ` set (call_facts (s_records t)). stored_id i \<and> owner i \<le> s_tick t) \<and>
      closed_log (s_records t) = False \<and>
      open_facts (s_records t) = (if q = Inr () then opens @ map (\<lambda>c. (to_valid (tc_id c), rid)) cs else opens)"
  proof cases
    case 1
    with s le show ?thesis by auto
  next
    case 2
    from grow_calls [OF s(1,4) _ _ 2(3,2)] assms(3) [OF cs] have g: "valid_log (s_records t)"
      "call_facts (s_records t) = call_facts (s_records s) @ map (\<lambda>c. (to_valid (tc_id c), rid)) cs"
      "open_facts (s_records t) = opens @ map (\<lambda>c. (to_valid (tc_id c), rid)) cs" "\<not> closed_log (s_records t)"
      using 2(5) s(5) by auto
    have "stored_id i \<and> owner i \<le> s_tick t" if i: "i \<in> fst ` set (call_facts (s_records t))" for i
    proof -
      from i g(2) consider "i \<in> fst ` set (call_facts (s_records s))" | c where "c \<in> set cs" "i = to_valid (tc_id c)"
        by fastforce
      then have "stored_id i \<and> owner i \<le> s_tick s" by cases (use s(3) assms(3) [OF cs] in auto)
      with le show ?thesis by simp
    qed
    with g 2 show ?thesis by simp
  qed
qed

text \<open>What the goroutine's position says of the log.\<close>

fun held :: "pc \<Rightarrow> tool_call list" where
  "held (AtStream req k ds fin streamed rd) = (case fin of Inr resp \<Rightarrow> resp_calls resp | Inl _ \<Rightarrow> [])"
| "held (AtEnded res streamed rd) = (case res of Inr resp \<Rightarrow> resp_calls resp | Inl _ \<Rightarrow> [])"
| "held (AtDecide res streamed) = (case res of Inr resp \<Rightarrow> resp_calls resp | Inl _ \<Rightarrow> [])"
| "held (AtBlock resp projected) = resp_calls resp"
| "held (AtCalls cs) = cs"
| "held _ = []"

fun unanswered :: "pc \<Rightarrow> tool_call list" where
  "unanswered (AtTool todo stopped blocked) = map fst todo"
| "unanswered (AtExecute c gone rest stopped blocked) = c # map fst rest"
| "unanswered (AtResult c r rest stopped blocked) = c # map fst rest"
| "unanswered _ = []"

definition runnable :: "world \<Rightarrow> (tool_call \<times> bool) list \<Rightarrow> bool" where
  "runnable w todo \<longleftrightarrow> (\<forall>(c, sensitive) \<in> set todo. sensitive \<or> project_call (w_lib w) c = (c, False))"

fun tool_ok :: "world \<Rightarrow> pc \<Rightarrow> bool" where
  "tool_ok w (AtTool todo stopped blocked) = runnable w todo"
| "tool_ok w (AtExecute c gone rest stopped blocked) = (project_call (w_lib w) c = (c, False) \<and> runnable w rest)"
| "tool_ok w (AtResult c r rest stopped blocked) = (tr_call r = tc_id c \<and> runnable w rest)"
| "tool_ok w _ = True"

definition open_at :: "bytes \<Rightarrow> pc \<Rightarrow> (bytes \<times> bytes) list" where
  "open_at rid p = map (\<lambda>c. (to_valid (tc_id c), rid)) (unanswered p)"

definition held_fresh :: "world \<Rightarrow> (bytes \<Rightarrow> nat) \<Rightarrow> tool_call list \<Rightarrow> session \<Rightarrow> bool" where
  "held_fresh w owner cs s \<longleftrightarrow> distinct (safe_ids w cs) \<and> (\<forall>i \<in> set (safe_ids w cs).
     owner i \<le> s_tick s \<and> i \<notin> fst ` set (call_facts (s_records s)))"

lemma held_fresh_nil [simp]: "held_fresh w owner [] s"
  by (simp add: held_fresh_def safe_ids_def)

lemma held_fresh_keeps: "held_fresh w owner cs s \<Longrightarrow> keeps_log s t \<Longrightarrow> held_fresh w owner cs t"
  by (fastforce simp: held_fresh_def keeps_log_def)

definition at_pc :: "world \<Rightarrow> (bytes \<Rightarrow> nat) \<Rightarrow> bytes \<Rightarrow> pc \<Rightarrow> session \<Rightarrow> bool" where
  "at_pc w owner rid p s \<longleftrightarrow> logs w owner False (open_at rid p) s \<and> tool_ok w p \<and>
     (calm w s \<longrightarrow> held_fresh w owner (held p) s)"

definition lawful :: "world \<Rightarrow> (bytes \<Rightarrow> nat) \<Rightarrow> session \<Rightarrow> bool" where
  "lawful w owner s \<longleftrightarrow> (case s_state s of
     StateFaulted \<Rightarrow> \<exists>cl ops. logs w owner cl ops s
   | StateClosed \<Rightarrow> logs w owner True [] s
   | StateIdle \<Rightarrow> logs w owner False [] s
   | StateRunning \<Rightarrow> (\<exists>rid goal p. s_run s = Some (rid, goal, p) \<and> at_pc w owner rid p s))"

lemma at_pc_keeps: "at_pc w owner rid p s \<Longrightarrow> keeps_log s t \<Longrightarrow> at_pc w owner rid p t"
  using logs_keeps [of w owner False "open_at rid p" s t] held_fresh_keeps [of w owner "held p" s t]
    calm_earlier [of w t s]
  by (auto simp: at_pc_def keeps_log_def)

text \<open>Moving on to a position that holds the same or no calls and has the same ones to answer.\<close>

lemma at_pc_move:
  assumes "at_pc w owner rid p s" "keeps_log s t" "unanswered p' = unanswered p" "held p' = held p \<or> held p' = []" "tool_ok w p'"
  shows "at_pc w owner rid p' t"
  using at_pc_keeps [OF assms(1,2)] assms(3-5) by (auto simp: at_pc_def open_at_def)

lemma lawful_goto: "s_state t = StateRunning \<Longrightarrow> at_pc w owner rid p t \<Longrightarrow> lawful w owner (goto rid goal p t)"
  using at_pc_keeps [of w owner rid p t "goto rid goal p t"] by (simp add: lawful_def goto_def)

lemma faultSession_state [simp]: "s_state (faultSession e s) = StateFaulted"
  by (simp add: faultSession_def)

lemma lawful_fault: "logs w owner cl ops s \<Longrightarrow> lawful w owner (faultSession e s)"
proof -
  assume "logs w owner cl ops s"
  then have "logs w owner cl ops (faultSession e s)" by (rule logs_keeps) simp
  then show ?thesis by (auto simp: lawful_def)
qed

subsection \<open>The moves of the goroutine\<close>

definition quiet :: "session \<Rightarrow> session \<Rightarrow> bool" where
  "quiet s t \<longleftrightarrow> keeps_log s t \<and> s_state t = s_state s"

lemma quiet_refl [simp]: "quiet s s"
  by (simp add: quiet_def)

lemma quiet_trans [trans]: "quiet s t \<Longrightarrow> quiet t u \<Longrightarrow> quiet s u"
  by (auto simp: quiet_def intro: keeps_log_trans)

lemma publish_state [simp]: "s_state (publishEvent ev s) = s_state s"
  by (simp add: publishEvent_def)

lemma emit_state [simp]: "s_state (snd (emit w rid p s)) = s_state s"
  using same_coreD(2) [OF core_frames(3) [of s w rid p]]
  by (cases "persistEvent w rid p s"; cases "fst (persistEvent w rid p s)") (auto simp: emit_def)

lemma quiet_frames [frames]:
  "quiet s (snd (reserve w rid k n s))" "quiet s (snd (emit w rid p s))" "quiet s (snd (persistEvent w rid p s))"
  "quiet s (snd (recordCommand w c s))" "quiet s (snd (finishDurable w rid s))" "quiet s (tick s)"
  "quiet s (s\<lparr>s_partial := x\<rparr>)" "quiet s (s\<lparr>s_tool := y\<rparr>)"
  unfolding quiet_def by (simp_all add: frames same_coreD(2) [OF core_frames(4)] same_coreD(2) [OF core_frames(3)]
    same_coreD(2) [OF core_frames(5)] same_coreD(2) [OF core_frames(8)])

lemma quiet_delta [frames]: "quiet s (snd (emit_delta w rid safe s))"
  unfolding emit_delta_def by (rule quiet_trans [OF quiet_frames(7) quiet_frames(2)])

lemma move_quiet:
  assumes "at_pc w owner rid p s" "s_state s = StateRunning" "quiet s t"
    and "unanswered p' = unanswered p" "held p' = held p \<or> held p' = []" "tool_ok w p'"
  shows "lawful w owner (goto rid goal p' t)"
  using assms at_pc_move [of w owner rid p s t p'] by (auto simp: quiet_def intro!: lawful_goto)

lemma fault_quiet: "at_pc w owner rid p s \<Longrightarrow> quiet s t \<Longrightarrow> lawful w owner (faultSession e t)"
  using logs_keeps [of w owner False "open_at rid p" s t] lawful_fault [of w owner False "open_at rid p" t]
  by (simp add: at_pc_def quiet_def)

lemma two_lawful:
  assumes "quiet s (snd q)" "\<And>e t. quiet s t \<Longrightarrow> lawful w owner (f e t)" "\<And>a t. quiet s t \<Longrightarrow> lawful w owner (g a t)"
  shows "lawful w owner (case q of (Inl e, t) \<Rightarrow> f e t | (Inr a, t) \<Rightarrow> g a t)"
  using assms by (cases q; cases "fst q") auto

lemma append_state [simp]: "s_state (snd (appendPayload w rid p s)) = s_state s"
  using same_coreD(2) [OF core_frames(1)] .

lemma block_logs:
  assumes "logs w owner False [] s" "s_state s = StateRunning"
  shows "logs w owner False [] (snd (assistant_block w rid resp projected s)) \<and>
    s_state (snd (assistant_block w rid resp projected s)) = StateRunning"
proof -
  let ?I = "\<lambda>t. logs w owner False [] t \<and> s_state t = StateRunning"
  have part: "?I t \<Longrightarrow> ?I (t\<lparr>s_partial := x\<rparr>)" for t x using logs_keeps [OF _ log_fields(2)] by auto
  have "?I (snd (seq (appendPayload w rid (AssistantBlockPayload projected) s)
      (\<lambda>_ s. emit w rid (AssistantTextPayload projected) s)))"
  proof (rule seqE [where P = ?I])
    show "?I (snd (appendPayload w rid (AssistantBlockPayload projected) s))"
      using logs_plain [OF assms(1)] assms(2) by (simp add: plain_payload_def)
  qed (auto intro: logs_keeps frames)
  with part part [of s] assms show ?thesis by (auto simp: assistant_block_def case_prod_beta)
qed

lemma block_records_fresh:
  assumes "held_fresh w owner cs s"
  shows "calm w (snd (assistant_block w rid resp projected s)) \<Longrightarrow> matches s \<Longrightarrow> held_fresh w owner cs (snd (assistant_block w rid resp projected s))"
proof -
  let ?p = "AssistantBlockPayload projected"
  have app: "held_fresh w owner cs (snd (appendPayload w rid ?p s))"
    if "calm w (snd (appendPayload w rid ?p s))" "matches s"
  proof -
    obtain q t where q: "appendPayload w rid ?p s = (q, t)" by fastforce
    from append_spec [OF that(2) _ q] that(1) q have
      t: "s_tick s < s_tick t" "call_facts (s_records t) = call_facts (s_records s)"
      by (auto simp: facts_single dest!: New_fields)
    with assms q show ?thesis by (force simp: held_fresh_def)
  qed
  have keep: "keeps_log t (snd (emit w rid p t))" for t p by (rule frames)
  assume *: "calm w (snd (assistant_block w rid resp projected s))" "matches s"
  let ?q = "seq (appendPayload w rid ?p s) (\<lambda>_ s. emit w rid (AssistantTextPayload projected) s)"
  show ?thesis
  proof (cases "projected = [] \<or> resp_reason resp = ReasonLength")
    case True
    with assms held_fresh_keeps [OF assms, of "s\<lparr>s_partial := []\<rparr>"] show ?thesis by (auto simp: assistant_block_def)
  next
    case False
    then have eq: "snd (assistant_block w rid resp projected s) = (snd ?q)\<lparr>s_partial := []\<rparr>"
      by (simp add: assistant_block_def case_prod_beta)
    have mid: "keeps_log (snd (appendPayload w rid ?p s)) (snd ?q)"
      using keep by (cases "appendPayload w rid ?p s"; cases "fst (appendPayload w rid ?p s)") auto
    have "keeps_log (snd (appendPayload w rid ?p s)) ((snd ?q)\<lparr>s_partial := []\<rparr>)"
      using keeps_log_trans [OF mid log_fields(2)] .
    moreover from this *(1) have "calm w (snd (appendPayload w rid ?p s))"
      unfolding eq by (auto simp: keeps_log_def intro: calm_earlier)
    ultimately show ?thesis using app [OF _ *(2)] unfolding eq by (blast intro: held_fresh_keeps)
  qed
qed

lemma block_tick: "s_tick s \<le> s_tick (snd (assistant_block w rid resp projected s))"
proof -
  have "s_tick s \<le> s_tick (snd (seq (appendPayload w rid p s) (\<lambda>_ s. emit w rid ev s)))" for p ev
    by (rule seqE [where P = "\<lambda>t. s_tick s \<le> s_tick t"])
       (use same_coreD(8) [OF core_frames(1)] log_emit in \<open>auto simp: keeps_log_def intro: le_trans\<close>)
  then show ?thesis by (simp add: assistant_block_def case_prod_beta)
qed

lemma finish_logs:
  assumes "logs w owner False [] s"
  shows "logs w owner False [] (snd (finish_facts w rid oc cause s))"
proof -
  let ?I = "logs w owner False []"
  have k: "?I (snd q)" if "?I t" "keeps_log t (snd q)" for t and q :: "('x, 'y) result \<times> session"
    using that logs_keeps by blast
  show ?thesis unfolding finish_facts_def
  proof (rule seqE [where P = ?I])
    show "?I (snd (if oc = RunOutcomeCancelled then appendPayload w rid CancellationBoundaryPayload s else (Inr (), s)))"
      using logs_plain [OF assms, of CancellationBoundaryPayload] assms by (simp add: plain_payload_def)
  next
    fix a t assume "?I t"
    then show "?I (snd (seq (appendPayload w rid (RunOutcomePayload oc cause) t) (\<lambda>_ s.
       seq (persistEvent w rid (outcome_event oc cause) s) (\<lambda>ev s.
       seq (finishDurable w rid s) (\<lambda>_ s. (Inr ev, s))))))"
      by (intro seqE [where P = ?I] logs_outcome) (auto intro: k [OF _ log_frames(1)] k [OF _ log_frames(6)])
  qed
qed

lemma finish_lawful:
  assumes "logs w owner False [] s"
  shows "lawful w owner (finishRun w rid oc cause s)"
proof (cases "finish_facts w rid oc cause s")
  case (Pair q t)
  with finish_logs [OF assms, of rid oc cause] have t: "logs w owner False [] t" by simp
  show ?thesis
  proof (cases q)
    case (Inl e)
    with Pair lawful_fault [OF t] show ?thesis by (simp add: finishRun_def)
  next
    case (Inr ev)
    let ?u = "(publishEvent ev t)\<lparr>s_state := StateIdle, s_error := None, s_cancelled := False,
        s_partial := [], s_tool := None, s_run := None\<rparr>"
    have "keeps_log t ?u" by (simp add: keeps_log_def matches_def publishEvent_def)
    from logs_keeps [OF t this] Pair Inr show ?thesis by (simp add: finishRun_def lawful_def)
  qed
qed

lemma execute_call:
  assumes "project_call lib c = (c, False)"
  shows "tr_call (Execute lib b ctx c) = tc_id c"
  using Execute_call [of lib b ctx c] assms by simp

lemma result_lawful:
  assumes "at_pc w owner rid (AtResult c r rest stopped blocked) s" "s_state s = StateRunning"
  shows "lawful w owner (step_at w rid goal (AtResult c r rest stopped blocked) s)"
proof -
  let ?fs = "map (\<lambda>x. (to_valid (tc_id (fst x)), rid)) rest"
  from assms(1) have l: "logs w owner False ((to_valid (tc_id c), rid) # ?fs) s" and r: "tr_call r = tc_id c"
    and rest: "runnable w rest" by (auto simp: at_pc_def open_at_def case_prod_beta comp_def)
  obtain q s1 where q: "appendPayload w rid (result_payload r) s = (q, s1)" by fastforce
  define s2 where "s2 = s1\<lparr>s_tool := None\<rparr>"
  from q have "appendPayload w rid (ToolResultPayload (tc_id c) (tr_outcome r) (tr_content r)) s = (q, s1)"
    using r by (simp add: result_payload_def)
  from logs_result [OF l this] have l2: "logs w owner False (if q = Inr () then ?fs else (to_valid (tc_id c), rid) # ?fs) s2"
    unfolding s2_def by (rule logs_keeps) simp
  have st2: "s_state s2 = StateRunning"
    using append_state [of w rid "result_payload r" s] q assms(2) by (simp add: s2_def)
  show ?thesis
  proof (cases q)
    case (Inl e)
    with q lawful_fault l2 show ?thesis by (auto simp: tool_facts_def s2_def Let_def)
  next
    case (Inr u)
    let ?ev = "ToolFinishedPayload (tc_id c) (tr_outcome r)"
    from Inr l2 have l3: "logs w owner False ?fs s2" by simp
    have tf: "tool_facts w rid c r s = emit w rid ?ev s2"
      using q Inr by (simp add: tool_facts_def s2_def Let_def)
    have keep: "keeps_log s2 (snd (emit w rid ?ev s2))" by (rule frames)
    note l4 = logs_keeps [OF l3 keep]
    show ?thesis
    proof (cases "emit w rid ?ev s2")
      case (Pair p t)
      have t: "s_state t = StateRunning" "logs w owner False ?fs t" using st2 Pair emit_state [of w rid ?ev s2] l4 by auto
      show ?thesis
      proof (cases p)
        case (Inl e)
        with Pair tf lawful_fault [OF t(2)] show ?thesis by simp
      next
        case (Inr v)
        have "at_pc w owner rid (AtTool rest (stopped \<or> tr_outcome r \<noteq> ToolResultSuccess) blocked) t"
          using t(2) rest by (simp add: at_pc_def open_at_def case_prod_beta comp_def)
        from lawful_goto [OF t(1) this] Inr Pair tf show ?thesis by simp
      qed
    qed
  qed
qed

lemma calls_lawful:
  assumes "at_pc w owner rid (AtCalls cs) s" "s_state s = StateRunning"
  shows "lawful w owner (step_at w rid goal (AtCalls cs) s)"
proof -
  let ?safe = "map (fst \<circ> project_call (w_lib w)) cs" and ?sens = "map (snd \<circ> project_call (w_lib w)) cs"
  from assms(1) have l: "logs w owner False [] s" and h: "calm w s \<Longrightarrow> held_fresh w owner cs s"
    by (auto simp: at_pc_def open_at_def)
  obtain q t where q: "appendToolCalls w rid ?safe s = (q, t)" by fastforce
  have ids: "map (\<lambda>c. to_valid (tc_id c)) ?safe = safe_ids w cs" by (simp add: safe_ids_def comp_def)
  have idset: "to_valid (tc_id c) \<in> set (safe_ids w cs)" if "c \<in> set ?safe" for c
    using that by (auto simp: safe_ids_def)
  have "calm w s \<Longrightarrow> distinct (map (\<lambda>c. to_valid (tc_id c)) ?safe) \<and> (\<forall>c \<in> set ?safe. owner (to_valid (tc_id c)) \<le> s_tick s \<and>
      to_valid (tc_id c) \<notin> fst ` set (call_facts (s_records s)))"
    using h ids idset by (simp only: held_fresh_def) blast
  from logs_calls [OF l q this] have lt: "logs w owner False (if q = Inr () then map (\<lambda>c. (to_valid (tc_id c), rid)) ?safe else []) t"
    by (simp only: append_Nil)
  have st: "s_state t = StateRunning" using same_coreD(2) [OF core_frames(2) [of s w rid ?safe]] q assms(2) by simp
  have pc: "ProjectCalls (w_lib w) cs = (?safe, ?sens)" by (simp add: ProjectCalls_def)
  show ?thesis
  proof (cases q)
    case (Inl e)
    with lt have "lawful w owner (faultSession e t)" by (auto intro: lawful_fault)
    with q Inl pc show ?thesis by simp
  next
    case (Inr u)
    have "runnable w (zip ?safe ?sens)"
      unfolding runnable_def
    proof (rule ballI)
      fix x assume "x \<in> set (zip ?safe ?sens)"
      then obtain c where x: "x = project_call (w_lib w) c" by (auto simp: set_zip)
      show "case x of (c, sensitive) \<Rightarrow> sensitive \<or> project_call (w_lib w) c = (c, False)"
      proof (cases x)
        case (Pair c' b)
        with x project_call_safe(1) [of "w_lib w" c c' b] show ?thesis by (cases b) auto
      qed
    qed
    with lt Inr have "at_pc w owner rid (AtTool (zip ?safe ?sens) False False) t"
      by (simp add: at_pc_def open_at_def)
    from lawful_goto [OF st this] q Inr pc show ?thesis by simp
  qed
qed

lemma execute_lawful:
  assumes "at_pc w owner rid (AtExecute c gone rest stopped blocked) s" "s_state s = StateRunning"
  shows "lawful w owner (step_at w rid goal (AtExecute c gone rest stopped blocked) s)"
proof -
  from assms(1) have "project_call (w_lib w) c = (c, False)" "runnable w rest" by (auto simp: at_pc_def)
  with assms show ?thesis
    by (auto simp: Let_def execute_call intro!: move_quiet [OF assms] frames)
qed

lemma attempt_lawful:
  assumes "at_pc w owner rid (AtAttempt req k) s" "s_state s = StateRunning" "provider_fresh w owner"
  shows "lawful w owner (step_at w rid goal (AtAttempt req k) s)"
  unfolding step_at.simps start_attempt_def
proof (rule two_lawful [OF quiet_frames(1)])
  fix e t assume "quiet s t"
  then show "lawful w owner (goto rid goal (AtEnded (Inl (Callback e)) [] NewStreamRedactor) t)"
    by (rule move_quiet [OF assms(1,2)]) simp_all
next
  fix a t assume t: "quiet s t"
  obtain ds fin where fin: "w_call w (s_tick t) req = (ds, fin)" by fastforce
  have log: "logs w owner False [] t" using assms(1) t logs_keeps [of w owner False "[]" s t]
    by (simp add: at_pc_def open_at_def quiet_def)
  have "held_fresh w owner (held (AtStream req k ds fin [] NewStreamRedactor)) (tick t)" if "calm w (tick t)"
  proof (cases fin)
    case (Inr resp)
    from assms(3) fin Inr have "distinct (safe_ids w (resp_calls resp))"
      "\<forall>i \<in> set (safe_ids w (resp_calls resp)). owner i = Suc (s_tick t)" by (auto simp: provider_fresh_def)
    moreover have "\<forall>i \<in> fst ` set (call_facts (s_records t)). stored_id i \<and> owner i \<le> s_tick t"
      using log calm_earlier [OF that] by (simp add: logs_def)
    ultimately show ?thesis using Inr by (auto simp: held_fresh_def)
  qed simp
  then have "at_pc w owner rid (AtStream req k ds fin [] NewStreamRedactor) (tick t)"
    using logs_keeps [OF log log_fields(1)] by (simp add: at_pc_def open_at_def)
  with fin t assms(2) show "lawful w owner (let (ds, fin) = w_call w (s_tick t) req in
      goto rid goal (AtStream req k ds fin [] NewStreamRedactor) (tick t))"
    by (simp add: lawful_goto quiet_def)
qed

lemma block_lawful:
  assumes "at_pc w owner rid (AtBlock resp projected) s" "s_state s = StateRunning"
  shows "lawful w owner (step_at w rid goal (AtBlock resp projected) s)"
proof -
  from assms(1) have l: "logs w owner False [] s" and h: "calm w s \<Longrightarrow> held_fresh w owner (resp_calls resp) s"
    by (auto simp: at_pc_def open_at_def)
  obtain q t where q: "assistant_block w rid resp projected s = (q, t)" by fastforce
  from block_logs [OF l assms(2), of rid resp projected] q have t: "logs w owner False [] t" "s_state t = StateRunning" by auto
  have "held_fresh w owner (resp_calls resp) t" if "calm w t"
    using block_records_fresh [OF h, of rid resp projected] that block_tick [of s w rid resp projected] q l
      calm_earlier [of w t s] by (auto simp: logs_def)
  then have "at_pc w owner rid (after_block (resp_calls resp)) t"
    using t by (auto simp: at_pc_def open_at_def after_block_def)
  moreover have "at_pc w owner rid (AtFinish oc cause) t" for oc cause using t by (simp add: at_pc_def open_at_def)
  ultimately show ?thesis using q t(2) by (auto intro: lawful_goto split: sum.split)
qed

lemma step_at_lawful:
  assumes "at_pc w owner rid p s" "s_state s = StateRunning" "provider_fresh w owner"
  shows "lawful w owner (step_at w rid goal p s)"
proof -
  note move = move_quiet [OF assms(1,2)]
  note fault = fault_quiet [OF assms(1)]
  show ?thesis
  proof (cases p)
    case AtTop
    with move show ?thesis by (auto split: sum.split)
  next
    case (AtReserve req)
    with move show ?thesis by (auto intro!: two_lawful [OF quiet_frames(1)])
  next
    case (AtAttempt req k)
    with attempt_lawful assms show ?thesis by blast
  next
    case (AtStream req k ds fin streamed rd)
    show ?thesis
    proof (cases ds)
      case Nil
      have "held (next_attempt req k c fin streamed rd) = held p \<or> held (next_attempt req k c fin streamed rd) = []"
        "unanswered (next_attempt req k c fin streamed rd) = []" "tool_ok w (next_attempt req k c fin streamed rd)" for c
        using AtStream by (auto simp: next_attempt_def split: sum.split option.split)
      with AtStream Nil move show ?thesis by simp
    next
      case (Cons d ds')
      obtain rd' safe where "sr_write NewDetector d rd = (rd', safe)" by fastforce
      with AtStream Cons move show ?thesis by (auto intro!: two_lawful [OF quiet_delta])
    qed
  next
    case (AtBackoff req k f)
    with move show ?thesis by (auto simp: Let_def intro!: two_lawful [OF quiet_frames(1)])
  next
    case (AtReset req k f delay)
    with move [OF quiet_frames(7)] show ?thesis by simp
  next
    case (AtAnnounce req k f delay)
    with move show ?thesis by (auto intro!: two_lawful [OF quiet_frames(2)])
  next
    case (AtSleep req k)
    with move [OF quiet_frames(6)] show ?thesis by simp
  next
    case (AtEnded res streamed rd)
    with move show ?thesis by (auto simp: Let_def intro!: two_lawful [OF quiet_delta])
  next
    case (AtDecide res streamed)
    have "held (decide c res streamed) = held p \<or> held (decide c res streamed) = []"
      "unanswered (decide c res streamed) = []" "tool_ok w (decide c res streamed)" for c
      using AtDecide by (auto simp: decide_def Let_def split: sum.split)
    with AtDecide move [OF quiet_frames(7)] move [OF quiet_refl] show ?thesis by (simp add: Let_def)
  next
    case (AtBlock resp projected)
    with block_lawful assms show ?thesis by blast
  next
    case (AtCalls cs)
    with calls_lawful assms show ?thesis by blast
  next
    case (AtTool todo stopped blocked)
    show ?thesis
    proof (cases todo)
      case Nil
      with AtTool move show ?thesis by simp
    next
      case (Cons x rest)
      obtain c sens where x: "x = (c, sens)" by (cases x)
      from assms(1) AtTool Cons x have ok: "runnable w rest" "sens \<or> project_call (w_lib w) c = (c, False)"
        by (auto simp: at_pc_def runnable_def)
      have q: "quiet s (snd (emit w rid ev (s\<lparr>s_tool := y\<rparr>)))" for ev y
        by (rule quiet_trans [OF quiet_frames(8) quiet_frames(2)])
      from AtTool Cons x ok show ?thesis
        by (auto simp: SkippedResult_def BlockedResult_def intro!: two_lawful [OF q] move fault)
    qed
  next
    case (AtExecute c gone rest stopped blocked)
    with execute_lawful assms show ?thesis by blast
  next
    case (AtResult c r rest stopped blocked)
    with result_lawful assms show ?thesis by blast
  next
    case (AtAfter blocked)
    with move show ?thesis by simp
  next
    case (AtFinish oc cause)
    with assms(1) finish_lawful show ?thesis by (simp add: at_pc_def open_at_def)
  qed
qed

subsection \<open>The commands\<close>

lemma lawful_idle: "logs w owner False [] s \<Longrightarrow> s_state s = StateIdle \<Longrightarrow> lawful w owner s"
  by (simp add: lawful_def)

lemma idle_quiet: "logs w owner cl ops s \<Longrightarrow> quiet s t \<Longrightarrow> logs w owner cl ops t \<and> s_state t = s_state s"
  using logs_keeps by (auto simp: quiet_def)

lemma quiet_more [frames]:
  "quiet s (snd (beginRun w c s))" "quiet s (snd (refreshDocs w s))" "quiet s (snd (closeDurable w s))"
  unfolding quiet_def by (simp_all add: frames same_coreD(2) [OF core_frames(6)] same_coreD(2) [OF core_frames(7)]
    same_coreD(2) [OF core_frames(10)])

lemma quiet_same_run: "s_run (snd (recordCommand w c s)) = s_run s"
  by (rule same_coreD(7) [OF core_frames(5)])

text \<open>A quiet change that leaves the goroutine where it is.\<close>

lemma lawful_quiet:
  assumes "lawful w owner s" "quiet s t" "s_run t = s_run s"
  shows "lawful w owner t"
proof -
  from assms(2) have k: "keeps_log s t" "s_state t = s_state s" by (simp_all add: quiet_def)
  show ?thesis
  proof (cases "s_state s")
    case StateRunning
    with assms(1) obtain rid goal p where "s_run s = Some (rid, goal, p)" "at_pc w owner rid p s"
      by (auto simp: lawful_def)
    with at_pc_keeps [OF _ k(1)] assms(3) k(2) StateRunning show ?thesis by (simp add: lawful_def)
  next
    case StateFaulted
    with assms(1) obtain cl ops where "logs w owner cl ops s" by (auto simp: lawful_def)
    from logs_keeps [OF this k(1)] k(2) StateFaulted show ?thesis by (auto simp: lawful_def)
  qed (use assms(1) k logs_keeps [OF _ k(1)] in \<open>simp_all add: lawful_def\<close>)
qed

text \<open>Two results of an operation: what holds after an error and what holds after success.\<close>

definition ends :: "(session \<Rightarrow> bool) \<Rightarrow> (session \<Rightarrow> bool) \<Rightarrow> ('e, 'a) result \<times> session \<Rightarrow> bool" where
  "ends E Q p \<longleftrightarrow> (case fst p of Inl _ \<Rightarrow> E (snd p) | Inr _ \<Rightarrow> Q (snd p))"

lemma ends_simps [simp]: "ends E Q (Inl e, s) = E s" "ends E Q (Inr a, s) = Q s"
  by (simp_all add: ends_def)

lemma ends_seq: "ends E I p \<Longrightarrow> (\<And>a t. I t \<Longrightarrow> ends E Q (f a t)) \<Longrightarrow> ends E Q (seq p f)"
  by (cases p; cases "fst p") simp_all

lemma ends_both: "ends Q Q p \<Longrightarrow> Q (snd p)"
  by (simp add: ends_def split: sum.splits)

lemma ends_same: "E (snd p) \<Longrightarrow> Q (snd p) \<Longrightarrow> ends E Q p"
  by (simp add: ends_def split: sum.split)

lemma ends_or_fault: "ends E Q p \<Longrightarrow> (\<And>e t. E t \<Longrightarrow> E' (faultSession e t)) \<Longrightarrow> ends E' Q (or_fault p)"
  by (cases p; cases "fst p") (simp_all add: or_fault_def)

abbreviation at_rest :: "world \<Rightarrow> (bytes \<Rightarrow> nat) \<Rightarrow> session \<Rightarrow> bool" where
  "at_rest w owner s \<equiv> logs w owner False [] s \<and> s_state s = StateIdle"

lemma rest_plain: "at_rest w owner s \<Longrightarrow> plain_payload p \<Longrightarrow> p \<noteq> ClosedPayload \<Longrightarrow> at_rest w owner (snd (appendPayload w rid p s))"
  by (simp add: logs_plain)

lemma rest_quiet: "at_rest w owner s \<Longrightarrow> quiet s t \<Longrightarrow> at_rest w owner t"
  using idle_quiet [of w owner False "[]" s t] by simp

lemma rest_lawful: "at_rest w owner s \<Longrightarrow> lawful w owner s" "at_rest w owner s \<Longrightarrow> lawful w owner (faultSession e s)"
  by (auto intro: lawful_idle lawful_fault)

lemma ends_rest: "at_rest w owner (snd p) \<Longrightarrow> ends (at_rest w owner) (at_rest w owner) p"
  by (rule ends_same)

lemma docs_plain: "plain_payload (TranscriptPayload docs)" "TranscriptPayload docs \<noteq> ClosedPayload"
  by (simp_all add: plain_payload_def TranscriptPayload_def)

lemma startRun_lawful:
  assumes "at_rest w owner s"
  shows "ends (at_rest w owner) (lawful w owner) (startRun w rid prompt s)"
  unfolding startRun_def
proof (rule ends_seq [OF ends_rest [OF rest_plain [OF assms]]])
  fix a t assume t: "at_rest w owner t"
  have "ends (at_rest w owner) (at_rest w owner)
    (if s_docs t \<noteq> [] then appendPayload w rid (TranscriptPayload (s_docs t)) t else (Inr (), t))"
    using ends_rest [OF rest_plain [OF t docs_plain]] t by simp
  then show "ends (at_rest w owner) (lawful w owner)
    (seq (if s_docs t \<noteq> [] then appendPayload w rid (TranscriptPayload (s_docs t)) t else (Inr (), t)) (\<lambda>_ s.
     seq (emit w rid (RunStartedPayload prompt) s) (\<lambda>_ s.
       (Inr (), s\<lparr>s_cancelled := False, s_state := StateRunning, s_run := Some (rid, prompt, AtTop)\<rparr>))))"
  proof (rule ends_seq)
    fix b u assume "at_rest w owner u"
    then have "at_rest w owner (snd (emit w rid (RunStartedPayload prompt) u))"
      by (rule rest_quiet) (rule frames)
    then have "ends (at_rest w owner) (at_rest w owner) (emit w rid (RunStartedPayload prompt) u)" by (rule ends_rest)
    then show "ends (at_rest w owner) (lawful w owner) (seq (emit w rid (RunStartedPayload prompt) u) (\<lambda>_ s.
       (Inr (), s\<lparr>s_cancelled := False, s_state := StateRunning, s_run := Some (rid, prompt, AtTop)\<rparr>)))"
    proof (rule ends_seq)
      fix c v assume "at_rest w owner v"
      then have "logs w owner False [] (v\<lparr>s_cancelled := False, s_state := StateRunning, s_run := Some (rid, prompt, AtTop)\<rparr>)"
        by (auto intro: logs_keeps simp: keeps_log_def matches_def)
      then show "ends (at_rest w owner) (lawful w owner) (Inr (), v\<lparr>s_cancelled := False, s_state := StateRunning,
         s_run := Some (rid, prompt, AtTop)\<rparr>)"
        by (simp add: lawful_def at_pc_def open_at_def)
    qed
  qed
qed (simp_all add: plain_payload_def)

lemma ends_faulted: "ends E Q p \<Longrightarrow> (\<And>e t. E t \<Longrightarrow> lawful w owner (faultSession e t)) \<Longrightarrow> (\<And>t. Q t \<Longrightarrow> lawful w owner t) \<Longrightarrow>
    lawful w owner (snd (or_fault p))"
  by (cases p; cases "fst p") (simp_all add: or_fault_def)

lemma submit_lawful:
  assumes "at_rest w owner s"
  shows "lawful w owner (snd (applySubmit w cmd s))"
proof -
  have warn: "lawful w owner (snd (seq (recordCommand w c s) (\<lambda>_ s.
      seq (or_fault (emit w [] ev s)) (\<lambda>_ s. (Inl x, s)))))" for c ev x
  proof (rule seq_rule [where I = "at_rest w owner"])
    show "at_rest w owner (snd (recordCommand w c s))" using assms by (rule rest_quiet) (rule frames)
    fix a t assume "at_rest w owner t"
    then have "at_rest w owner (snd (emit w [] ev t))" by (rule rest_quiet) (rule frames)
    then have "lawful w owner (snd (or_fault (emit w [] ev t)))"
      by (rule ends_faulted [OF ends_rest]) (auto intro: rest_lawful)
    then show "lawful w owner (snd (seq (or_fault (emit w [] ev t)) (\<lambda>_ s. (Inl x, s))))" by (rule seqE) simp
  qed (rule rest_lawful)
  have run: "lawful w owner (snd (seq (refreshDocs w s) (\<lambda>_ s. (case beginRun w c s of
       (Inl e, s') \<Rightarrow> (Inl e, if e = DuplicateCommand \<or> e = SessionClosed then s' else faultSession e s')
     | (Inr rid, s') \<Rightarrow> or_fault (startRun w rid prompt s')))))" for c prompt
  proof (rule seq_rule [where I = "at_rest w owner"])
    show "at_rest w owner (snd (refreshDocs w s))" using assms by (rule rest_quiet) (rule frames)
    fix a t assume "at_rest w owner t"
    then have u: "at_rest w owner (snd (beginRun w c t))" by (rule rest_quiet) (rule frames)
    obtain q v where b: "beginRun w c t = (q, v)" by fastforce
    show "lawful w owner (snd (case beginRun w c t of
       (Inl e, s') \<Rightarrow> (Inl e, if e = DuplicateCommand \<or> e = SessionClosed then s' else faultSession e s')
     | (Inr rid, s') \<Rightarrow> or_fault (startRun w rid prompt s')))"
    proof (cases q)
      case (Inl e)
      with u b rest_lawful show ?thesis by simp
    next
      case (Inr rid)
      from u b have "lawful w owner (snd (or_fault (startRun w rid prompt v)))"
        by (intro ends_faulted [OF startRun_lawful]) (auto intro: rest_lawful)
      with b Inr show ?thesis by simp
    qed
  qed (rule rest_lawful)
  from assms warn run show ?thesis by (auto simp: applySubmit_def rest_lawful split: sum.split)
qed

lemma cancel_lawful:
  assumes "lawful w owner s"
  shows "lawful w owner (snd (applyCancel w cmd s))"
proof -
  have "lawful w owner t \<Longrightarrow> lawful w owner (t\<lparr>s_cancelled := True\<rparr>)" for t
    by (erule lawful_quiet) (simp_all add: quiet_def)
  moreover have "lawful w owner (snd (recordCommand w (cmd_id cmd) s))"
    using assms by (rule lawful_quiet) (rule frames, rule quiet_same_run)
  then show ?thesis unfolding applyCancel_def by (rule seqE) (use calculation in simp)
qed

lemma resume_lawful:
  assumes "at_rest w owner s"
  shows "lawful w owner (snd (applyResume w cmd s))"
proof -
  have "lawful w owner (snd (seq (recordCommand w c s) (\<lambda>_ s. or_fault (emit w [] ev s))))" for c ev
  proof (rule seq_rule [where I = "at_rest w owner"])
    show "at_rest w owner (snd (recordCommand w c s))" using assms by (rule rest_quiet) (rule frames)
    fix a t assume "at_rest w owner t"
    then have "at_rest w owner (snd (emit w [] ev t))" by (rule rest_quiet) (rule frames)
    then show "lawful w owner (snd (or_fault (emit w [] ev t)))"
      by (rule ends_faulted [OF ends_rest]) (auto intro: rest_lawful)
  qed (rule rest_lawful)
  with assms show ?thesis by (simp add: applyResume_def)
qed

lemma shut_lawful:
  assumes "at_rest w owner s"
  shows "lawful w owner (snd (seq (or_fault (appendPayload w [] ClosedPayload s)) (\<lambda>_ s.
    seq (or_fault (closeDurable w s)) (\<lambda>_ s. or_fault (emit w [] SessionClosedPayload (s\<lparr>s_state := StateClosed\<rparr>))))))"
proof -
  let ?L = "logs w owner True []"
  obtain q t where q: "appendPayload w [] ClosedPayload s = (q, t)" by fastforce
  from assms q have t: "logs w owner (q = Inr ()) [] t" by (auto intro: logs_close)
  have app: "ends (lawful w owner) ?L (or_fault (appendPayload w [] ClosedPayload s))"
    using q t lawful_fault by (cases q) (auto simp: or_fault_def)
  have shut: "ends (lawful w owner) ?L (or_fault (closeDurable w u))" if "?L u" for u
  proof -
    have "?L (snd (closeDurable w u))" using that by (rule logs_keeps) (rule frames)
    then have "ends ?L ?L (closeDurable w u)" by (simp add: ends_same)
    then show ?thesis by (rule ends_or_fault) (rule lawful_fault)
  qed
  have event: "ends (lawful w owner) (lawful w owner) (or_fault (emit w [] SessionClosedPayload (u\<lparr>s_state := StateClosed\<rparr>)))"
    if "?L u" for u
  proof -
    let ?p = "emit w [] SessionClosedPayload (u\<lparr>s_state := StateClosed\<rparr>)"
    from that have "?L (u\<lparr>s_state := StateClosed\<rparr>)" by (rule logs_keeps) simp
    then have l: "?L (snd ?p)" by (rule logs_keeps) (rule frames)
    then have "ends ?L (lawful w owner) ?p" by (rule ends_same) (use l in \<open>simp add: lawful_def\<close>)
    then show ?thesis by (rule ends_or_fault) (rule lawful_fault)
  qed
  show ?thesis by (rule ends_both [where Q = "lawful w owner"]) (rule ends_seq [OF app], rule ends_seq [OF shut], assumption, rule event)
qed

lemma close_lawful:
  assumes "lawful w owner s" "s_state s \<noteq> StateFaulted"
  shows "lawful w owner (snd (applyClose w cmd s))"
proof (cases "s_state s = StateRunning")
  case True
  with assms show ?thesis by (simp add: applyClose_def)
next
  case False
  let ?t = "snd (recordCommand w (cmd_id cmd) s)"
  have q: "quiet s ?t" by (rule frames)
  then have st: "s_state ?t = s_state s" by (simp add: quiet_def)
  from assms(1) q have t: "lawful w owner ?t" by (rule lawful_quiet) (rule quiet_same_run)
  show ?thesis unfolding applyClose_def if_not_P [OF False]
  proof (rule seq_rule [where I = "\<lambda>t. lawful w owner t \<and> s_state t = s_state s"])
    fix a u assume u: "lawful w owner u \<and> s_state u = s_state s"
    show "lawful w owner (snd (if s_state u = StateClosed then (Inr (), u) else
        seq (or_fault (appendPayload w [] ClosedPayload u)) (\<lambda>_ s. seq (or_fault (closeDurable w s)) (\<lambda>_ s.
          or_fault (emit w [] SessionClosedPayload (s\<lparr>s_state := StateClosed\<rparr>))))))"
    proof (cases "s_state u = StateClosed")
      case nc: False
      with u False assms(2) have "at_rest w owner u" by (cases "s_state s") (auto simp: lawful_def)
      from shut_lawful [OF this] nc show ?thesis by simp
    qed (use u in simp)
  qed (use t st in auto)
qed

lemma Apply_lawful:
  assumes "lawful w owner s"
  shows "lawful w owner (snd (Apply w gone cmd s))"
proof -
  have rest: "at_rest w owner s" if "s_state s = StateIdle" using assms that by (simp add: lawful_def)
  have submit: "lawful w owner (snd (applySubmit w cmd s))" if "s_state s \<noteq> StateFaulted"
    using that submit_lawful [OF rest] assms by (cases "s_state s") (simp_all add: applySubmit_def)
  have resume: "lawful w owner (snd (applyResume w cmd s))" if "s_state s \<noteq> StateFaulted"
    using that resume_lawful [OF rest] assms by (cases "s_state s") (simp_all add: applyResume_def)
  show ?thesis
    using assms submit resume cancel_lawful [OF assms, of cmd] close_lawful [OF assms, of cmd]
    by (simp add: Apply_def split: sum.split cmd_kind.split)
qed

lemma other_step_lawful: "other_step w s t \<Longrightarrow> lawful w owner s \<Longrightarrow> lawful w owner t"
proof (induction rule: other_step.induct)
  case (command gone cmd)
  then show ?case by (rule Apply_lawful)
qed (elim lawful_quiet; simp add: quiet_def Observe_def unsubscribe_def shutdownCancel_def shutdownClose_def)+

lemma sess_step_lawful:
  assumes "sess_step w s t" "lawful w owner s" "live s" "provider_fresh w owner"
  shows "lawful w owner t"
  using assms(1)
proof cases
  case run
  note t = this
  with assms(3) have st: "s_state s = StateRunning" by (simp add: live_def busy_def)
  with assms(2) obtain rid goal p where "s_run s = Some (rid, goal, p)" "at_pc w owner rid p s"
    by (auto simp: lawful_def)
  with step_at_lawful [OF _ st assms(4)] t show ?thesis by (simp add: run_step_def)
qed (use assms(2) other_step_lawful in simp)

lemma reach_lawful:
  assumes "reach w s t" "lawful w owner s" "live s" "provider_fresh w owner"
  shows "lawful w owner t"
  using assms(1)
proof (induction rule: reach.induct)
  case (step s1 s2)
  with sess_step_lawful reach_live assms(3,4) show ?case by blast
qed (rule assms(2))

subsection \<open>Properties\<close>

lemma NewSession_lawful:
  assumes "NewSession w i docs durable = (Inr (), s0)" "\<And>st. durable = Some st \<Longrightarrow> created st"
  shows "lawful w owner s0"
proof -
  note start = NewSession_starts [OF assms]
  then have "matches s0" by (auto simp: matches_def)
  with start(1,4) show ?thesis by (simp add: lawful_def logs_def open_facts_def closed_log_def call_facts_def)
qed

lemma lawful_logs: "lawful w owner s \<Longrightarrow> \<exists>cl ops. logs w owner cl ops s"
  by (cases "s_state s") (auto simp: lawful_def at_pc_def)

text \<open>
  C2: Transcripts are always valid: as long as no write fails and the provider never uses the
  identity of a tool call twice, the transcript of a session passes \<open>ValidateRecords\<close> in every
  reachable state, also between the moves of a run; at rest (idle or closed) it passes the
  complete check, so that no tool call is left without its result; and the durable transcript
  is the one in memory.
\<close>

theorem transcripts_valid:
  assumes "NewSession w i docs durable = (Inr (), s0)" "\<And>st. durable = Some st \<Longrightarrow> created st"
    and "provider_fresh w owner" "reach w s0 s" "calm w s"
  shows "ValidateRecords (s_records s) = Inr () \<and>
    (s_state s \<in> {StateIdle, StateClosed} \<longrightarrow> ValidateTranscript (s_records s) = Inr ()) \<and>
    (\<forall>st. s_durable s = Some st \<longrightarrow> st_transcript st = s_records s)"
proof -
  have law: "lawful w owner s"
    by (rule reach_lawful [OF assms(4) NewSession_lawful [OF assms(1,2)] NewSession_live [OF assms(1,2)] assms(3)])
  from lawful_logs [OF this] assms(5) have "valid_log (s_records s)" "matches s" by (auto simp: logs_def)
  moreover have "open_facts (s_records s) = []" if "s_state s \<in> {StateIdle, StateClosed}"
    using law that assms(5) by (auto simp: lawful_def logs_def)
  ultimately show ?thesis by (auto simp: matches_def ValidateTranscript_iff)
qed

lemma sample_calm: "calm sample_world s"
  by (simp add: calm_def sample_world_def)

lemma sample_fresh: "provider_fresh sample_world (\<lambda>_. 0)"
  by (simp add: provider_fresh_def sample_world_def safe_ids_def)

lemma sample_created: "created sample_store"
  unfolding created_def using sample_Create by blast

definition sample_session :: session where
  "sample_session = load_session sample_store (fresh_session ''s'' [])"

lemma sample_opened: "NewSession sample_world ''s'' [] (Some sample_store) = (Inr (), sample_session)"
  by (simp add: NewSession_def sample_session_def sample_store_def sample_manifest_def load_session_def fresh_session_def
      close_facts_bad_def close_records_def close_events_def Let_def)

lemma sample_submitted: "reach sample_world sample_session (snd (Apply sample_world False (NewSubmit ''c1'' ''hi'') sample_session))"
  by (intro reach.step [OF reach.start] sess_step.other other_step.command)

theorem transcripts_valid_witness:
  "ValidateRecords (s_records (snd (Apply sample_world False (NewSubmit ''c1'' ''hi'') sample_session))) = Inr ()"
  using transcripts_valid [OF sample_opened _ sample_fresh sample_submitted sample_calm] sample_created by simp

end
