(* ===== verification/Sessioninv.thy ===== *)
theory Sessioninv
  imports Sessionlog
begin

text \<open>
  What a property of sessions must be kept by to hold in every reachable state: the locale asks
  for the primitives of \<open>Session\<close> only, and derives every command and every move of the
  goroutine. Its instances are the append-only growth of what a session keeps, and what the
  directory of a durable session holds.
\<close>

text \<open>A change of the other fields, such as the state, the observers or the position.\<close>

definition aside :: "session \<Rightarrow> session \<Rightarrow> bool" where
  "aside s t \<longleftrightarrow> s_id t = s_id s \<and> s_seen t = s_seen s \<and> s_history t = s_history s \<and> s_records t = s_records s \<and>
     s_durable t = s_durable s \<and> s_tick s \<le> s_tick t"

lemma aside_refl [simp]: "aside s s"
  by (simp add: aside_def)

lemma aside_fields [simp]:
  "aside s (tick s)" "aside s (s\<lparr>s_partial := x\<rparr>)" "aside s (s\<lparr>s_tool := y\<rparr>)" "aside s (s\<lparr>s_cancelled := b\<rparr>)"
  "aside s (s\<lparr>s_state := z\<rparr>)" "aside s (s\<lparr>s_subs := u\<rparr>)" "aside s (goto rid goal p s)" "aside s (faultSession e s)"
  "aside s (snd (refreshDocs w s))"
  by (auto simp: aside_def goto_def faultSession_def refreshDocs_def split: option.split sum.split)

locale session_invariant =
  fixes w :: world and I :: "session \<Rightarrow> bool"
  assumes append: "I s \<Longrightarrow> I (snd (appendPayload w rid p s))"
    and calls: "I s \<Longrightarrow> I (snd (appendToolCalls w rid cs s))"
    and event: "I s \<Longrightarrow> I (snd (persistEvent w rid ev s))"
    and publish: "I s \<Longrightarrow> I (publishEvent e s)"
    and budget: "I s \<Longrightarrow> I (snd (reserve w rid k n s))"
    and command: "I s \<Longrightarrow> I (snd (recordCommand w c s))"
    and begin_run: "I s \<Longrightarrow> I (snd (beginRun w c s))"
    and shut: "I s \<Longrightarrow> I (snd (closeDurable w s))"
    and finish: "I s \<Longrightarrow> I (snd (finishDurable w rid s))"
    and aside: "I s \<Longrightarrow> aside s t \<Longrightarrow> I t"
begin

lemma emit: "I s \<Longrightarrow> I (snd (emit w rid p s))"
  unfolding emit_def by (rule seqE [where P = I]) (auto intro: event publish)

lemma fault: "I s \<Longrightarrow> I (faultSession e s)"
  by (erule aside) simp

lemma move: "I s \<Longrightarrow> I (goto rid goal p s)"
  by (erule aside) simp

lemma or_fault_inv: "I (snd p) \<Longrightarrow> I (snd (or_fault p))"
  by (cases p; cases "fst p") (auto simp: or_fault_def fault)

lemma two: "I (snd q) \<Longrightarrow> (\<And>e t. I t \<Longrightarrow> I (f e t)) \<Longrightarrow> (\<And>a t. I t \<Longrightarrow> I (g a t)) \<Longrightarrow>
    I (case q of (Inl e, t) \<Rightarrow> f e t | (Inr a, t) \<Rightarrow> g a t)"
  by (cases q; cases "fst q") simp_all

lemma two_snd: "I (snd q) \<Longrightarrow> (\<And>e t. I t \<Longrightarrow> I (snd (f e t))) \<Longrightarrow> (\<And>a t. I t \<Longrightarrow> I (snd (g a t))) \<Longrightarrow>
    I (snd (case q of (Inl e, t) \<Rightarrow> f e t | (Inr a, t) \<Rightarrow> g a t))"
  by (cases q; cases "fst q") simp_all

lemma startRun_inv: "I s \<Longrightarrow> I (snd (startRun w rid prompt s))"
  unfolding startRun_def
  by (intro seqE [where P = I] append emit conjI impI) (auto intro: append elim: aside simp: aside_def)

lemma submit_inv: "I s \<Longrightarrow> I (snd (applySubmit w cmd s))"
proof -
  assume s: "I s"
  have warn: "I (snd (seq (recordCommand w (cmd_id cmd) s) (\<lambda>_ s.
      seq (or_fault (emit w [] (WarningPayload ''detected_credential_in_prompt'') s)) (\<lambda>_ s. (Inl SensitivePrompt, s)))))"
    using s by (intro seqE [where P = I] command or_fault_inv emit) auto
  have run: "I (snd (seq (refreshDocs w s) (\<lambda>_ s. (case beginRun w (cmd_id cmd) s of
       (Inl e, s') \<Rightarrow> (Inl e, if e = DuplicateCommand \<or> e = SessionClosed then s' else faultSession e s')
     | (Inr rid, s') \<Rightarrow> or_fault (startRun w rid prompt s')))))" for prompt
    by (intro seqE [where P = I] two_snd begin_run or_fault_inv startRun_inv)
       (auto intro: fault s aside [OF s aside_fields(9)])
  from s warn run show ?thesis by (auto simp: applySubmit_def split: sum.split)
qed

lemma close_inv: "I s \<Longrightarrow> I (snd (applyClose w cmd s))"
proof -
  assume s: "I s"
  have "I (snd (if s_state t = StateClosed then (Inr (), t)
       else seq (or_fault (appendPayload w [] ClosedPayload t)) (\<lambda>_ s.
            seq (or_fault (closeDurable w s)) (\<lambda>_ s. or_fault (emit w [] SessionClosedPayload (s\<lparr>s_state := StateClosed\<rparr>))))))"
    if "I t" for t
  proof -
    have "I (snd (seq (or_fault (appendPayload w [] ClosedPayload t)) (\<lambda>_ s.
            seq (or_fault (closeDurable w s)) (\<lambda>_ s. or_fault (emit w [] SessionClosedPayload (s\<lparr>s_state := StateClosed\<rparr>))))))"
      by (intro seqE [where P = I] or_fault_inv append that shut emit) (auto elim: aside)
    with that show ?thesis by simp
  qed
  then have "I (snd (seq (recordCommand w (cmd_id cmd) s) (\<lambda>_ t. if s_state t = StateClosed then (Inr (), t)
       else seq (or_fault (appendPayload w [] ClosedPayload t)) (\<lambda>_ s.
            seq (or_fault (closeDurable w s)) (\<lambda>_ s. or_fault (emit w [] SessionClosedPayload (s\<lparr>s_state := StateClosed\<rparr>)))))))"
    by (intro seqE [where P = I] command s)
  with s show ?thesis by (simp add: applyClose_def)
qed

lemma Apply_inv: "I s \<Longrightarrow> I (snd (Apply w gone cmd s))"
proof -
  assume s: "I s"
  have cancel: "I (snd (applyCancel w cmd s))"
    unfolding applyCancel_def by (rule seqE [where P = I], rule command [OF s]) (auto elim: aside)
  have "I (snd (seq (recordCommand w (cmd_id cmd) s) (\<lambda>_ s. or_fault (emit w [] SessionResumedPayload s))))"
    by (intro seqE [where P = I] command s or_fault_inv emit)
  with s cancel submit_inv [OF s] close_inv [OF s] show ?thesis
    by (simp add: Apply_def applyResume_def split: sum.split cmd_kind.split)
qed

lemma finishRun_inv: "I s \<Longrightarrow> I (finishRun w rid oc cause s)"
proof -
  assume s: "I s"
  have "I (snd (finish_facts w rid oc cause s))"
    unfolding finish_facts_def by (intro seqE [where P = I] append event finish) (auto intro: append s finish)
  then show ?thesis
    by (cases "finish_facts w rid oc cause s"; cases "fst (finish_facts w rid oc cause s)")
       (auto simp: finishRun_def fault aside_def intro: aside [OF publish])
qed

lemma delta_inv: "I s \<Longrightarrow> I (snd (emit_delta w rid safe s))"
  unfolding emit_delta_def by (rule emit) (auto elim: aside)

lemma block_inv: "I s \<Longrightarrow> I (snd (assistant_block w rid resp projected s))"
proof -
  assume s: "I s"
  have "I (snd (seq (appendPayload w rid (AssistantBlockPayload projected) s)
      (\<lambda>_ s. emit w rid (AssistantTextPayload projected) s)))"
    by (intro seqE [where P = I] append s emit)
  from aside [OF this aside_fields(2)] aside [OF s aside_fields(2)] s show ?thesis
    by (simp add: assistant_block_def case_prod_beta)
qed

lemma tool_inv: "I s \<Longrightarrow> I (snd (tool_facts w rid c r s))"
proof -
  assume s: "I s"
  have "I ((snd (appendPayload w rid (result_payload r) s))\<lparr>s_tool := None\<rparr>)"
    by (rule aside [OF append [OF s, of rid "result_payload r"]]) simp
  then show ?thesis
    by (auto simp: tool_facts_def case_prod_beta Let_def intro!: emit seqE [where P = I])
qed

lemma step_at_inv: "I s \<Longrightarrow> I (step_at w rid goal p s)"
proof -
  note ops = append calls budget emit delta_inv block_inv tool_inv finishRun_inv fault move
  have field: "I t \<Longrightarrow> I (t\<lparr>s_partial := x\<rparr>)" "I t \<Longrightarrow> I (t\<lparr>s_tool := y\<rparr>)" "I t \<Longrightarrow> I (tick t)" for t x y
    by (erule aside, simp)+
  assume s: "I s"
  show ?thesis
  proof (cases p)
    case (AtStream req k ds fin streamed rd)
    with s show ?thesis
      by (cases ds; cases "sr_write NewDetector (hd ds) rd") (auto intro!: two intro: ops)
  next
    case (AtTool todo stopped blocked)
    with s show ?thesis by (cases todo; cases "hd todo") (auto intro!: two intro: ops field)
  qed (use s in \<open>auto simp: Let_def case_prod_beta intro!: two [unfolded case_prod_beta] ops field split: sum.split\<close>)
qed

lemma other_step_inv: "other_step w s t \<Longrightarrow> I s \<Longrightarrow> I t"
proof (induction rule: other_step.induct)
  case (command gone cmd)
  then show ?case by (rule Apply_inv)
qed (elim aside; simp add: aside_def Observe_def unsubscribe_def shutdownCancel_def shutdownClose_def)+

lemma reach_inv: "reach w s t \<Longrightarrow> I s \<Longrightarrow> I t"
proof (induction rule: reach.induct)
  case (step s1 s2)
  from step.hyps(2) step.IH [OF step.prems] show ?case
    by (cases rule: sess_step.cases) (auto simp: run_step_def step_at_inv other_step_inv split: option.split)
qed

end

subsection \<open>What a session keeps only grows\<close>

definition grown :: "session \<Rightarrow> session \<Rightarrow> bool" where
  "grown s t \<longleftrightarrow> s_id t = s_id s \<and> prefix (s_records s) (s_records t) \<and> prefix (s_history s) (s_history t) \<and>
     (\<forall>c. s_seen s c \<longrightarrow> s_seen t c) \<and> s_tick s \<le> s_tick t"

lemma grown_refl [simp]: "grown s s"
  by (simp add: grown_def)

lemma grown_trans: "grown s t \<Longrightarrow> grown t u \<Longrightarrow> grown s u"
  unfolding grown_def by (auto intro: prefix_order.trans order_trans)

lemma grown_ops:
  "grown s (snd (appendPayload w rid p s))" "grown s (snd (appendToolCalls w rid cs s))"
  "grown s (snd (persistEvent w rid ev s))" "grown s (publishEvent e s)"
  "grown s (snd (reserve w rid k n s))" "grown s (snd (recordCommand w c s))"
  "grown s (snd (beginRun w c s))" "grown s (snd (closeDurable w s))" "grown s (snd (finishDurable w rid s))"
  by (auto simp: grown_def effect_defs on_store_pair publishEvent_def Let_def
      split: sum.split option.split store_error.split)

interpretation growth: session_invariant w "grown s0" for w s0
proof unfold_locales
  fix s t assume "grown s0 s" "aside s t"
  then show "grown s0 t" by (auto simp: grown_def aside_def)
qed (blast intro: grown_trans grown_ops)+

text \<open>
  C11: What a session has accepted is never taken back: from any state on, whatever happens and
  whatever fails, its transcript and its event history are only appended to, a command identity
  once seen stays seen, and a later command with it is rejected without any effect.
\<close>

theorem session_append_only:
  assumes "reach w s t"
  shows "prefix (s_records s) (s_records t) \<and> prefix (s_history s) (s_history t) \<and>
    (s_seen s (cmd_id cmd) \<longrightarrow> (\<exists>e. Apply w gone cmd t = (Inl e, t)))"
proof -
  from growth.reach_inv [OF assms grown_refl] have g: "grown s t" .
  have "\<exists>e. Apply w gone cmd t = (Inl e, t)" if "s_seen s (cmd_id cmd)"
    using g that by (auto simp: grown_def Apply_def split: sum.split)
  with g show ?thesis by (simp add: grown_def)
qed

theorem session_append_only_witness:
  "prefix (s_records sample_session) (s_records (snd (Apply sample_world False (NewSubmit ''c1'' ''hi'') sample_session)))"
  using session_append_only [OF sample_submitted] by blast

end
