(* ===== verification/Runledger.thy ===== *)
theory Runledger
  imports Sessioninv
begin

text \<open>
  The runs of a session and the facts that mark their beginning and their end, in the
  transcript, in the history and in the manifest: every run that was begun has one start and,
  once it is over, one end. None of it depends on what the clock, the file system or the
  provider do.
\<close>

subsection \<open>Counting\<close>

definition outs :: "trecord list \<Rightarrow> bytes \<Rightarrow> nat" where
  "outs rs rid = length (filter (\<lambda>r. r_run r = rid \<and> r_kind r = KindRunOutcome) rs)"

definition starts :: "event list \<Rightarrow> bytes \<Rightarrow> nat" where
  "starts evs rid = length (filter (\<lambda>e. ev_run e = rid \<and> ev_kind e = KindRunStarted) evs)"

definition ends_of :: "event list \<Rightarrow> bytes \<Rightarrow> nat" where
  "ends_of evs rid = length (filter (\<lambda>e. ev_run e = rid \<and> isTerminal (ev_kind e)) evs)"

lemmas count_defs = outs_def starts_def ends_of_def close_events_def

definition tally :: "session \<Rightarrow> u64 \<times> (bytes \<Rightarrow> nat) \<times> (bytes \<Rightarrow> nat) \<times> (bytes \<Rightarrow> nat)" where
  "tally s = (s_runs s, outs (s_records s), starts (s_history s), ends_of (s_history s))"

text \<open>What the manifest and the durable events say of the runs and of the session's close.\<close>

record mark =
  mk_active :: "(bytes \<times> gotime) option"
  mk_closed :: bool
  mk_next :: u64
  mk_closes :: nat
  mk_starts :: "bytes \<Rightarrow> nat"
  mk_ends :: "bytes \<Rightarrow> nat"

definition store_marks :: "store \<Rightarrow> mark" where
  "store_marks st = \<lparr>mk_active = m_active (st_manifest st), mk_closed = m_closed (st_manifest st),
     mk_next = m_next_run (st_manifest st), mk_closes = close_events (st_events st),
     mk_starts = starts (st_events st), mk_ends = ends_of (st_events st)\<rparr>"

definition marks :: "session \<Rightarrow> mark option" where
  "marks s = map_option store_marks (s_durable s)"

text \<open>Events that are neither a start nor an end of a run nor the close.\<close>

definition quiet_kind :: "kind \<Rightarrow> bool" where
  "quiet_kind k \<longleftrightarrow> k \<noteq> KindRunStarted \<and> \<not> isTerminal k \<and> k \<noteq> KindSessionClosed"

lemma marks_store [simp]:
  "store_marks (snd (AppendTranscript ct rs io st)) = store_marks st"
  "store_marks (snd (RecordCommand c t io st)) = store_marks st"
  "store_marks (snd (ReserveBudget r k n io st)) = store_marks st"
  "quiet_kind (ev_kind e) \<Longrightarrow> store_marks (snd (AppendEvent ct e io st)) = store_marks st"
  by (auto simp: store_marks_def AppendTranscript_def AppendEvent_def RecordCommand_def ReserveBudget_def count_defs
      quiet_kind_def fun_eq_iff Let_def persist_disk(1) split: sum.split prod.split option.split)

subsection \<open>What leaves the counts as they are\<close>

definition still :: "session \<Rightarrow> session \<Rightarrow> bool" where
  "still s t \<longleftrightarrow> tally t = tally s \<and> marks t = marks s \<and> s_state t = s_state s"

lemma still_refl [simp]: "still s s"
  by (simp add: still_def)

lemma still_trans [trans]: "still s t \<Longrightarrow> still t u \<Longrightarrow> still s u"
  by (simp add: still_def)

lemma still_fields [simp]:
  "still s (tick s)" "still s (s\<lparr>s_partial := x\<rparr>)" "still s (s\<lparr>s_tool := y\<rparr>)" "still s (s\<lparr>s_cancelled := b\<rparr>)"
  "still s (s\<lparr>s_subs := u\<rparr>)" "still s (s\<lparr>s_run := r\<rparr>)" "still s (snd (refreshDocs w s))"
  by (auto simp: still_def tally_def marks_def refreshDocs_def split: option.split sum.split)

lemma outs_append [simp]: "outs (rs @ qs) rid = outs rs rid + outs qs rid"
  by (simp add: outs_def)

lemma outs_number [simp]: "outs (number_from n rs) = outs rs"
  by (induction n rs rule: number_from.induct) (auto simp: outs_def fun_eq_iff)

lemma assign_outs: "assign_seq n rs = Inr as \<Longrightarrow> outs as = outs rs"
proof (induction rs arbitrary: n as)
  case (Cons r rs)
  then obtain bs where "assign_seq (n + 1) rs = Inr bs" "as = r\<lparr>r_seq := n + 1\<rparr> # bs"
    by (cases "assign_seq (n + 1) rs") (auto simp: Let_def split: sum.splits)
  with Cons.IH [of "n + 1" bs] show ?case by (simp add: outs_def fun_eq_iff)
qed simp

lemma append_outs: "fst (AppendTranscript ct rs io st) = Inr as \<Longrightarrow> outs as = outs rs"
  by (auto simp: AppendTranscript_def Let_def dest: persist_disk(3) assign_outs split: sum.splits prod.splits if_splits)

lemma add_records_tally:
  assumes "outs rs = (\<lambda>_. 0)"
  shows "still s (snd (add_records w rs s))"
  using assms by (auto simp: still_def add_records_def on_store_pair tally_def marks_def fun_eq_iff
      dest: append_outs split: option.split sum.split)

lemma append_still [frames]:
  assumes "kind_of p \<noteq> KindRunOutcome"
  shows "still s (snd (appendPayload w rid p s))"
proof (cases "New rid (now w s) (kind_of p) p")
  case (Inr r)
  then have "outs [r] = (\<lambda>_. 0)" using assms by (auto simp: outs_def dest!: New_fields)
  from still_trans [OF add_records_tally [OF this] still_fields(1)] Inr show ?thesis
    by (simp add: appendPayload_def case_prod_beta)
qed (simp add: appendPayload_def)

lemma calls_outs: "call_records w rid n cs = Inr rs \<Longrightarrow> outs rs = (\<lambda>_. 0)"
proof (induction cs arbitrary: n rs)
  case (Cons c cs)
  then obtain r qs where "New rid (w_now w n) KindToolCall (ToolCallPayload (tc_id c) (tc_name c) (tc_args c)) = Inr r"
    "call_records w rid (Suc n) cs = Inr qs" "rs = r # qs"
    by (cases "call_records w rid (Suc n) cs") (auto split: sum.splits)
  with Cons.IH [of "Suc n" qs] show ?case by (auto simp: outs_def fun_eq_iff dest!: New_fields)
qed (simp add: outs_def fun_eq_iff)

lemma calls_still [frames]: "still s (snd (appendToolCalls w rid cs s))"
proof -
  have tick: "still t (t\<lparr>s_tick := n\<rparr>)" for t n by (simp add: still_def tally_def marks_def)
  show ?thesis
    by (auto simp: appendToolCalls_def case_prod_beta dest: calls_outs split: sum.split
        intro: tick still_trans [OF add_records_tally tick])
qed

lemma manifest_still [frames]:
  "still s (snd (reserve w rid k n s))" "still s (snd (recordCommand w c s))"
  by (auto simp: still_def tally_def marks_def reserve_def recordCommand_def on_store_pair Let_def
      split: option.split sum.split store_error.split)

definition passing :: "ev_payload \<Rightarrow> bool" where
  "passing p \<longleftrightarrow> quiet_kind (ev_kind_of p)"

lemma passing_simps [simp]:
  "passing (AssistantDeltaPayload x)" "passing (AssistantTextPayload x)" "passing (RetryScheduledPayload a b c)"
  "passing (ToolStartedPayload x y)" "passing (ToolFinishedPayload x y)" "passing (WarningPayload x)"
  "passing SessionResumedPayload"
  by (simp_all add: passing_def quiet_kind_def isTerminal_def)

lemma event_still:
  assumes "passing p"
  shows "still s (snd (persistEvent w rid p s))"
  using assms by (auto simp: still_def persistEvent_def on_store_pair tally_def marks_def passing_def split: sum.split option.split
      dest!: ev_new_fields)

text \<open>What an event adds to the marks.\<close>

definition note_event :: "event \<Rightarrow> mark \<Rightarrow> mark" where
  "note_event e m = m\<lparr>mk_closes := mk_closes m + close_events [e],
     mk_starts := (\<lambda>r. mk_starts m r + starts [e] r), mk_ends := (\<lambda>r. mk_ends m r + ends_of [e] r)\<rparr>"

lemma event_marks:
  assumes "persistEvent w rid p s = (Inr ev, t)"
  shows "marks t = map_option (note_event ev) (marks s)" "tally t = tally s" "s_state t = s_state s"
proof -
  have "store_marks (snd (AppendEvent ct e io st)) = note_event e (store_marks st)" if "fst (AppendEvent ct e io st) = Inr u" for ct e io st u
    using that by (auto simp: store_marks_def note_event_def AppendEvent_def persist_disk(1) count_defs Let_def fun_eq_iff
        split: if_splits prod.splits)
  with assms show "marks t = map_option (note_event ev) (marks s)"
    by (auto simp: persistEvent_def on_store_pair marks_def split: sum.splits option.splits)
  show "tally t = tally s" "s_state t = s_state s" using assms
    by (auto simp: persistEvent_def on_store_pair tally_def split: sum.splits option.splits)
qed

lemma emit_still [frames]:
  assumes "passing p"
  shows "still s (snd (emit w rid p s))"
proof (cases "persistEvent w rid p s")
  case (Pair q t)
  have t: "still s t" using event_still [of p s w rid] assms Pair by simp
  show ?thesis
  proof (cases q)
    case (Inr ev)
    from persistEvent_ok [OF Pair [unfolded Inr]] have "ev_kind ev = ev_kind_of p" by (auto dest: ev_new_fields)
    with t Pair Inr assms show ?thesis
      by (auto simp: emit_def publishEvent_def still_def tally_def marks_def passing_def quiet_kind_def count_defs fun_eq_iff)
  qed (use t Pair in \<open>simp add: emit_def\<close>)
qed

subsection \<open>The moves of the goroutine\<close>

definition moved :: "bytes \<Rightarrow> bytes \<Rightarrow> session \<Rightarrow> session \<Rightarrow> bool" where
  "moved rid goal s t \<longleftrightarrow> tally t = tally s \<and> marks t = marks s \<and>
     (s_state t = StateFaulted \<or> s_state t = s_state s \<and> (\<exists>p. s_run t = Some (rid, goal, p)))"

lemma moved_goto: "still s t \<Longrightarrow> moved rid goal s (goto rid goal p t)"
  by (auto simp: still_def moved_def goto_def tally_def marks_def)

lemma moved_fault: "still s t \<Longrightarrow> moved rid goal s (faultSession e t)"
  by (auto simp: still_def moved_def faultSession_def tally_def marks_def)

lemma two_moved:
  assumes "still s (snd q)" "\<And>e t. still s t \<Longrightarrow> moved rid goal s (f e t)" "\<And>a t. still s t \<Longrightarrow> moved rid goal s (g a t)"
  shows "moved rid goal s (case q of (Inl e, t) \<Rightarrow> f e t | (Inr a, t) \<Rightarrow> g a t)"
  using assms by (cases q; cases "fst q") auto

lemma delta_still: "still s (snd (emit_delta w rid safe s))"
  unfolding emit_delta_def by (rule still_trans [OF still_fields(2) emit_still]) simp

lemma block_still: "still s (snd (assistant_block w rid resp projected s))"
proof -
  have "still s (snd (seq (appendPayload w rid (AssistantBlockPayload projected) s)
      (\<lambda>_ s. emit w rid (AssistantTextPayload projected) s)))"
    by (rule seqE [where P = "still s"]) (auto intro: append_still still_trans [OF _ emit_still])
  from still_trans [OF this still_fields(2)] show ?thesis by (simp add: assistant_block_def case_prod_beta)
qed

lemma tool_still: "still s (snd (tool_facts w rid c r s))"
proof -
  have "still s ((snd (appendPayload w rid (result_payload r) s))\<lparr>s_tool := None\<rparr>)"
    by (rule still_trans [OF append_still still_fields(3)]) (simp add: result_payload_def)
  then show ?thesis
    by (auto simp: tool_facts_def case_prod_beta Let_def intro!: seqE [where P = "still s"] intro: still_trans [OF _ emit_still])
qed

lemma step_at_moved:
  assumes "\<And>oc cause. p \<noteq> AtFinish oc cause"
  shows "moved rid goal s (step_at w rid goal p s)"
proof -
  note ops = calls_still manifest_still delta_still block_still tool_still still_refl still_fields
    still_trans [OF _ still_fields(1)]
  note two = two_moved [OF _ moved_goto moved_goto] two_moved [OF _ moved_fault moved_goto]
  have emit: "still s (snd (emit w rid ev t))" if "still s t" "passing ev" for ev t
    using still_trans [OF that(1) emit_still [OF that(2)]] .
  show ?thesis
  proof (cases p)
    case (AtStream req k ds fin streamed rd)
    then show ?thesis
      by (cases ds; cases "sr_write NewDetector (hd ds) rd") (auto intro!: two moved_goto ops)
  next
    case (AtTool todo stopped blocked)
    then show ?thesis
      by (cases todo; cases "hd todo") (auto intro!: two moved_goto emit ops)
  next
    case (AtAttempt req k)
    then show ?thesis by (auto simp: case_prod_beta Let_def intro!: two_moved [unfolded case_prod_beta] moved_goto ops)
  next
    case (AtCalls cs)
    then show ?thesis by (auto simp: case_prod_beta intro!: two [unfolded case_prod_beta] ops)
  next
    case (AtFinish oc cause)
    with assms show ?thesis by blast
  qed (auto simp: Let_def intro!: two moved_goto emit ops split: sum.split)
qed

subsection \<open>The ledger\<close>

definition over :: "u64 \<Rightarrow> bool \<Rightarrow> u64 \<Rightarrow> nat" where
  "over r active n = (if n \<noteq> 0 \<and> n \<le> r \<and> \<not> (active \<and> n = r) then 1 else 0)"

text \<open>Every run up to the last has a start, and an end unless it is the last and \<open>active\<close>.\<close>

definition books :: "bool \<Rightarrow> bool \<Rightarrow> session \<Rightarrow> bool" where
  "books begun active s \<longleftrightarrow> (\<forall>n. starts (s_history s) (run_name n) = over (s_runs s) (\<not> begun) n \<and>
     outs (s_records s) (run_name n) = over (s_runs s) active n \<and>
     ends_of (s_history s) (run_name n) = over (s_runs s) active n)"

definition mark_ok :: "session \<Rightarrow> bool" where
  "mark_ok s \<longleftrightarrow> (\<forall>m. marks s = Some m \<longrightarrow> mk_next m = s_runs s \<and>
     (if s_state s = StateRunning then \<exists>t. mk_active m = Some (run_name (s_runs s), t) else mk_active m = None) \<and>
     mk_closed m = (s_state s = StateClosed) \<and> mk_closes m = (if s_state s = StateClosed then 1 else 0) \<and>
     (\<forall>n. mk_starts m (run_name n) = over (s_runs s) False n \<and>
       mk_ends m (run_name n) = over (s_runs s) (s_state s = StateRunning) n))"

text \<open>What is left of the books when a write of the last run failed and the session is faulted.\<close>

definition half_books :: "session \<Rightarrow> bool" where
  "half_books s \<longleftrightarrow> (\<forall>n. starts (s_history s) (run_name n) \<le> over (s_runs s) False n \<and>
     outs (s_records s) (run_name n) \<le> over (s_runs s) False n \<and>
     ends_of (s_history s) (run_name n) \<le> over (s_runs s) False n \<and>
     (n \<noteq> s_runs s \<longrightarrow> starts (s_history s) (run_name n) = over (s_runs s) False n \<and>
       outs (s_records s) (run_name n) = over (s_runs s) False n \<and>
       ends_of (s_history s) (run_name n) = over (s_runs s) False n))"

definition ledger :: "nat \<Rightarrow> session \<Rightarrow> bool" where
  "ledger base s \<longleftrightarrow> (base + s_tick s < 2 ^ 64 \<and> s_state s \<noteq> StateFaulted \<longrightarrow>
     books True (s_state s = StateRunning) s \<and> mark_ok s \<and> unat (s_runs s) \<le> base + s_tick s \<and>
     (s_state s = StateRunning \<longrightarrow> s_runs s \<noteq> 0 \<and> (\<exists>goal p. s_run s = Some (run_name (s_runs s), goal, p)))) \<and>
    (base + s_tick s < 2 ^ 64 \<and> s_state s = StateFaulted \<longrightarrow> half_books s)"

lemma books_half: "books b a s \<Longrightarrow> half_books s"
  by (auto simp: books_def half_books_def over_def)

lemma half_tally: "tally t = tally s \<Longrightarrow> half_books t = half_books s"
  by (simp add: half_books_def tally_def)

lemma ledger_half: "ledger base s \<Longrightarrow> base + s_tick s < 2 ^ 64 \<Longrightarrow> half_books s"
  using books_half by (cases "s_state s = StateFaulted") (auto simp: ledger_def)

lemma books_tally: "tally t = tally s \<Longrightarrow> books b a t = books b a s"
  by (simp add: books_def tally_def)

lemma tally_runs: "tally t = tally s \<Longrightarrow> s_runs t = s_runs s"
  by (simp add: tally_def)

lemma mark_ok_still: "still s t \<Longrightarrow> mark_ok t = mark_ok s"
  using tally_runs [of t s] by (simp add: mark_ok_def still_def)

lemma ledger_still:
  assumes "ledger base s" "still s t" "s_run t = s_run s" "s_tick s \<le> s_tick t"
  shows "ledger base t"
proof -
  from assms(2) have "tally t = tally s" "s_state t = s_state s" by (simp_all add: still_def)
  note t = this(2) tally_runs [OF this(1)] books_tally [OF this(1)] half_tally [OF this(1)] mark_ok_still [OF assms(2)]
  with assms(1,3,4) show ?thesis by (auto simp: ledger_def t)
qed

lemma ledger_fault:
  assumes "base + s_tick s < 2 ^ 64 \<Longrightarrow> half_books s"
  shows "ledger base (faultSession e s)"
  using assms by (simp add: ledger_def half_books_def faultSession_def)

lemma ledger_faulted: "ledger base s \<Longrightarrow> ledger base (faultSession e s)"
  by (rule ledger_fault) (rule ledger_half)

lemma ledger_moved:
  assumes "ledger base s" "moved (run_name (s_runs s)) goal s t" "s_state s = StateRunning" "s_tick s \<le> s_tick t"
  shows "ledger base t"
proof -
  from assms(2,3) have m: "tally t = tally s" "marks t = marks s"
    "s_state t = StateFaulted \<or> s_state t = StateRunning \<and> (\<exists>p. s_run t = Some (run_name (s_runs s), goal, p))"
    by (simp_all add: moved_def)
  note t = m(2) tally_runs [OF m(1)] books_tally [OF m(1)] half_tally [OF m(1)]
  from m(3) show ?thesis
  proof
    assume "s_state t = StateRunning \<and> (\<exists>p. s_run t = Some (run_name (s_runs s), goal, p))"
    with assms(1,3,4) show ?thesis by (auto simp: ledger_def mark_ok_def t)
  next
    assume "s_state t = StateFaulted"
    with ledger_half [OF assms(1)] assms(4) show ?thesis by (simp add: ledger_def t)
  qed
qed

text \<open>The tick never goes back.\<close>

lemma grown_tick: "grown s t \<Longrightarrow> s_tick s \<le> s_tick t"
  by (simp add: grown_def)

subsection \<open>The end of a run\<close>

lemma New_run: "New rid t k p = Inr r \<Longrightarrow> r_run r = rid \<and> r_kind r = k"
  by (auto dest!: New_fields)

lemma append_outcome:
  assumes "appendPayload w rid (RunOutcomePayload oc cause) s = (Inr u, t)"
  shows "outs (s_records t) = (outs (s_records s))(rid := Suc (outs (s_records s) rid))" "s_history t = s_history s"
    "s_runs t = s_runs s" "marks t = marks s" "s_state t = s_state s"
proof -
  from assms obtain r where r: "New rid (now w s) KindRunOutcome (RunOutcomePayload oc cause) = Inr r"
    by (auto simp: appendPayload_def split: sum.splits)
  then have one: "outs [r] = (\<lambda>_. 0)(rid := 1)" by (auto simp: outs_def fun_eq_iff dest!: New_run)
  from assms r obtain v where v: "add_records w [r] s = (Inr u, v)" "t = tick v"
    by (auto simp: appendPayload_def case_prod_beta prod_eq_iff)
  from v(1) have "outs (s_records v) = (\<lambda>x. outs (s_records s) x + outs [r] x)"
    by (auto simp: add_records_def on_store_pair fun_eq_iff simp del: number_from.simps
        dest: append_outs split: option.splits sum.splits)
  with one v(2) show "outs (s_records t) = (outs (s_records s))(rid := Suc (outs (s_records s) rid))"
    by (auto simp: fun_eq_iff)
  from v show "s_history t = s_history s" "s_runs t = s_runs s" "marks t = marks s" "s_state t = s_state s"
    by (auto simp: add_records_def on_store_pair marks_def split: option.splits sum.splits)
qed

lemma outcome_terminal: "isTerminal (ev_kind_of (outcome_event oc cause))" "ev_kind_of (outcome_event oc cause) \<noteq> KindSessionClosed"
  "ev_kind_of (outcome_event oc cause) \<noteq> KindRunStarted"
  by (simp_all add: outcome_event_def isTerminal_def)

lemma finishDurable_marks:
  assumes "finishDurable w rid s = (Inr u, t)"
  shows "marks t = map_option (mk_active_update (\<lambda>_. None)) (marks s)" "tally t = tally s" "s_state t = s_state s"
    "same_core s t"
proof -
  show "same_core s t" using core_frames(8) [of s w rid] assms by simp
  then show "s_state t = s_state s" by (simp add: same_core_def)
  show "tally t = tally s" "marks t = map_option (mk_active_update (\<lambda>_. None)) (marks s)"
    using assms
    by (auto simp: finishDurable_def on_store_pair tally_def marks_def store_marks_def FinishRun_def persist_disk(1) Let_def
        split: option.splits if_splits sum.splits)
qed

lemma finish_books:
  assumes "books True True s" "s_runs s \<noteq> 0" "s_runs t = s_runs s" "starts (s_history t) = starts (s_history s)"
    and "outs (s_records t) = (outs (s_records s))(run_name (s_runs s) := Suc (outs (s_records s) (run_name (s_runs s))))"
    and "ends_of (s_history t) = (ends_of (s_history s))(run_name (s_runs s) := Suc (ends_of (s_history s) (run_name (s_runs s))))"
  shows "books True False t"
  using assms by (auto simp: books_def over_def)

lemma finish_facts_tally:
  assumes "finish_facts w rid oc cause s = (Inr ev, t)"
  shows "outs (s_records t) = (outs (s_records s))(rid := Suc (outs (s_records s) rid))" "s_history t = s_history s"
    "s_runs t = s_runs s" "marks t = map_option (mk_active_update (\<lambda>_. None) \<circ> note_event ev) (marks s)" "s_tick s \<le> s_tick t"
    "ev_run ev = rid" "ev_kind ev = ev_kind_of (outcome_event oc cause)"
proof -
  define p0 where "p0 = (if oc = RunOutcomeCancelled then appendPayload w rid CancellationBoundaryPayload s else (Inr (), s))"
  from assms obtain s0 where s0: "p0 = (Inr (), s0)" and
    r0: "seq (appendPayload w rid (RunOutcomePayload oc cause) s0) (\<lambda>_ s.
     seq (persistEvent w rid (outcome_event oc cause) s) (\<lambda>ev s.
     seq (finishDurable w rid s) (\<lambda>_ s. (Inr ev, s)))) = (Inr ev, t)"
    unfolding finish_facts_def p0_def [symmetric] by (auto elim: seq_cases)
  from r0 obtain s1 where s1: "appendPayload w rid (RunOutcomePayload oc cause) s0 = (Inr (), s1)" and
    r1: "seq (persistEvent w rid (outcome_event oc cause) s1) (\<lambda>ev s.
     seq (finishDurable w rid s) (\<lambda>_ s. (Inr ev, s))) = (Inr ev, t)" by (auto elim: seq_cases)
  from r1 obtain s2 where s2: "persistEvent w rid (outcome_event oc cause) s1 = (Inr ev, s2)" "finishDurable w rid s2 = (Inr (), t)"
    by (auto elim!: seq_cases)
  have "still s (snd p0)" "same_core s (snd p0)" by (auto simp: p0_def intro: append_still core_frames)
  with s0 have c0: "still s s0" "same_core s s0" by simp_all
  note c1 = append_outcome [OF s1]
  have c2: "marks s2 = map_option (note_event ev) (marks s1)" "tally s2 = tally s1" "same_core s1 s2"
    using event_marks [OF s2(1)] core_frames(3) [of s1 w rid "outcome_event oc cause"] s2(1) by simp_all
  note c3 = finishDurable_marks [OF s2(2)]
  have core: "same_core s0 s1" using core_frames(1) [of s0 w rid "RunOutcomePayload oc cause"] s1 by simp
  from c0(1) c2(2) c3(2) have tl: "tally s0 = tally s" "tally s2 = tally s1" "tally t = tally s2"
    "marks s0 = marks s" by (simp_all add: still_def)
  then have "outs (s_records s0) = outs (s_records s)" "outs (s_records t) = outs (s_records s1)"
    "s_runs t = s_runs s1" "s_runs s0 = s_runs s" by (simp_all add: tally_def)
  with c1 show "outs (s_records t) = (outs (s_records s))(rid := Suc (outs (s_records s) rid))" "s_runs t = s_runs s"
    by simp_all
  show "marks t = map_option (mk_active_update (\<lambda>_. None) \<circ> note_event ev) (marks s)"
    using c3(1) c2(1) c1(4) tl by (simp add: option.map_comp)
  have "same_core s t" using c0(2) core c2(3) c3(4) same_core_trans by blast
  then show "s_history t = s_history s" "s_tick s \<le> s_tick t" by (simp_all add: same_core_def)
  from persistEvent_ok [OF s2(1)] show "ev_run ev = rid" "ev_kind ev = ev_kind_of (outcome_event oc cause)"
    by (auto dest: ev_new_fields)
qed

text \<open>A write of the end that fails leaves at most the outcome record behind.\<close>

lemma failed_tally:
  "tally (snd (persistEvent w rid p s)) = tally s" "tally (snd (finishDurable w rid s)) = tally s"
  "tally (snd (closeDurable w s)) = tally s"
  by (auto simp: persistEvent_def finishDurable_def closeDurable_def on_store_pair tally_def Let_def
      split: sum.split option.split)

lemma outcome_outs:
  "outs (s_records (snd (appendPayload w rid (RunOutcomePayload oc cause) s))) \<in>
     {outs (s_records s), (outs (s_records s))(rid := Suc (outs (s_records s) rid))}"
proof (cases "appendPayload w rid (RunOutcomePayload oc cause) s")
  case (Pair q t)
  show ?thesis
  proof (cases q)
    case (Inl e)
    with Pair have "s_records t = s_records s"
      by (auto simp: appendPayload_def add_records_def on_store_pair case_prod_beta split: sum.splits option.splits)
    with Pair show ?thesis by simp
  qed (use Pair append_outcome(1) [of w rid oc cause s] in simp)
qed

lemma finish_failed_half:
  assumes "books True True s" "s_runs s \<noteq> 0" "rid = run_name (s_runs s)"
  shows "half_books (snd (finish_facts w rid oc cause s))"
proof -
  define one :: "session \<Rightarrow> bool" where "one t \<longleftrightarrow> s_history t = s_history s \<and> s_runs t = s_runs s \<and>
    outs (s_records t) \<in> {outs (s_records s), (outs (s_records s))(rid := Suc (outs (s_records s) rid))}" for t
  have hist: "s_history (snd (appendPayload w rid p t)) = s_history t" "s_runs (snd (appendPayload w rid p t)) = s_runs t"
    "s_history (snd (persistEvent w rid q t)) = s_history t" "s_history (snd (finishDurable w rid t)) = s_history t" for p q and t :: session
    by (auto simp: appendPayload_def add_records_def persistEvent_def finishDurable_def on_store_pair Let_def case_prod_beta
        split: sum.split option.split)
  have later: "one (snd (persistEvent w rid q t))" "one (snd (finishDurable w rid t))" if "one t" for q and t :: session
    using that hist(3) [of q t] hist(4) [of t] failed_tally(1) [of w rid q t] failed_tally(2) [of w rid t]
    by (simp_all add: one_def tally_def)
  have first: "outs (s_records t) = outs (s_records s) \<and> s_history t = s_history s \<and> s_runs t = s_runs s"
    if "t = snd (if oc = RunOutcomeCancelled then appendPayload w rid CancellationBoundaryPayload s else (Inr (), s))" for t
    using that append_still [of CancellationBoundaryPayload s w rid] hist(1,2) [of CancellationBoundaryPayload s]
    by (auto simp: still_def tally_def)
  have "one (snd (finish_facts w rid oc cause s))"
    unfolding finish_facts_def
  proof (rule seq_rule [where I = "\<lambda>t. outs (s_records t) = outs (s_records s) \<and> s_history t = s_history s \<and> s_runs t = s_runs s"],
      goal_cases)
    case (3 a t)
    have "one (snd (appendPayload w rid (RunOutcomePayload oc cause) t))"
      using 3(2) hist(1,2) [of "RunOutcomePayload oc cause" t] outcome_outs [of w rid oc cause t] by (simp add: one_def)
    then show ?case by (intro seqE [where P = one] later) simp_all
  qed (use first in \<open>auto simp: one_def\<close>)
  with assms show ?thesis by (auto simp: one_def books_def half_books_def over_def)
qed

lemma finish_ledger:
  assumes "ledger base s" "s_state s = StateRunning" "rid = run_name (s_runs s)"
  shows "ledger base (finishRun w rid oc cause s)"
proof (cases "finish_facts w rid oc cause s")
  case (Pair q t)
  show ?thesis
  proof (cases q)
    case (Inr ev)
    note f = finish_facts_tally [OF Pair [unfolded Inr]]
    let ?t = "finishRun w rid oc cause s"
    from Pair Inr have t: "?t = (publishEvent ev t)\<lparr>s_state := StateIdle, s_error := None, s_cancelled := False,
        s_partial := [], s_tool := None, s_run := None\<rparr>" by (simp add: finishRun_def)
    have hist: "s_history ?t = s_history s @ [ev]" "s_records ?t = s_records t" "s_runs ?t = s_runs s"
      "s_state ?t = StateIdle" "s_tick ?t = s_tick t" "marks ?t = marks t"
      using f by (simp_all add: t publishEvent_def marks_def)
    have note1: "close_events [ev] = 0" "starts [ev] = (\<lambda>_. 0)" "ends_of [ev] = (\<lambda>_. 0)(rid := 1)"
      using f(6,7) outcome_terminal by (auto simp: count_defs fun_eq_iff)
    have ends: "ends_of (s_history ?t) = (ends_of (s_history s))(rid := Suc (ends_of (s_history s) rid))"
      "starts (s_history ?t) = starts (s_history s)"
      using f(6,7) outcome_terminal by (auto simp: hist ends_of_def starts_def fun_eq_iff)
    have "books True False ?t" if "books True True s" "s_runs s \<noteq> 0"
      by (rule finish_books [OF that]) (use hist ends f assms(3) in auto)
    moreover have "mark_ok ?t" if "mark_ok s" "s_runs s \<noteq> 0"
      using that f(4) assms(2,3) unfolding mark_ok_def hist
      by (cases "marks s") (auto simp: note_event_def note1 over_def)
    ultimately show ?thesis using assms(1,2) f(5) by (auto simp: ledger_def hist)
  next
    case (Inl e)
    have "half_books t" if "base + s_tick t < 2 ^ 64"
    proof -
      have "s_tick s \<le> s_tick t" using grown_tick [OF growth.finishRun_inv [OF grown_refl], of s w rid oc cause] Pair Inl
        by (simp add: finishRun_def faultSession_def)
      with that assms(1,2) have "books True True s" "s_runs s \<noteq> 0" by (auto simp: ledger_def)
      from finish_failed_half [OF this assms(3), of w oc cause] Pair show ?thesis by simp
    qed
    then have "ledger base (faultSession e t)" by (rule ledger_fault)
    with Pair Inl show ?thesis by (simp add: finishRun_def)
  qed
qed

lemma run_step_ledger:
  assumes "ledger base s" "live s" "base + s_tick s < 2 ^ 64"
  shows "ledger base (run_step w s)"
proof (cases "s_run s")
  case (Some x)
  with assms(2) have st: "s_state s = StateRunning" by (simp add: live_def)
  with assms(1,3) obtain goal p where x: "s_run s = Some (run_name (s_runs s), goal, p)" by (auto simp: ledger_def)
  have tick: "s_tick s \<le> s_tick (step_at w (run_name (s_runs s)) goal p s)"
    using growth.step_at_inv [OF grown_refl] by (rule grown_tick)
  show ?thesis
  proof (cases "\<exists>oc cause. p = AtFinish oc cause")
    case True
    with x finish_ledger [OF assms(1) st] show ?thesis by (auto simp: run_step_def)
  next
    case False
    then have "moved (run_name (s_runs s)) goal s (step_at w (run_name (s_runs s)) goal p s)"
      by (intro step_at_moved) auto
    from ledger_moved [OF assms(1) this st tick] x show ?thesis by (simp add: run_step_def)
  qed
qed (use assms in \<open>simp add: run_step_def\<close>)

subsection \<open>The beginning of a run\<close>

lemma over_next: "r + 1 \<noteq> 0 \<Longrightarrow> over (r + 1) True n = over r False n"
proof -
  assume "r + 1 \<noteq> 0"
  then have "unat (r + 1) = unat r + 1" by (simp add: unat_eq_0 unatSuc add.commute)
  then have "n \<le> r + 1 \<and> n \<noteq> r + 1 \<longleftrightarrow> n \<le> r" by (auto simp: word_le_nat_alt word_unat_eq_iff)
  then show ?thesis by (auto simp: over_def)
qed

lemma beginRun_ok:
  assumes "beginRun w c s = (Inr rid, t)" "mark_ok s"
  shows "rid = run_name (s_runs t)" "s_runs t = s_runs s + 1" "s_records t = s_records s"
    "\<exists>at. marks t = map_option (\<lambda>m. m\<lparr>mk_active := Some (rid, at), mk_next := s_runs t\<rparr>) (marks s)" "same_core s t"
    "s_tick t = Suc (s_tick s)"
proof -
  show "same_core s t" using core_frames(6) [of s w c] assms(1) by simp
  have "\<And>st. s_durable s = Some st \<Longrightarrow> m_next_run (st_manifest st) = s_runs s"
    using assms(2) by (auto simp: mark_ok_def marks_def store_marks_def)
  with assms(1) show "rid = run_name (s_runs t)" "s_runs t = s_runs s + 1" "s_records t = s_records s"
    "\<exists>at. marks t = map_option (\<lambda>m. m\<lparr>mk_active := Some (rid, at), mk_next := s_runs t\<rparr>) (marks s)"
    "s_tick t = Suc (s_tick s)"
    by (auto simp: beginRun_def on_store_pair BeginRun_def persist_disk(1) Let_def marks_def store_marks_def
        dest: persist_disk(3) split: option.splits sum.splits if_splits)
qed

lemma beginRun_rejected:
  assumes "beginRun w c s = (Inl e, t)" "e = DuplicateCommand \<or> e = SessionClosed"
  shows "still s t" "s_run t = s_run s" "s_tick s \<le> s_tick t"
proof -
  show "s_run t = s_run s" "s_tick s \<le> s_tick t" using same_coreD [OF core_frames(6) [of s w c]] assms(1) by simp_all
  show "still s t" using assms
    by (auto simp: beginRun_def still_def tally_def marks_def on_store_pair store_command_error_def BeginRun_def persist_def
        write_manifest_def Let_def split: option.splits sum.splits store_error.splits if_splits prod.splits)
qed

lemma beginRun_failed:
  assumes "beginRun w c s = (Inl e, t)"
  shows "tally t = tally s" "s_tick s \<le> s_tick t"
proof -
  show "s_tick s \<le> s_tick t" using same_coreD [OF core_frames(6) [of s w c]] assms by simp
  show "tally t = tally s" using assms
    by (auto simp: beginRun_def tally_def on_store_pair Let_def split: option.splits sum.splits)
qed

text \<open>Between \<open>beginRun\<close> and the end of \<open>startRun\<close>.\<close>

definition starting :: "nat \<Rightarrow> session \<Rightarrow> bool" where
  "starting base s \<longleftrightarrow> s_state s = StateIdle \<and> (base + s_tick s < 2 ^ 64 \<longrightarrow> books False True s \<and> s_runs s \<noteq> 0 \<and>
     unat (s_runs s) \<le> base + s_tick s \<and>
     (\<forall>m. marks s = Some m \<longrightarrow> mk_next m = s_runs s \<and> (\<exists>t. mk_active m = Some (run_name (s_runs s), t)) \<and>
       \<not> mk_closed m \<and> mk_closes m = 0 \<and> (\<forall>n. mk_starts m (run_name n) = over (s_runs s) True n \<and>
         mk_ends m (run_name n) = over (s_runs s) True n)))"

lemma starting_still:
  assumes "starting base s" "still s t" "s_tick s \<le> s_tick t"
  shows "starting base t"
proof -
  from assms(2) have t: "tally t = tally s" "marks t = marks s" "s_state t = s_state s" by (simp_all add: still_def)
  with assms(1,3) tally_runs [OF t(1)] books_tally [OF t(1)] show ?thesis by (auto simp: starting_def)
qed

lemma beginRun_starting:
  assumes "ledger base s" "s_state s = StateIdle" "beginRun w c s = (Inr rid, t)"
  shows "starting base t \<and> rid = run_name (s_runs t)"
proof -
  have core: "same_core s t" using core_frames(6) [of s w c] assms(3) by simp
  then have st: "s_state t = StateIdle" "s_history t = s_history s" "s_tick s \<le> s_tick t" using assms(2) by (simp_all add: same_core_def)
  have rid: "rid = run_name (s_runs t)" using assms(3)
    by (auto simp: beginRun_def on_store_pair BeginRun_def persist_disk(1) Let_def dest: persist_disk(3)
        split: option.splits sum.splits if_splits)
  have "starting base t"
  proof (cases "base + s_tick t < 2 ^ 64")
    case True
    with assms(1,2) st(3) have s: "books True False s" "mark_ok s" "unat (s_runs s) \<le> base + s_tick s" by (auto simp: ledger_def)
    note b = beginRun_ok [OF assms(3) s(2)]
    have "unat (s_runs s) + 1 < 2 ^ 64" using s(3) b(6) True by simp
    then have inc: "unat (s_runs s + 1) = unat (s_runs s) + 1" by (simp add: unat_word_ariths)
    have nz: "s_runs s + 1 \<noteq> 0"
    proof
      assume "s_runs s + 1 = 0"
      with inc show False by simp
    qed
    have "books False True t" using s(1) b(2,3) st(2) over_next [OF nz] by (simp add: books_def)
    moreover have "\<forall>m. marks t = Some m \<longrightarrow> mk_next m = s_runs t \<and> (\<exists>x. mk_active m = Some (run_name (s_runs t), x)) \<and>
       \<not> mk_closed m \<and> mk_closes m = 0 \<and> (\<forall>n. mk_starts m (run_name n) = over (s_runs t) True n \<and>
         mk_ends m (run_name n) = over (s_runs t) True n)"
      using b(1,2,4) s(2) assms(2) over_next [OF nz] by (cases "marks s") (auto simp: mark_ok_def)
    ultimately show ?thesis using inc nz s(3) b(2,6) st(1) by (auto simp: starting_def)
  qed (use st in \<open>simp add: starting_def\<close>)
  with rid show ?thesis by simp
qed

lemma append_grown_tick: "s_tick s \<le> s_tick (snd (appendPayload w rid p s))"
  by (rule grown_tick [OF grown_ops(1)])

lemma append_starting:
  "starting base s \<Longrightarrow> kind_of p \<noteq> KindRunOutcome \<Longrightarrow> starting base (snd (appendPayload w rid p s)) \<and>
     s_runs (snd (appendPayload w rid p s)) = s_runs s"
proof
  assume s: "starting base s" and p: "kind_of p \<noteq> KindRunOutcome"
  note still = append_still [OF p, of s w rid]
  show "starting base (snd (appendPayload w rid p s))" by (rule starting_still [OF s still append_grown_tick])
  show "s_runs (snd (appendPayload w rid p s)) = s_runs s" 
    by (rule tally_runs) (use still in \<open>simp add: still_def\<close>)
qed

lemma emit_starting:
  assumes "starting base s" "emit w (run_name (s_runs s)) (RunStartedPayload prompt) s = (Inr u, t)"
  shows "ledger base (t\<lparr>s_cancelled := False, s_state := StateRunning, s_run := Some (run_name (s_runs s), prompt, AtTop)\<rparr>)"
proof -
  let ?t = "t\<lparr>s_cancelled := False, s_state := StateRunning, s_run := Some (run_name (s_runs s), prompt, AtTop)\<rparr>"
  from assms(2) obtain ev v where v: "persistEvent w (run_name (s_runs s)) (RunStartedPayload prompt) s = (Inr ev, v)" "t = publishEvent ev v"
    by (auto simp: emit_def elim: seq_cases)
  note em = event_marks [OF v(1)]
  have core: "same_core s v" using core_frames(3) [of s w "run_name (s_runs s)" "RunStartedPayload prompt"] v(1) by simp
  from persistEvent_ok [OF v(1)] have ev: "ev_run ev = run_name (s_runs s)" "ev_kind ev = KindRunStarted" by (auto dest: ev_new_fields)
  from em core v(2) have t: "s_runs ?t = s_runs s" "marks ?t = map_option (note_event ev) (marks s)" "s_history ?t = s_history s @ [ev]"
    "outs (s_records ?t) = outs (s_records s)" "s_tick s \<le> s_tick ?t"
    by (auto simp: tally_def publishEvent_def marks_def same_core_def)
  have note1: "close_events [ev] = 0" "starts [ev] = (\<lambda>_. 0)(run_name (s_runs s) := 1)" "ends_of [ev] = (\<lambda>_. 0)"
    using ev by (auto simp: count_defs fun_eq_iff isTerminal_def)
  have "starts (s_history ?t) = (starts (s_history s))(run_name (s_runs s) := Suc (starts (s_history s) (run_name (s_runs s))))"
    "ends_of (s_history ?t) = ends_of (s_history s)"
    using ev unfolding t by (auto simp: starts_def ends_of_def isTerminal_def fun_eq_iff)
  then have "books True True ?t" if "books False True s" "s_runs s \<noteq> 0"
    using that t(1,4) by (auto simp: books_def over_def)
  moreover have "mark_ok ?t" if "starting base s" "base + s_tick s < 2 ^ 64"
    using that t(1,2) by (cases "marks s") (auto simp: starting_def mark_ok_def note_event_def note1 over_def)
  ultimately show ?thesis using assms(1) t(1,5) by (auto simp: starting_def ledger_def)
qed

lemma startRun_ledger:
  assumes "starting base s" "startRun w (run_name (s_runs s)) prompt s = (Inr u, t)"
  shows "ledger base t"
proof -
  let ?rid = "run_name (s_runs s)"
  from assms(2) obtain s1 where s1: "appendPayload w ?rid (UserMessagePayload prompt) s = (Inr (), s1)" and
    r1: "seq (if s_docs s1 \<noteq> [] then appendPayload w ?rid (TranscriptPayload (s_docs s1)) s1 else (Inr (), s1)) (\<lambda>_ s.
     seq (emit w ?rid (RunStartedPayload prompt) s) (\<lambda>_ s.
       (Inr (), s\<lparr>s_cancelled := False, s_state := StateRunning, s_run := Some (?rid, prompt, AtTop)\<rparr>))) = (Inr u, t)"
    by (auto simp: startRun_def elim: seq_cases)
  from append_starting [OF assms(1), of "UserMessagePayload prompt" w ?rid] s1 have
    a1: "starting base s1" "s_runs s1 = s_runs s" by simp_all
  from r1 obtain s2 where s2: "(if s_docs s1 \<noteq> [] then appendPayload w ?rid (TranscriptPayload (s_docs s1)) s1 else (Inr (), s1)) = (Inr (), s2)" and
    r2: "seq (emit w ?rid (RunStartedPayload prompt) s2) (\<lambda>_ s.
       (Inr (), s\<lparr>s_cancelled := False, s_state := StateRunning, s_run := Some (?rid, prompt, AtTop)\<rparr>)) = (Inr u, t)"
    by (auto elim: seq_cases)
  from append_starting [OF a1(1), of "TranscriptPayload (s_docs s1)" w ?rid] s2 a1 have
    a2: "starting base s2" "s_runs s2 = s_runs s" by (auto simp: TranscriptPayload_def split: if_splits)
  from r2 obtain s3 where "emit w ?rid (RunStartedPayload prompt) s2 = (Inr (), s3)"
    "t = s3\<lparr>s_cancelled := False, s_state := StateRunning, s_run := Some (?rid, prompt, AtTop)\<rparr>" by (auto elim: seq_cases)
  with emit_starting [OF a2(1), of w prompt "()" s3] a2(2) show ?thesis by simp
qed

lemma starting_half: "starting base s \<Longrightarrow> tally t = tally s \<Longrightarrow> s_tick s \<le> s_tick t \<Longrightarrow> base + s_tick t < 2 ^ 64 \<Longrightarrow> half_books t"
  using half_tally [of t s] books_half by (auto simp: starting_def)

lemma emit_failed:
  assumes "emit w rid p s = (Inl e, t)"
  shows "tally t = tally s" "s_tick s \<le> s_tick t"
proof -
  from assms have "persistEvent w rid p s = (Inl e, t)" by (auto simp: emit_def elim: seq_cases)
  with failed_tally(1) [of w rid p s] same_coreD [OF core_frames(3) [of s w rid p]]
  show "tally t = tally s" "s_tick s \<le> s_tick t" by simp_all
qed

lemma startRun_failed:
  assumes "starting base s" "startRun w (run_name (s_runs s)) prompt s = (Inl e, t)" "base + s_tick t < 2 ^ 64"
  shows "half_books t"
proof -
  let ?rid = "run_name (s_runs s)"
  let ?docs = "\<lambda>v. if s_docs v \<noteq> [] then appendPayload w ?rid (TranscriptPayload (s_docs v)) v else (Inr (), v)"
  have kept: "starting base (snd (appendPayload w ?rid (UserMessagePayload prompt) s))"
    "starting base v \<Longrightarrow> starting base (snd (?docs v))" for v
    using append_starting assms(1) by (auto simp: TranscriptPayload_def)
  from assms(2) show ?thesis
    unfolding startRun_def
  proof (cases rule: seq_cases)
    case (1 e v)
    with kept(1) starting_half [of base v t] assms(3) show ?thesis by simp
  next
    case (2 a v)
    with kept(1) have v: "starting base v" by simp
    from 2(2) show ?thesis
    proof (cases rule: seq_cases)
      case (1 e u)
      with kept(2) [OF v] starting_half [of base u t] assms(3) show ?thesis by simp
    next
      case (2 b u)
      with kept(2) [OF v] have u: "starting base u" by simp
      from 2(2) emit_failed [of w ?rid "RunStartedPayload prompt" u e t] starting_half [OF u _ _ assms(3)]
      show ?thesis by (auto elim: seq_cases)
    qed
  qed
qed

subsection \<open>The close\<close>

definition closing :: "nat \<Rightarrow> session \<Rightarrow> bool" where
  "closing base s \<longleftrightarrow> (base + s_tick s < 2 ^ 64 \<longrightarrow> books True False s \<and> unat (s_runs s) \<le> base + s_tick s \<and>
     (\<forall>m. marks s = Some m \<longrightarrow> mk_next m = s_runs s \<and> mk_active m = None \<and> mk_closed m \<and> mk_closes m = 0 \<and>
       (\<forall>n. mk_starts m (run_name n) = over (s_runs s) False n \<and> mk_ends m (run_name n) = over (s_runs s) False n)))"

lemma closeDurable_closing:
  assumes "ledger base s" "s_state s = StateIdle" "closeDurable w s = (Inr u, t)"
  shows "closing base t"
proof -
  have core: "same_core s t" using core_frames(7) [of s w] assms(3) by simp
  have "tally t = tally s" "marks t = map_option (mk_closed_update (\<lambda>_. True)) (marks s)" using assms(3)
    by (auto simp: closeDurable_def on_store_pair Close_def persist_disk(1) Let_def tally_def marks_def store_marks_def
        split: option.splits if_splits sum.splits)
  note t = this(2) tally_runs [OF this(1)] books_tally [OF this(1)] same_coreD(8) [OF core]
  from assms(1,2) t(4) show ?thesis unfolding closing_def ledger_def t mark_ok_def by auto
qed

lemma close_event_ledger:
  assumes "closing base s" "emit w [] SessionClosedPayload (s\<lparr>s_state := StateClosed\<rparr>) = (Inr u, t)"
  shows "ledger base t"
proof -
  let ?s = "s\<lparr>s_state := StateClosed\<rparr>"
  from assms(2) obtain ev v where v: "persistEvent w [] SessionClosedPayload ?s = (Inr ev, v)" "t = publishEvent ev v"
    by (auto simp: emit_def elim: seq_cases)
  have ev: "ev_kind ev = KindSessionClosed" using persistEvent_ok [OF v(1)] by (auto dest: ev_new_fields)
  have core: "same_core ?s v" using core_frames(3) [of ?s w "[]" SessionClosedPayload] v(1) by simp
  have "s_runs v = s_runs s" "s_records v = s_records s" using v(1)
    by (auto simp: persistEvent_def on_store_pair split: sum.splits option.splits)
  with core v(2) have t: "s_runs t = s_runs s" "s_records t = s_records s" "s_history t = s_history s @ [ev]" "s_state t = StateClosed"
    "s_tick s \<le> s_tick t" "marks t = marks v" by (simp_all add: same_core_def publishEvent_def marks_def)
  have "starts (s_history t) = starts (s_history s)" "ends_of (s_history t) = ends_of (s_history s)"
    using ev by (auto simp: t starts_def ends_of_def isTerminal_def fun_eq_iff)
  then have "books True False t = books True False s" by (simp add: books_def t)
  moreover have "marks ?s = marks s" by (simp add: marks_def)
  moreover have "close_events [ev] = 1" "starts [ev] = (\<lambda>_. 0)" "ends_of [ev] = (\<lambda>_. 0)"
    using ev by (auto simp: count_defs isTerminal_def fun_eq_iff)
  ultimately show ?thesis using assms(1) event_marks(1) [OF v(1)] t(1,4,5,6)
    by (cases "marks s") (auto simp: closing_def ledger_def mark_ok_def note_event_def)
qed

lemma closing_failed:
  assumes "closing base s" "emit w [] SessionClosedPayload (s\<lparr>s_state := StateClosed\<rparr>) = (Inl e, t)" "base + s_tick t < 2 ^ 64"
  shows "half_books t"
proof -
  from emit_failed [OF assms(2)] have "tally t = tally s" "s_tick s \<le> s_tick t" by (simp_all add: tally_def)
  with assms(1,3) half_tally [of t s] books_half show ?thesis by (auto simp: closing_def)
qed

subsection \<open>The commands\<close>

lemma ledger_op:
  "ledger base s \<Longrightarrow> still s (snd p) \<Longrightarrow> same_core s (snd p) \<Longrightarrow> ledger base (snd p) \<and> s_state (snd p) = s_state s"
  using ledger_still [of base s "snd p"] by (auto simp: same_core_def)

lemma emit_ledger:
  assumes "ledger base s" "passing p"
  shows "ledger base (snd (emit w rid p s)) \<and> s_state (snd (emit w rid p s)) = s_state s"
proof -
  have "s_run (snd (emit w rid p s)) = s_run s" using core_frames(3) [of s w rid p]
    by (cases "persistEvent w rid p s"; cases "fst (persistEvent w rid p s)") (auto simp: emit_def publishEvent_def same_core_def)
  with ledger_still [OF assms(1) emit_still [OF assms(2)]] grown_tick [OF growth.emit [OF grown_refl]]
  show ?thesis by simp
qed

lemma or_fault_half:
  assumes "\<And>a t. p = (Inr a, t) \<Longrightarrow> ledger base t"
    and "\<And>e t. p = (Inl e, t) \<Longrightarrow> base + s_tick t < 2 ^ 64 \<Longrightarrow> half_books t"
  shows "ledger base (snd (or_fault p))"
  using assms by (cases p; cases "fst p") (auto simp: or_fault_def intro: ledger_fault)

lemma or_fault_ledger: "ledger base (snd p) \<Longrightarrow> ledger base (snd (or_fault p))"
  by (rule or_fault_half) (auto intro: ledger_half)

abbreviation idle_ledger :: "nat \<Rightarrow> session \<Rightarrow> bool" where
  "idle_ledger base s \<equiv> ledger base s \<and> s_state s = StateIdle"

lemma record_ledger: "ledger base s \<Longrightarrow> ledger base (snd (recordCommand w c s)) \<and> s_state (snd (recordCommand w c s)) = s_state s"
  by (rule ledger_op [OF _ manifest_still(2) core_frames(5)])

lemma submit_ledger:
  assumes "ledger base s" "s_state s = StateIdle"
  shows "ledger base (snd (applySubmit w cmd s))"
proof -
  have warn: "ledger base (snd (seq (recordCommand w c s) (\<lambda>_ s.
      seq (or_fault (emit w [] (WarningPayload x) s)) (\<lambda>_ s. (Inl SensitivePrompt, s)))))" for c x
  proof (rule seqE [where P = "ledger base"])
    fix a t assume "ledger base t"
    then have "ledger base (snd (emit w [] (WarningPayload x) t))" using emit_ledger by simp
    then have "ledger base (snd (or_fault (emit w [] (WarningPayload x) t)))" by (rule or_fault_ledger)
    then show "ledger base (snd (seq (or_fault (emit w [] (WarningPayload x) t)) (\<lambda>_ s. (Inl SensitivePrompt, s))))"
      by (rule seqE) simp
  qed (use record_ledger assms in simp)
  have run: "ledger base (snd (seq (refreshDocs w s) (\<lambda>_ s. (case beginRun w c s of
       (Inl e, s') \<Rightarrow> (Inl e, if e = DuplicateCommand \<or> e = SessionClosed then s' else faultSession e s')
     | (Inr rid, s') \<Rightarrow> or_fault (startRun w rid prompt s')))))" for c prompt
  proof (rule seq_rule [where I = "\<lambda>t. ledger base t \<and> s_state t = StateIdle"], goal_cases)
    case 1
    show ?case using ledger_op [OF assms(1) still_fields(7) core_frames(10)] assms(2) by simp
  next
    case (3 a t)
    then have t: "ledger base t" "s_state t = StateIdle" by auto
    obtain q v where b: "beginRun w c t = (q, v)" by fastforce
    show ?case
    proof (cases q)
      case (Inl e)
      have "ledger base v" if "e = DuplicateCommand \<or> e = SessionClosed"
        using beginRun_rejected [OF b [unfolded Inl] that] ledger_still [OF t(1)] by blast
      moreover have "ledger base (faultSession e v)"
        using ledger_half [OF t(1)] beginRun_failed [OF b [unfolded Inl]] half_tally [of v t] by (intro ledger_fault) simp
      ultimately show ?thesis using b Inl by simp
    next
      case (Inr rid)
      from beginRun_starting [OF t b [unfolded Inr]] have v: "starting base v" "rid = run_name (s_runs v)" by auto
      have "ledger base (snd (or_fault (startRun w rid prompt v)))"
        using startRun_ledger [OF v(1)] startRun_failed [OF v(1)] v(2) by (intro or_fault_half) auto
      with b Inr show ?thesis by simp
    qed
  qed simp
  from assms warn run show ?thesis by (auto simp: applySubmit_def split: sum.split)
qed

lemma close_ledger:
  assumes "ledger base s" "s_state s \<noteq> StateFaulted"
  shows "ledger base (snd (applyClose w cmd s))"
proof (cases "s_state s = StateRunning")
  case True
  with assms show ?thesis by (simp add: applyClose_def)
next
  case nr: False
  show ?thesis unfolding applyClose_def if_not_P [OF nr]
  proof (rule seq_rule [where I = "\<lambda>t. ledger base t \<and> s_state t = s_state s"], goal_cases)
    case 1
    show ?case using record_ledger [OF assms(1)] by simp
  next
    case (3 a t)
    show ?case
    proof (cases "s_state t = StateClosed")
      case False
      with 3 nr assms(2) have t: "ledger base t" "s_state t = StateIdle" by (cases "s_state s"; simp)+
      let ?p = "appendPayload w [] ClosedPayload t"
      have p: "ledger base (snd ?p) \<and> s_state (snd ?p) = StateIdle"
        using ledger_op [OF t(1) append_still core_frames(1)] t(2) by simp
      have "ledger base (snd (seq (or_fault ?p) (\<lambda>_ s. seq (or_fault (closeDurable w s)) (\<lambda>_ s.
          or_fault (emit w [] SessionClosedPayload (s\<lparr>s_state := StateClosed\<rparr>))))))"
      proof (cases ?p)
        case (Pair q u)
        show ?thesis
        proof (cases q)
          case (Inr x)
          with Pair p have u: "ledger base u" "s_state u = StateIdle" by auto
          show ?thesis
          proof (cases "closeDurable w u")
            case c: (Pair r v)
            show ?thesis
            proof (cases r)
              case r: (Inr y)
              note v = closeDurable_closing [OF u c [unfolded r]]
              have "ledger base (snd (or_fault (emit w [] SessionClosedPayload (v\<lparr>s_state := StateClosed\<rparr>))))"
                using close_event_ledger [OF v] closing_failed [OF v] by (intro or_fault_half) auto
              with Pair Inr c r show ?thesis by (simp add: or_fault_def)
            next
              case (Inl e)
              have "half_books v" if "base + s_tick v < 2 ^ 64"
                using ledger_half [OF u(1)] that half_tally [of v u] failed_tally(3) [of w u]
                  same_coreD [OF core_frames(7) [of u w]] c by simp
              then have "ledger base (faultSession e v)" by (rule ledger_fault)
              with Pair Inr c Inl show ?thesis by (simp add: or_fault_def)
            qed
          qed
        qed (use Pair p in \<open>simp add: or_fault_def ledger_faulted\<close>)
      qed
      with False show ?thesis by simp
    qed (use 3 in simp)
  qed simp
qed

lemma Apply_ledger:
  assumes "ledger base s"
  shows "ledger base (snd (Apply w gone cmd s))"
proof -
  have submit: "ledger base (snd (applySubmit w cmd s))" if "s_state s \<noteq> StateFaulted"
    using that submit_ledger [OF assms] assms by (cases "s_state s") (simp_all add: applySubmit_def)
  have cancel: "ledger base (snd (applyCancel w cmd s))"
    unfolding applyCancel_def
  proof (rule seqE [where P = "ledger base"])
    show "ledger base (snd (recordCommand w (cmd_id cmd) s))" using record_ledger [OF assms] by simp
    fix a t assume "ledger base t"
    then have "ledger base (t\<lparr>s_cancelled := True\<rparr>)" by (rule ledger_still) simp_all
    with \<open>ledger base t\<close> show "ledger base (snd (Inr (), if s_state t = StateRunning then t\<lparr>s_cancelled := True\<rparr> else t))" by simp
  qed
  have resume: "ledger base (snd (seq (recordCommand w (cmd_id cmd) s) (\<lambda>_ s. or_fault (emit w [] SessionResumedPayload s))))"
  proof (rule seqE [where P = "ledger base"])
    show "ledger base (snd (recordCommand w (cmd_id cmd) s))" using record_ledger [OF assms] by simp
    fix a t assume "ledger base t"
    then have "ledger base (snd (emit w [] SessionResumedPayload t))" using emit_ledger by simp
    then show "ledger base (snd (or_fault (emit w [] SessionResumedPayload t)))" by (rule or_fault_ledger)
  qed
  from assms submit cancel resume close_ledger [OF assms] show ?thesis
    by (simp add: Apply_def applyResume_def split: sum.split cmd_kind.split)
qed

lemma other_step_ledger: "other_step w s t \<Longrightarrow> ledger base s \<Longrightarrow> ledger base t"
proof (induction rule: other_step.induct)
  case (command gone cmd)
  then show ?case by (rule Apply_ledger)
qed (erule ledger_still; simp add: still_def tally_def marks_def Observe_def unsubscribe_def shutdownCancel_def shutdownClose_def)+

lemma reach_ledger:
  assumes "reach w s t" "ledger base s" "live s"
  shows "ledger base t"
  using assms(1)
proof (induction rule: reach.induct)
  case (step s1 s2)
  from step.hyps(2) show ?case
  proof cases
    case run
    have tick: "s_tick s1 \<le> s_tick s2" using growth.reach_inv [OF reach.step [OF reach.start step.hyps(2)] grown_refl] by (rule grown_tick)
    show ?thesis
    proof (cases "base + s_tick s1 < 2 ^ 64")
      case True
      from run_step_ledger [OF step.IH reach_live [OF step.hyps(1) assms(3)] this] run show ?thesis by simp
    qed (use tick in \<open>simp add: ledger_def\<close>)
  qed (use step.IH other_step_ledger in blast)
qed (rule assms(2))

subsection \<open>Properties\<close>

lemma NewSession_ledger:
  assumes "NewSession w i docs durable = (Inr (), s0)" "\<And>st. durable = Some st \<Longrightarrow> created st"
  shows "ledger 0 s0"
proof -
  note start = NewSession_starts [OF assms]
  have next0: "m_next_run (st_manifest st) = 0" if "durable = Some st" for st
    using assms(2) [OF that] Create_fresh(2) by (auto simp: created_def)
  have runs: "s_runs s0 = 0"
  proof (cases durable)
    case None
    with assms(1) show ?thesis by (auto simp: NewSession_def fresh_session_def split: if_splits)
  next
    case (Some st)
    with assms(1) start(8) [of st] next0 show ?thesis
      by (auto simp: NewSession_def load_session_def fresh_session_def close_records_def close_events_def Let_def split: if_splits)
  qed
  have "starts [] = (\<lambda>_. 0)" "outs [] = (\<lambda>_. 0)" "ends_of [] = (\<lambda>_. 0)" by (simp_all add: count_defs fun_eq_iff)
  then have "books True False s0" using start(3,4) runs by (simp add: books_def over_def)
  moreover have "mark_ok s0" using start next0 runs
    by (cases durable) (auto simp: mark_ok_def marks_def store_marks_def count_defs over_def)
  ultimately show ?thesis using start(1) runs by (simp add: ledger_def)
qed


text \<open>A small session with a run.\<close>

definition sample_started :: session where
  "sample_started = snd (Apply sample_world False (NewSubmit ''c1'' ''hi'') (fresh_session ''s'' []))"

lemma sample_submit: "cmd_validate (NewSubmit ''c1'' ''hi'') = Inr ()" "DecodeSubmit (NewSubmit ''c1'' ''hi'') = Inr ''hi''"
    "ValidatePrompt ''hi'' = Inr ()" "cmd_id (NewSubmit ''c1'' ''hi'') = ''c1''" "cmd_kind (NewSubmit ''c1'' ''hi'') = KindSubmit"
    "cmd_session (NewSubmit ''c1'' ''hi'') = []"
proof -
  show d: "DecodeSubmit (NewSubmit ''c1'' ''hi'') = Inr ''hi''" by (simp add: DecodeSubmit_New)
  show k: "cmd_id (NewSubmit ''c1'' ''hi'') = ''c1''" "cmd_kind (NewSubmit ''c1'' ''hi'') = KindSubmit"
    "cmd_session (NewSubmit ''c1'' ''hi'') = []" by (simp_all add: cmd_new_defs)
  show "cmd_validate (NewSubmit ''c1'' ''hi'') = Inr ()" by (simp add: cmd_validate_def d k)
  have "\<not> Contains NewDetector ''hi''" by code_simp
  then show "ValidatePrompt ''hi'' = Inr ()" by (simp add: ValidatePrompt_def)
qed

lemma sample_user: "\<exists>r. New rid t KindUserMessage (UserMessagePayload ''hi'') = Inr r" if "rid \<noteq> []" "t \<noteq> 0"
  using New_ok [of "UserMessagePayload ''hi''" _ t rid] that
  by (auto simp: marshal_payload_def run_id_ok_def)

lemma sample_start_event: "\<exists>e. ev_new ''s'' rid 1 t KindRunStarted (RunStartedPayload ''hi'') = Inr e" if "rid \<noteq> []" "t \<noteq> 0"
  using ev_new_ok [of "RunStartedPayload ''hi''" "''s''" rid 1 t] that by (auto simp: envelope_ok_def runFact_def)

lemma sample_started: "s_state sample_started = StateRunning" "s_runs sample_started = 1" "s_tick sample_started = 3"
proof -
  obtain r where r: "New (run_name 1) 2 KindUserMessage (UserMessagePayload ''hi'') = Inr r" using sample_user [of "run_name 1" 2] by auto
  obtain e where e: "ev_new ''s'' (run_name 1) 1 3 KindRunStarted (RunStartedPayload ''hi'') = Inr e"
    using sample_start_event [of "run_name 1" 3] by auto
  from r e show "s_state sample_started = StateRunning" "s_runs sample_started = 1" "s_tick sample_started = 3"
    by (simp_all add: sample_started_def Apply_def sample_submit applySubmit_def refreshDocs_def sample_world_def beginRun_def
        fresh_session_def startRun_def appendPayload_def add_records_def emit_def persistEvent_def tick_def now_def
        publishEvent_def or_fault_def)
qed

lemma sample_reach: "reach sample_world (fresh_session ''s'' []) sample_started"
  unfolding sample_started_def by (intro reach.step [OF reach.start] sess_step.other other_step.command)


end
