(* ===== verification/Recovery.thy ===== *)
theory Recovery
  imports Runledger
begin

text \<open>
  From one process to the next. What a durable session leaves in its directory at any moment
  between two moves is a store object that opens exactly, and opening a session on it (with
  the reconciliation of an interrupted run) gives a session at rest with a complete
  transcript, ready for the next life.
\<close>

subsection \<open>The directory\<close>

text \<open>\<open>durable_ok\<close> without the conditions between records, which the session is responsible for.\<close>

definition raw_ok :: "stdlib \<Rightarrow> clock_text \<Rightarrow> store \<Rightarrow> bool" where
  "raw_ok lib ct st \<longleftrightarrow> d_manifest (st_disk st) = GoodManifest (st_manifest st) \<and>
     manifest_ok lib (st_manifest st) \<and> counted st \<and>
     readJSONLines (record_read ct) (d_transcript (st_disk st)) = Some (st_transcript st) \<and>
     readJSONLines (event_read ct) (d_events (st_disk st)) = Some (st_events st) \<and>
     events_ok (m_session (st_manifest st)) (st_events st)"

lemma durable_raw: "durable_ok lib ct st \<longleftrightarrow> raw_ok lib ct st \<and> valid_log (st_transcript st)"
  by (auto simp: durable_ok_def raw_ok_def logs_ok_def)

text \<open>Every line of the two logs can be read back.\<close>

definition readable :: "clock_text \<Rightarrow> store \<Rightarrow> bool" where
  "readable ct st \<longleftrightarrow> (\<forall>r \<in> set (st_transcript st). record_ok ct r) \<and> (\<forall>e \<in> set (st_events st). event_ok ct e)"

lemma append_log_fails: "append_log enc as IoOk f = (False, f') \<Longrightarrow> f' = f"
  by (auto simp: append_log_def Let_def split: if_splits option.splits)

lemma raw_append:
  assumes "raw_ok lib ct st" "readable ct (snd (AppendTranscript ct rs IoOk st))"
  shows "raw_ok lib ct (snd (AppendTranscript ct rs IoOk st))"
proof (cases "assign_seq (m_transcript_seq (st_manifest st)) rs")
  case (Inr as)
  obtain b f' where f': "append_log (record_line ct) as IoOk (d_transcript (st_disk st)) = (b, f')" by fastforce
  show ?thesis
  proof (cases b)
    case True
    from assms(2) Inr f' True have "\<forall>a \<in> set as. record_ok ct a"
      by (auto simp: readable_def AppendTranscript_def persist_ok Let_def)
    from records.append_log_read(1) [OF _ this f' True] assms(1)
    have "readJSONLines (record_read ct) f' = Some (st_transcript st @ as)" by (simp add: raw_ok_def)
    moreover have "as \<noteq> [] \<Longrightarrow> r_time (last as) \<noteq> 0" using assign_seq_props [OF Inr] by simp
    ultimately show ?thesis using assms(1) Inr f' True
      by (auto simp: AppendTranscript_def persist_ok raw_ok_def manifest_ok_def counted_def Let_def)
  next
    case False
    with f' have "f' = d_transcript (st_disk st)" by (auto dest: append_log_fails)
    with assms(1) Inr f' False show ?thesis by (simp add: AppendTranscript_def)
  qed
qed (use assms in \<open>simp add: AppendTranscript_def\<close>)

lemma raw_event:
  assumes "raw_ok lib ct st" "readable ct (snd (AppendEvent ct e IoOk st))" "ev_validate e = Inr ()"
  shows "raw_ok lib ct (snd (AppendEvent ct e IoOk st))"
proof (cases "ev_session e \<noteq> m_session (st_manifest st) \<or> ev_cursor e \<noteq> m_event_cursor (st_manifest st) + 1")
  case False
  obtain b f' where f': "append_log (event_line ct) [e] IoOk (d_events (st_disk st)) = (b, f')" by fastforce
  show ?thesis
  proof (cases b)
    case True
    from assms(2) False f' True have "\<forall>a \<in> set [e]. event_ok ct a"
      by (auto simp: readable_def AppendEvent_def persist_ok Let_def)
    from events.append_log_read(1) [OF _ this f' True] assms(1)
    have "readJSONLines (event_read ct) f' = Some (st_events st @ [e])" by (simp add: raw_ok_def)
    moreover have "ev_time e \<noteq> 0" using assms(3) by (simp add: ev_validate_iff envelope_ok_def)
    ultimately show ?thesis using assms False f' True events_ok_snoc
      by (auto simp: AppendEvent_def persist_ok raw_ok_def manifest_ok_def counted_def Let_def)
  next
    case b: False
    with f' have "f' = d_events (st_disk st)" by (auto dest: append_log_fails)
    with assms(1) False f' b show ?thesis by (simp add: AppendEvent_def Let_def)
  qed
qed (use assms in \<open>simp add: AppendEvent_def\<close>)

lemma raw_replaces:
  assumes "raw_ok lib ct st" "replaces lib IoOk st t"
  shows "raw_ok lib ct t"
  using assms by (auto simp: replaces_def raw_ok_def same_counts_def counted_def write_manifest_def)

lemma raw_manifest_op:
  assumes "raw_ok lib ct st" "op_ok ct op st" "\<And>rs. op \<noteq> OpAppend rs" "\<And>e. op \<noteq> OpEvent e"
  shows "raw_ok lib ct (snd (run_op ct op IoOk st))"
  using raw_replaces [OF assms(1) manifest_op_shape [OF assms(2) _ assms(3,4)]] assms(1) by (simp add: raw_ok_def)

subsection \<open>The directory of a session\<close>

definition timely :: "world \<Rightarrow> bool" where "timely w \<longleftrightarrow> (\<forall>n. w_now w n \<noteq> 0)"

definition shelved :: "stdlib \<Rightarrow> world \<Rightarrow> session \<Rightarrow> bool" where
  "shelved lib w s \<longleftrightarrow> (timely w \<and> calm w s \<longrightarrow> (\<forall>st. s_durable s = Some st \<longrightarrow> m_session (st_manifest st) = s_id s \<and>
     (readable (w_clock w) st \<longrightarrow> raw_ok lib (w_clock w) st)))"

text \<open>A step of the durable session, under the world's answer for this write.\<close>

lemma shelved_store:
  assumes "shelved lib w s" "s_durable s = Some st" "s_durable t = Some st'" "s_tick s < s_tick t" "s_id t = s_id s"
    and "w_io w (s_tick s) = IoOk \<Longrightarrow> timely w \<Longrightarrow> m_session (st_manifest st') = m_session (st_manifest st) \<and>
      (readable (w_clock w) st' \<longrightarrow> readable (w_clock w) st) \<and>
      (raw_ok lib (w_clock w) st \<longrightarrow> readable (w_clock w) st' \<longrightarrow> raw_ok lib (w_clock w) st')"
  shows "shelved lib w t"
proof -
  have "w_io w (s_tick s) = IoOk" if "calm w t" using that assms(4) by (simp add: calm_def)
  moreover have "calm w s" if "calm w t" using calm_earlier [OF that] assms(4) by simp
  ultimately show ?thesis using assms by (auto simp: shelved_def)
qed

lemma readable_ops:
  "readable ct (snd (AppendTranscript ct rs io st)) \<Longrightarrow> readable ct st"
  "readable ct (snd (AppendEvent ct e io st)) \<Longrightarrow> readable ct st"
  by (auto simp: readable_def AppendTranscript_def AppendEvent_def Let_def persist_disk(1)
      split: sum.splits prod.splits if_splits)

lemma session_ops [simp]:
  "m_session (st_manifest (snd (AppendTranscript ct rs io st))) = m_session (st_manifest st)"
  "m_session (st_manifest (snd (AppendEvent ct e io st))) = m_session (st_manifest st)"
  "m_session (st_manifest (snd (BeginRun c t io st))) = m_session (st_manifest st)"
  "m_session (st_manifest (snd (RecordCommand c t io st))) = m_session (st_manifest st)"
  "m_session (st_manifest (snd (FinishRun r t io st))) = m_session (st_manifest st)"
  "m_session (st_manifest (snd (Close t io st))) = m_session (st_manifest st)"
  "m_session (st_manifest (snd (ReserveBudget r k n io st))) = m_session (st_manifest st)"
  by (auto simp: AppendTranscript_def AppendEvent_def BeginRun_def RecordCommand_def FinishRun_def Close_def
      ReserveBudget_def Let_def persist_disk(1) split: sum.split prod.split option.split)

lemma logs_manifest_ops [simp]:
  "readable ct (snd (BeginRun c t io st)) = readable ct st" "readable ct (snd (RecordCommand c t io st)) = readable ct st"
  "readable ct (snd (FinishRun r t io st)) = readable ct st" "readable ct (snd (Close t io st)) = readable ct st"
  "readable ct (snd (ReserveBudget r k n io st)) = readable ct st"
  by (auto simp: readable_def BeginRun_def RecordCommand_def FinishRun_def Close_def
      ReserveBudget_def Let_def persist_disk(1) split: sum.split prod.split option.split)

lemma raw_manifest_ops:
  assumes "raw_ok lib ct st"
  shows "t \<noteq> 0 \<Longrightarrow> raw_ok lib ct (snd (BeginRun c t IoOk st))"
    "t \<noteq> 0 \<Longrightarrow> raw_ok lib ct (snd (RecordCommand c t IoOk st))" "t \<noteq> 0 \<Longrightarrow> raw_ok lib ct (snd (FinishRun r t IoOk st))"
    "t \<noteq> 0 \<Longrightarrow> raw_ok lib ct (snd (Close t IoOk st))" "raw_ok lib ct (snd (ReserveBudget r k n IoOk st))"
  using raw_manifest_op [OF assms, of "OpBegin c t"] raw_manifest_op [OF assms, of "OpRecord c t"]
    raw_manifest_op [OF assms, of "OpFinish r t"] raw_manifest_op [OF assms, of "OpClose t"]
    raw_manifest_op [OF assms, of "OpReserve r k n"] by simp_all

lemma shelved_aside: "shelved lib w s \<Longrightarrow> s_durable t = s_durable s \<Longrightarrow> s_id t = s_id s \<Longrightarrow> s_tick s \<le> s_tick t \<Longrightarrow> shelved lib w t"
  using calm_earlier [of w t s] by (auto simp: shelved_def)

lemma shelved_records:
  assumes "shelved lib w s" "t = (snd (add_records w rs s))\<lparr>s_tick := n\<rparr>" "s_tick s < n"
  shows "shelved lib w t"
proof (cases "s_durable s")
  case None
  with assms show ?thesis by (simp add: shelved_def add_records_def)
next
  case (Some st)
  show ?thesis
  proof (rule shelved_store [OF assms(1) Some, of _ "snd (AppendTranscript (w_clock w) rs (io_now w s) st)"], goal_cases)
    case 4
    then show ?case using readable_ops(1) [of "w_clock w" rs IoOk st] raw_append [of lib "w_clock w" st rs]
      by (simp add: io_now_def)
  qed (use assms Some in \<open>auto simp: add_records_def on_store_pair split: sum.split\<close>)
qed

lemma shelved_append: "shelved lib w s \<Longrightarrow> shelved lib w (snd (appendPayload w rid p s))"
proof (cases "New rid (now w s) (kind_of p) p")
  case (Inr r)
  assume s: "shelved lib w s"
  have "s_tick (snd (add_records w [r] s)) = s_tick s"
    by (auto simp: add_records_def on_store_pair split: option.split sum.split)
  with Inr show ?thesis
    by (intro shelved_records [OF s, where rs = "[r]" and n = "Suc (s_tick s)"]) (auto simp: appendPayload_def tick_def case_prod_beta)
qed (simp add: appendPayload_def shelved_aside)

lemma shelved_calls: "shelved lib w s \<Longrightarrow> shelved lib w (snd (appendToolCalls w rid cs s))"
proof (cases "call_records w rid (s_tick s) cs")
  case (Inr rs)
  assume s: "shelved lib w s"
  have "s_tick (snd (add_records w rs s)) = s_tick s"
    by (auto simp: add_records_def on_store_pair split: option.split sum.split)
  with Inr show ?thesis
    by (intro shelved_records [OF s, where rs = rs and n = "s_tick s + length cs + 1"]) (auto simp: appendToolCalls_def case_prod_beta)
qed (simp add: appendToolCalls_def shelved_aside)

lemma shelved_event: "shelved lib w s \<Longrightarrow> shelved lib w (snd (persistEvent w rid p s))"
proof -
  assume s: "shelved lib w s"
  show ?thesis
  proof (cases "ev_new (s_id s) rid (s_cursor s + 1) (now w s) (ev_kind_of p) p")
    case (Inl e)
    with s show ?thesis by (simp add: persistEvent_def shelved_aside)
  next
    case ev: (Inr ev)
    show ?thesis
    proof (cases "s_durable s")
      case None
      with s ev show ?thesis by (simp add: persistEvent_def shelved_def)
    next
      case (Some st)
      show ?thesis
      proof (rule shelved_store [OF s Some, of _ "snd (AppendEvent (w_clock w) ev (io_now w s) st)"], goal_cases)
        case 4
        then show ?case using readable_ops(2) [of "w_clock w" ev IoOk st] raw_event [of lib "w_clock w" st ev] ev_new_valid [OF ev]
          by (simp add: io_now_def)
      qed (use ev Some in \<open>auto simp: persistEvent_def on_store_pair split: sum.split\<close>)
    qed
  qed
qed

definition aside_store :: "session \<Rightarrow> session \<Rightarrow> bool" where
  "aside_store s t \<longleftrightarrow> s_durable t = None \<and> s_id t = s_id s"

text \<open>An operation on the manifest: with a durable session it is one store operation at one tick.\<close>

lemma shelved_op:
  assumes "shelved lib w s" "s_durable s = None \<Longrightarrow> aside_store s t"
    and "\<And>st. s_durable s = Some st \<Longrightarrow> s_id t = s_id s \<and> s_tick s < s_tick t \<and> (\<exists>st'. s_durable t = Some st' \<and>
      m_session (st_manifest st') = m_session (st_manifest st) \<and> readable (w_clock w) st' = readable (w_clock w) st \<and>
      (w_io w (s_tick s) = IoOk \<longrightarrow> timely w \<longrightarrow> raw_ok lib (w_clock w) st \<longrightarrow> raw_ok lib (w_clock w) st'))"
  shows "shelved lib w t"
proof (cases "s_durable s")
  case None
  with assms(1,2) show ?thesis by (simp add: aside_store_def shelved_def)
next
  case (Some st)
  from assms(3) [OF this] obtain st' where "s_id t = s_id s" "s_tick s < s_tick t" "s_durable t = Some st'"
    "m_session (st_manifest st') = m_session (st_manifest st)" "readable (w_clock w) st' = readable (w_clock w) st"
    "w_io w (s_tick s) = IoOk \<longrightarrow> timely w \<longrightarrow> raw_ok lib (w_clock w) st \<longrightarrow> raw_ok lib (w_clock w) st'" by blast
  then show ?thesis by (intro shelved_store [OF assms(1) Some]) auto
qed

lemma now_timely: "timely w \<Longrightarrow> now w s \<noteq> 0"
  by (simp add: timely_def now_def)

lemma shelved_reserve: "shelved lib w s \<Longrightarrow> shelved lib w (snd (reserve w rid k n s))"
proof (erule shelved_op, goal_cases)
  case 1
  then show ?case by (auto simp: reserve_def aside_store_def Let_def split: sum.split store_error.split option.split)
next
  case (2 st)
  then show ?case
    by (intro conjI exI [of _ "snd (ReserveBudget rid k n (io_now w s) st)"])
       (auto simp: reserve_def on_store_pair io_now_def Let_def now_timely raw_manifest_ops split: sum.split)
qed

lemma shelved_record: "shelved lib w s \<Longrightarrow> shelved lib w (snd (recordCommand w c s))"
proof (erule shelved_op, goal_cases)
  case 1
  then show ?case by (auto simp: recordCommand_def aside_store_def Let_def split: sum.split store_error.split option.split)
next
  case (2 st)
  then show ?case
    by (intro conjI exI [of _ "snd (RecordCommand c (now w s) (io_now w s) st)"])
       (auto simp: recordCommand_def on_store_pair io_now_def Let_def now_timely raw_manifest_ops split: sum.split)
qed

lemma shelved_begin: "shelved lib w s \<Longrightarrow> shelved lib w (snd (beginRun w c s))"
proof (erule shelved_op, goal_cases)
  case 1
  then show ?case by (auto simp: beginRun_def aside_store_def Let_def split: sum.split store_error.split option.split)
next
  case (2 st)
  then show ?case
    by (intro conjI exI [of _ "snd (BeginRun c (now w s) (io_now w s) st)"])
       (auto simp: beginRun_def on_store_pair io_now_def Let_def now_timely raw_manifest_ops split: sum.split)
qed

lemma shelved_close: "shelved lib w s \<Longrightarrow> shelved lib w (snd (closeDurable w s))"
proof (erule shelved_op, goal_cases)
  case 1
  then show ?case by (auto simp: closeDurable_def aside_store_def Let_def split: sum.split store_error.split option.split)
next
  case (2 st)
  then show ?case
    by (intro conjI exI [of _ "snd (Close (now w s) (io_now w s) st)"])
       (auto simp: closeDurable_def on_store_pair io_now_def Let_def now_timely raw_manifest_ops split: sum.split)
qed

lemma shelved_finish: "shelved lib w s \<Longrightarrow> shelved lib w (snd (finishDurable w rid s))"
proof (erule shelved_op, goal_cases)
  case 1
  then show ?case by (auto simp: finishDurable_def aside_store_def Let_def split: sum.split store_error.split option.split)
next
  case (2 st)
  then show ?case
    by (intro conjI exI [of _ "snd (FinishRun rid (now w s) (io_now w s) st)"])
       (auto simp: finishDurable_def on_store_pair io_now_def Let_def now_timely raw_manifest_ops split: sum.split)
qed

interpretation shelf: session_invariant w "shelved lib w" for w lib
proof unfold_locales
  fix s t assume "shelved lib w s" "aside s t"
  then show "shelved lib w t" by (auto simp: aside_def intro: shelved_aside)
next
  fix s e assume "shelved lib w s"
  then show "shelved lib w (publishEvent e s)" by (rule shelved_aside) (simp_all add: publishEvent_def)
qed (fact shelved_append shelved_calls shelved_event shelved_reserve shelved_record shelved_begin shelved_close shelved_finish)+

subsection \<open>Writes that do not fail\<close>

definition reliable :: "world \<Rightarrow> bool" where
  "reliable w \<longleftrightarrow> timely w \<and> (\<forall>n. w_io w n = IoOk)"

lemma reliable_calm: "reliable w \<Longrightarrow> calm w s"
  by (simp add: reliable_def calm_def)

lemma reliable_now: "reliable w \<Longrightarrow> now w s \<noteq> 0" "reliable w \<Longrightarrow> io_now w s = IoOk"
  by (simp_all add: reliable_def now_timely io_now_def)

lemma record_encodes: "Validate r = Inr () \<Longrightarrow> \<exists>l. record_line ct r = Some l"
  by (auto simp: Validate_iff DecodePayload_def record_line_def record_json_def split: option.splits)

lemma event_encodes: "ev_validate e = Inr () \<Longrightarrow> \<exists>l. event_line ct e = Some l"
  by (auto simp: ev_validate_iff ev_decode_def event_line_def event_json_def split: option.splits)

lemma append_succeeds:
  assumes "reliable w" "New rid (now w s) (kind_of p) p = Inr r"
  shows "fst (appendPayload w rid p s) = Inr ()"
proof -
  from New_valid [OF assms(2)] have v: "Validate (r\<lparr>r_seq := n\<rparr>) = Inr ()" for n by (simp add: Validate_iff)
  have "fst (add_records w [r] s) = Inr ()"
  proof (cases "s_durable s")
    case (Some st)
    from record_encodes [OF v [of "m_transcript_seq (st_manifest st) + 1"], of "w_clock w"] obtain l where
      "record_line (w_clock w) (r\<lparr>r_seq := m_transcript_seq (st_manifest st) + 1\<rparr>) = Some l" by blast
    with Some v reliable_now(2) [OF assms(1)] show ?thesis
      by (simp add: add_records_def on_store_pair AppendTranscript_def append_log_def persist_ok Let_def)
  qed (simp add: add_records_def)
  with assms(2) show ?thesis by (simp add: appendPayload_def case_prod_beta)
qed

lemma event_succeeds:
  assumes "reliable w" "ev_new (s_id s) rid (s_cursor s + 1) (now w s) (ev_kind_of p) p = Inr e"
    and "\<And>st. s_durable s = Some st \<Longrightarrow> m_session (st_manifest st) = s_id s \<and> m_event_cursor (st_manifest st) = s_cursor s"
  shows "\<exists>t. persistEvent w rid p s = (Inr e, t)"
proof (cases "s_durable s")
  case None
  with assms(2) show ?thesis by (simp add: persistEvent_def)
next
  case (Some st)
  from event_encodes [OF ev_new_valid [OF assms(2)], of "w_clock w"] obtain l where "event_line (w_clock w) e = Some l" by blast
  with Some assms(2) assms(3) [OF Some] reliable_now(2) [OF assms(1)] ev_new_fields [OF assms(2)] show ?thesis
    by (auto simp: persistEvent_def on_store_pair AppendEvent_def append_log_def persist_ok Let_def)
qed

lemma event_needs:
  assumes "ev_storable p" "ev_payload_ok p" "ev_kind_of p = k" "runFact k" "rid \<noteq> []" "s_id s \<noteq> []" "s_cursor s + 1 \<noteq> 0" "now w s \<noteq> 0"
  shows "\<exists>e. ev_new (s_id s) rid (s_cursor s + 1) (now w s) (ev_kind_of p) p = Inr e"
  using ev_new_ok [OF assms(1,2), of "s_id s" rid "s_cursor s + 1" "now w s"] assms by (auto simp: envelope_ok_def)

lemma result_new:
  assumes "i \<noteq> []" "t \<noteq> 0" "rid \<noteq> []"
  shows "\<exists>r. New rid t (kind_of (ToolResultPayload i ToolResultInterrupted c)) (ToolResultPayload i ToolResultInterrupted c) = Inr r"
  using New_ok [of "ToolResultPayload i ToolResultInterrupted c" _ t rid] assms
  by (auto simp: marshal_payload_def run_id_ok_def validResultOutcome_def)

lemma interrupted_new:
  assumes "t \<noteq> 0" "rid \<noteq> []"
  shows "\<exists>r. New rid t (kind_of (RunOutcomePayload RunOutcomeInterrupted CauseInterrupted)) (RunOutcomePayload RunOutcomeInterrupted CauseInterrupted) = Inr r"
  using New_ok [of "RunOutcomePayload RunOutcomeInterrupted CauseInterrupted" _ t rid] assms
  by (auto simp: marshal_payload_def run_id_ok_def validFailureCause_def run_outcome_defs CauseInterrupted_def)

subsection \<open>The reconciliation of an interrupted run\<close>

lemma call_ids: "valid_log rs \<Longrightarrow> i \<in> fst ` set (call_facts rs) \<Longrightarrow> i \<noteq> []"
proof (induction rs rule: rev_induct)
  case (snoc r rs)
  from snoc.prems(1) have v: "valid_log rs" "Validate r = Inr ()" by (simp_all add: valid_log_snoc)
  from v(2) have "i \<in> fst ` set (call_facts [r]) \<Longrightarrow> i \<noteq> []"
    by (auto simp: facts_single Validate_iff split: record_kind.splits option.splits tpayload.splits)
  with snoc.IH [OF v(1)] snoc.prems(2) show ?case by auto
qed (simp add: call_facts_def)

lemma complete_calls_ok:
  assumes "reliable w" "logs w owner False (map (\<lambda>c. (call_id c, rid)) cs) s" "rid \<noteq> []"
    and "\<forall>c \<in> set cs. stored_id (call_id c) \<and> call_id c \<noteq> []"
  shows "fst (complete_calls w rid cs s) = Inr () \<and> logs w owner False [] (snd (complete_calls w rid cs s)) \<and>
    still s (snd (complete_calls w rid cs s)) \<and> grown s (snd (complete_calls w rid cs s)) \<and> same_core s (snd (complete_calls w rid cs s))"
  using assms
proof (induction cs arbitrary: s)
  case (Cons c cs)
  let ?p = "ToolResultPayload (call_id c) ToolResultInterrupted ''read-only tool call interrupted by process exit; not repeated automatically''"
  obtain q t where q: "appendPayload w rid ?p s = (q, t)" by fastforce
  from result_new [OF _ reliable_now(1) [OF Cons.prems(1)] Cons.prems(3)] Cons.prems(4) obtain r where
    "New rid (now w s) (kind_of ?p) ?p = Inr r" by force
  from append_succeeds [OF Cons.prems(1) this] q have ok: "q = Inr ()" by simp
  have "to_valid (call_id c) = call_id c" using Cons.prems(4) by (simp add: stored_id_def)
  with logs_result [of w owner "call_id c" rid _ s ToolResultInterrupted, OF _ q] Cons.prems(2) ok
  have t: "logs w owner False (map (\<lambda>c. (call_id c, rid)) cs) t" by simp
  have s: "still s t" "grown s t" "same_core s t"
    using append_still [of ?p s w rid] grown_ops(1) [of s w rid ?p] core_frames(1) [of s w rid ?p] q by simp_all
  from Cons.IH [OF Cons.prems(1) t Cons.prems(3)] Cons.prems(4) q ok s show ?case
    by (auto intro: still_trans grown_trans same_core_trans)
qed simp

subsection \<open>What a session leaves behind\<close>

text \<open>
  The state of the durable store between two moves: the logs are readable and valid, the open
  calls belong to the active run, the close is recorded everywhere or nowhere, and every run
  that is over has exactly one start, one end and one outcome.
\<close>

definition sound :: "stdlib \<Rightarrow> clock_text \<Rightarrow> store \<Rightarrow> bool" where
  "sound lib ct st \<longleftrightarrow> raw_ok lib ct st \<and> valid_log (st_transcript st) \<and>
     (\<forall>i \<in> fst ` set (call_facts (st_transcript st)). stored_id i) \<and>
     (let m = st_manifest st; r = m_next_run m; active = busy (m_active m) in
       closed_log (st_transcript st) = m_closed m \<and> close_events (st_events st) = (if m_closed m then 1 else 0) \<and>
       (case m_active m of None \<Rightarrow> open_facts (st_transcript st) = []
        | Some (rid, _) \<Rightarrow> rid = run_name r \<and> r \<noteq> 0 \<and> \<not> m_closed m \<and> (\<forall>f \<in> set (open_facts (st_transcript st)). snd f = rid)) \<and>
       (\<forall>n. starts (st_events st) (run_name n) = over r False n \<and> outs (st_transcript st) (run_name n) = over r active n \<and>
         ends_of (st_events st) (run_name n) = over r active n))"

text \<open>Idle, running and closed sessions leave sound stores.\<close>

lemma session_sound:
  assumes "lawful w owner s" "ledger base s" "shelved lib w s" "calm w s" "timely w" "s_state s \<noteq> StateFaulted"
    and "s_durable s = Some st" "readable (w_clock w) st" "base + s_tick s < 2 ^ 64"
  shows "sound lib (w_clock w) st"
proof -
  from lawful_logs [OF assms(1)] assms(4) have l: "valid_log (s_records s)" "matches s"
    "\<forall>i \<in> fst ` set (call_facts (s_records s)). stored_id i" by (auto simp: logs_def)
  then have tr: "st_transcript st = s_records s" using assms(7) by (simp add: matches_def)
  from assms(2,6,9) have led: "books True (s_state s = StateRunning) s" "mark_ok s"
    "s_state s = StateRunning \<longrightarrow> s_runs s \<noteq> 0 \<and> (\<exists>goal p. s_run s = Some (run_name (s_runs s), goal, p))"
    by (simp_all add: ledger_def)
  have raw: "raw_ok lib (w_clock w) st" using assms(3-5,7,8) by (simp add: shelved_def)
  have cl: "closed_log (s_records s) = (s_state s = StateClosed)" using assms(1,4,6)
    by (cases "s_state s") (auto simp: lawful_def logs_def at_pc_def)
  have opens: "open_facts (s_records s) = []" if "s_state s \<noteq> StateRunning"
    using that assms(1,4,6) by (cases "s_state s") (auto simp: lawful_def logs_def)
  have run: "\<forall>f \<in> set (open_facts (s_records s)). snd f = run_name (s_runs s)" if st: "s_state s = StateRunning"
  proof -
    from led(3) st obtain goal p where "s_run s = Some (run_name (s_runs s), goal, p)" by blast
    with assms(1,4) st show ?thesis by (auto simp: lawful_def at_pc_def logs_def open_at_def)
  qed
  have mk: "marks s = Some (store_marks st)" using assms(7) by (simp add: marks_def)
  have m: "m_next_run (st_manifest st) = s_runs s"
    "s_state s = StateRunning \<Longrightarrow> \<exists>t. m_active (st_manifest st) = Some (run_name (s_runs s), t)"
    "s_state s \<noteq> StateRunning \<Longrightarrow> m_active (st_manifest st) = None" "m_closed (st_manifest st) = (s_state s = StateClosed)"
    "close_events (st_events st) = (if s_state s = StateClosed then 1 else 0)"
    "\<forall>n. starts (st_events st) (run_name n) = over (s_runs s) False n \<and>
       ends_of (st_events st) (run_name n) = over (s_runs s) (s_state s = StateRunning) n"
    using led(2) by (simp_all add: mark_ok_def mk store_marks_def)
  have act: "busy (m_active (st_manifest st)) = (s_state s = StateRunning)"
    using m by (cases "m_active (st_manifest st)") auto
  show ?thesis
  proof (cases "s_state s = StateRunning")
    case True
    with raw l tr led(1,3) cl run m act show ?thesis
      by (auto simp: sound_def Let_def books_def)
  next
    case False
    with raw l tr led(1) cl opens m act show ?thesis
      by (auto simp: sound_def Let_def books_def)
  qed
qed

lemma created_sound:
  assumes "Create lib resolve taken root i ws projection binding t IoOk = Inr st"
    and "t \<noteq> 0" "projection \<noteq> []" "\<And>w c d. resolve w = Some (c, d) \<Longrightarrow> is_abs c \<and> d \<noteq> []"
  shows "sound lib ct st"
proof -
  note c = Create_durable [OF assms(1-4)] Create_fresh [OF assms(1)]
  have "m_active (st_manifest st) = None \<and> \<not> m_closed (st_manifest st)" using assms(1)
    by (auto simp: Create_def persist_ok Let_def split: if_splits option.splits)
  with c durable_raw [of lib ct st] show ?thesis
    by (simp add: sound_def Let_def open_facts_def call_facts_def closed_log_def count_defs over_def)
qed

subsection \<open>Opening a session on a sound store\<close>

definition loaded :: "instruction list \<Rightarrow> store \<Rightarrow> session" where
  "loaded docs st = load_session st (fresh_session (m_session (st_manifest st)) docs)"

lemma loaded_fields [simp]:
  "s_id (loaded docs st) = m_session (st_manifest st)" "s_state (loaded docs st) = StateIdle" "s_run (loaded docs st) = None"
  "s_subs (loaded docs st) = []" "s_history (loaded docs st) = st_events st" "s_records (loaded docs st) = st_transcript st"
  "s_durable (loaded docs st) = Some st" "s_cursor (loaded docs st) = m_event_cursor (st_manifest st)"
  "s_runs (loaded docs st) = m_next_run (st_manifest st)" "s_tick (loaded docs st) = 0"
  by (simp_all add: loaded_def load_session_def fresh_session_def Let_def)

definition unclaimed :: "(bytes \<Rightarrow> nat) \<Rightarrow> store \<Rightarrow> bool" where
  "unclaimed owner st \<longleftrightarrow> (\<forall>i \<in> fst ` set (call_facts (st_transcript st)). owner i = 0)"

lemma loaded_logs:
  assumes "sound lib ct st" "unclaimed owner st"
  shows "logs w owner (m_closed (st_manifest st)) (open_facts (st_transcript st)) (loaded docs st)"
  using assms by (auto simp: logs_def sound_def unclaimed_def matches_def raw_ok_def counted_def Let_def)

lemma loaded_live: "sound lib ct st \<Longrightarrow> live (loaded docs st)"
  by (simp add: live_def sound_def raw_ok_def counted_def)

lemma loaded_shelved: "sound lib (w_clock w) st \<Longrightarrow> shelved lib w (loaded docs st)"
  by (simp add: shelved_def sound_def)

lemma closed_count: "valid_log rs \<Longrightarrow> close_records rs = (if closed_log rs then 1 else 0)"
proof (induction rs rule: rev_induct)
  case (snoc r rs)
  then show ?case by (auto simp: valid_log_snoc close_records_def)
qed (simp add: close_records_def closed_log_def)

text \<open>The new session, when no run was active.\<close>

lemma NewSession_at_rest:
  assumes "sound lib ct st" "i = [] \<or> i = m_session (st_manifest st)" "m_active (st_manifest st) = None"
  shows "NewSession w i docs (Some st) = (Inr (), (loaded docs st)\<lparr>s_state := (if m_closed (st_manifest st) then StateClosed else StateIdle)\<rparr>)"
proof -
  have id: "m_session (st_manifest st) \<noteq> []" using assms(1)
    by (auto simp: sound_def raw_ok_def manifest_ok_def validateSessionID_def)
  have j: "(if i = [] then m_session (st_manifest st) else i) = m_session (st_manifest st)" using assms(2) by auto
  have c: "close_records (st_transcript st) = (if m_closed (st_manifest st) then 1 else 0)"
    "close_events (st_events st) = (if m_closed (st_manifest st) then 1 else 0)"
    using assms(1) closed_count by (auto simp: sound_def Let_def)
  have rec: "(loaded docs st)\<lparr>s_state := StateIdle\<rparr> = loaded docs st" by (simp add: loaded_def load_session_def fresh_session_def Let_def)
  show ?thesis
    by (simp add: NewSession_def Let_def j id assms(3) c close_facts_bad_def rec flip: loaded_def)
qed

definition cursor_sync :: "session \<Rightarrow> bool" where
  "cursor_sync s \<longleftrightarrow> (\<forall>st. s_durable s = Some st \<longrightarrow> m_session (st_manifest st) = s_id s \<and> m_event_cursor (st_manifest st) = s_cursor s)"

lemma cursor_append: "cursor_sync s \<Longrightarrow> cursor_sync (snd (appendPayload w rid p s))"
proof -
  have "m_event_cursor (st_manifest (snd (AppendTranscript ct rs io st))) = m_event_cursor (st_manifest st)" for ct rs io st
    by (auto simp: AppendTranscript_def Let_def persist_disk(1) split: sum.split prod.split)
  then show "cursor_sync s \<Longrightarrow> cursor_sync (snd (appendPayload w rid p s))"
    by (auto simp: cursor_sync_def appendPayload_def add_records_def on_store_pair case_prod_beta split: sum.split option.split)
qed

lemma complete_calls_inv:
  assumes "\<And>s p. I s \<Longrightarrow> I (snd (appendPayload w rid p s))" "I s"
  shows "I (snd (complete_calls w rid cs s))"
  using assms(2) by (induction cs arbitrary: s) (auto intro!: seqE [where P = I] assms(1))

lemma reconcile_finish: "reconcileDurable w rid s = finishDurable w rid s"
  by (simp add: reconcileDurable_def finishDurable_def ReconcileRun_def [abs_def] split: option.split)

lemma no_outcome: "outs rs rid = 0 \<Longrightarrow> \<not> list_ex (\<lambda>r. r_run r = rid \<and> r_kind r = KindRunOutcome) rs"
  by (auto simp: outs_def filter_empty_conv list_ex_iff)

lemma no_terminal: "ends_of evs rid = 0 \<Longrightarrow> \<not> list_ex (\<lambda>e. ev_run e = rid \<and> isTerminal (ev_kind e)) evs"
  by (auto simp: ends_of_def filter_empty_conv list_ex_iff)

text \<open>The records: every open call gets a result, then the run its outcome.\<close>

lemma close_records_ok:
  assumes st: "sound lib (w_clock w) st" "unclaimed owner st" and w: "reliable w"
    and act: "m_active (st_manifest st) = Some (rid, at)"
  obtains s1 s2 where "still (loaded docs st) s1" "same_core (loaded docs st) s1" "cursor_sync s2" "s_cursor s2 = m_event_cursor (st_manifest st)"
    "appendPayload w rid (RunOutcomePayload RunOutcomeInterrupted CauseInterrupted) s1 = (Inr (), s2)"
    "closeOpenRecords w rid (loaded docs st) = (Inr (), s2)" "logs w owner False [] s2"
    "grown (loaded docs st) s2" "shelved lib w s2" "up StateIdle None s2"
proof -
  let ?s = "loaded docs st" and ?tr = "st_transcript st"
  from st(1) act have rid: "rid = run_name (m_next_run (st_manifest st))" "m_next_run (st_manifest st) \<noteq> 0" "\<not> m_closed (st_manifest st)"
    "\<forall>f \<in> set (open_facts ?tr). snd f = rid" "outs ?tr rid = 0" and v: "valid_log ?tr" "\<forall>i \<in> fst ` set (call_facts ?tr). stored_id i"
    by (auto simp: sound_def Let_def over_def)
  from rid(1) have ne: "rid \<noteq> []" by simp
  from OpenToolCallsForRun_iff(1) [OF v(1), of rid] ne rid(4) obtain ps where ps: "OpenToolCallsForRun ?tr rid = Inr ps"
    by (cases "OpenToolCallsForRun ?tr rid") auto
  note fs = OpenToolCallsForRun_iff(2) [OF v(1) ps]
  have l0: "logs w owner False (map (\<lambda>c. (call_id c, rid)) ps) ?s" using loaded_logs [OF st, of w docs] rid(3) fs by simp
  have "call_id c \<in> fst ` set (call_facts ?tr)" if "c \<in> set ps" for c
  proof -
    from that have "(call_id c, rid) \<in> set (open_facts ?tr)" unfolding fs [symmetric] by simp
    then show ?thesis by (force simp: open_facts_def)
  qed
  then have "\<forall>c \<in> set ps. stored_id (call_id c) \<and> call_id c \<noteq> []" using v(2) call_ids [OF v(1)] by metis
  note c = complete_calls_ok [OF w l0 ne this]
  define s1 where "s1 = snd (complete_calls w rid ps ?s)"
  from interrupted_new [OF reliable_now(1) [OF w] ne] obtain r where
    "New rid (now w s1) (kind_of (RunOutcomePayload RunOutcomeInterrupted CauseInterrupted)) (RunOutcomePayload RunOutcomeInterrupted CauseInterrupted) = Inr r"
    by blast
  note ok = append_succeeds [OF w this]
  define s2 where "s2 = snd (appendPayload w rid (RunOutcomePayload RunOutcomeInterrupted CauseInterrupted) s1)"
  from ok have a: "appendPayload w rid (RunOutcomePayload RunOutcomeInterrupted CauseInterrupted) s1 = (Inr (), s2)"
    by (simp add: s2_def prod_eq_iff)
  have cc: "complete_calls w rid ps ?s = (Inr (), s1)" using c by (simp add: s1_def prod_eq_iff)
  have rec: "closeOpenRecords w rid ?s = (Inr (), s2)"
    using no_outcome [OF rid(5)] ps cc a by (simp add: closeOpenRecords_def)
  have sync0: "cursor_sync ?s" by (simp add: cursor_sync_def)
  have sync: "cursor_sync s2" unfolding s2_def s1_def
    by (rule cursor_append, rule complete_calls_inv [where I = cursor_sync]) (use cursor_append sync0 in auto)
  have cur: "s_cursor s2 = m_event_cursor (st_manifest st)"
    using complete_calls_inv [where I = "\<lambda>t. s_cursor t = m_event_cursor (st_manifest st)", of w rid ?s ps] cursor_frames(1)
    by (simp add: s2_def s1_def)
  have "up StateIdle None ?s" using loaded_live [OF st(1)] by (simp add: up_def)
  then have up: "up StateIdle None s2" unfolding s2_def s1_def
    by (intro up_ops complete_calls_inv [where I = "up StateIdle None"])
  have shelf: "shelved lib w s2" unfolding s2_def s1_def
    by (intro shelved_append complete_calls_inv [where I = "shelved lib w"] loaded_shelved [OF st(1)])
  have grown: "grown ?s s2" using c grown_ops(1) grown_trans by (auto simp: s2_def s1_def)
  have logs: "logs w owner False [] s2" unfolding s2_def by (rule logs_outcome) (use c in \<open>simp add: s1_def\<close>)
  show thesis using that [OF _ _ sync cur a rec logs grown shelf up] c by (simp add: s1_def)
qed

text \<open>The terminal event and the end of the run in the manifest.\<close>

lemma interrupted_event:
  assumes "reliable w" "cursor_sync s" "s_cursor s + 1 \<noteq> 0" "s_id s \<noteq> []" "rid \<noteq> []"
  obtains ev t where "persistEvent w rid (RunFailedPayload CauseInterrupted) s = (Inr ev, t)" "ev_run ev = rid" "ev_kind ev = KindRunFailed"
    "emit w rid (RunFailedPayload CauseInterrupted) s = (Inr (), publishEvent ev t)"
proof -
  from event_needs [of "RunFailedPayload CauseInterrupted" KindRunFailed rid s w] assms reliable_now(1) [OF assms(1)]
  obtain e where e: "ev_new (s_id s) rid (s_cursor s + 1) (now w s) (ev_kind_of (RunFailedPayload CauseInterrupted)) (RunFailedPayload CauseInterrupted) = Inr e"
    by (auto simp: runFact_def validFailureCause_def CauseInterrupted_def)
  from event_succeeds [OF assms(1) e] assms(2) obtain t where "persistEvent w rid (RunFailedPayload CauseInterrupted) s = (Inr e, t)"
    by (auto simp: cursor_sync_def)
  with ev_new_fields [OF e] that show thesis by (auto simp: emit_def)
qed

lemma finish_succeeds:
  assumes "reliable w" "marks s = Some m" "mk_active m = Some (rid, at)"
  shows "\<exists>t. finishDurable w rid s = (Inr (), t)"
proof -
  from assms(2,3) obtain st where "s_durable s = Some st" "m_active (st_manifest st) = Some (rid, at)"
    by (auto simp: marks_def store_marks_def)
  with reliable_now(2) [OF assms(1)] show ?thesis
    by (simp add: finishDurable_def on_store_pair FinishRun_def persist_ok Let_def)
qed

text \<open>A session at rest, ready for the next life.\<close>

definition rested :: "stdlib \<Rightarrow> world \<Rightarrow> (bytes \<Rightarrow> nat) \<Rightarrow> store \<Rightarrow> session \<Rightarrow> bool" where
  "rested lib w owner st t \<longleftrightarrow> lawful w owner t \<and> live t \<and> ledger (unat (m_next_run (st_manifest st))) t \<and> shelved lib w t \<and>
     prefix (st_transcript st) (s_records t) \<and> prefix (st_events st) (s_history t) \<and>
     length (s_history t) \<le> Suc (length (st_events st)) \<and> cursor_sync t \<and> s_id t = m_session (st_manifest st) \<and>
     s_state t = (if m_closed (st_manifest st) then StateClosed else StateIdle) \<and> s_runs t = m_next_run (st_manifest st) \<and>
     ValidateTranscript (s_records t) = Inr () \<and> books True False t \<and> (\<exists>m. marks t = Some m \<and> mk_active m = None)"

lemma reconcile_ok:
  assumes st: "sound lib (w_clock w) st" "unclaimed owner st" and w: "reliable w"
    and act: "m_active (st_manifest st) = Some (rid, at)" and room: "m_event_cursor (st_manifest st) + 1 \<noteq> 0"
  shows "\<exists>t. reconcileInterrupted w rid (loaded docs st) = (Inr (), t) \<and> rested lib w owner st t"
proof -
  let ?s = "loaded docs st"
  from st(1) act have rid: "rid = run_name (m_next_run (st_manifest st))" "m_next_run (st_manifest st) \<noteq> 0" "\<not> m_closed (st_manifest st)"
    and bk: "books True True ?s" by (auto simp: sound_def Let_def books_def)
  obtain s1 s2 where s: "still ?s s1" "same_core ?s s1" "cursor_sync s2" "s_cursor s2 = m_event_cursor (st_manifest st)"
    "appendPayload w rid (RunOutcomePayload RunOutcomeInterrupted CauseInterrupted) s1 = (Inr (), s2)"
    "closeOpenRecords w rid ?s = (Inr (), s2)" "logs w owner False [] s2" "grown ?s s2" "shelved lib w s2" "up StateIdle None s2"
    by (rule close_records_ok [OF st w act])
  note out = append_outcome [OF s(5)]
  have id: "s_id s2 \<noteq> []" using st(1) s(2) core_frames(1) [of s1 w rid "RunOutcomePayload RunOutcomeInterrupted CauseInterrupted"] s(5)
    by (auto simp: same_core_def sound_def raw_ok_def manifest_ok_def validateSessionID_def)
  have h2: "s_history s2 = st_events st" using s(2) out(2) by (simp add: same_core_def)
  have t12: "tally s1 = tally ?s" "marks s1 = marks ?s" using s(1) by (simp_all add: still_def)
  have ends0: "ends_of (s_history s2) rid = 0" using bk rid(1) h2 by (simp add: books_def over_def)
  obtain ev u where ev: "persistEvent w rid (RunFailedPayload CauseInterrupted) s2 = (Inr ev, u)" "ev_run ev = rid" "ev_kind ev = KindRunFailed"
    "emit w rid (RunFailedPayload CauseInterrupted) s2 = (Inr (), publishEvent ev u)"
    using interrupted_event [OF w s(3) _ id, of rid] room s(4) rid(1) by auto
  let ?s3 = "publishEvent ev u"
  have c3: "closeOpenEvents w rid s2 = (Inr (), ?s3)" using no_terminal [OF ends0] ev(4) by (simp add: closeOpenEvents_def)
  note em = event_marks [OF ev(1)]
  have "marks ?s3 = marks u" by (simp add: publishEvent_def marks_def)
  then have m3: "marks ?s3 = map_option (note_event ev) (marks ?s)" using em(1) out(4) t12(2) by simp
  have mk: "marks ?s = Some (store_marks st)" by (simp add: marks_def)
  from finish_succeeds [OF w, of ?s3 "note_event ev (store_marks st)" rid at] m3 mk act
  obtain t where t: "finishDurable w rid ?s3 = (Inr (), t)" by (auto simp: note_event_def store_marks_def)
  note fin = finishDurable_marks [OF t]
  have logs3: "logs w owner False [] ?s3" using logs_keeps [OF s(7) log_frames(1) [of s2 w rid "RunFailedPayload CauseInterrupted"]]
      logs_keeps [OF _ log_fields(8)] ev(1) by simp
  have logs: "logs w owner False [] t" using logs_keeps [OF logs3 log_frames(6) [of ?s3 w rid]] t by simp
  have up: "up StateIdle None t" using up_ops(9) [OF up_emit [OF s(10)]] ev(4) t by (metis snd_conv)
  have shelf: "shelved lib w t" using shelved_finish [OF shelf.emit [OF s(9)]] ev(4) t by (metis snd_conv)
  have grown: "grown ?s t" using grown_trans [OF s(8)] growth.finish [OF growth.emit [OF grown_refl]] ev(4) t by (metis snd_conv)
  have h3: "s_history ?s3 = s_history s2 @ [ev]" "s_runs ?s3 = s_runs s2" "s_records ?s3 = s_records s2"
    using em(2) ev(1) core_frames(3) [of s2 w rid "RunFailedPayload CauseInterrupted"] persistEvent_ok [OF ev(1)]
    by (auto simp: publishEvent_def tally_def same_core_def persistEvent_def on_store_pair split: sum.splits option.splits)
  have ht: "s_history t = s_history s2 @ [ev]" "s_runs t = m_next_run (st_manifest st)" "outs (s_records t) = outs (s_records s2)"
    using fin(2,4) h3 out(3) t12(1) by (auto simp: tally_def same_core_def)
  have note1: "close_events [ev] = 0" "starts [ev] = (\<lambda>_. 0)" "ends_of [ev] = (\<lambda>_. 0)(rid := 1)"
    using ev(2,3) by (auto simp: count_defs fun_eq_iff isTerminal_def)
  have "ends_of (s_history t) = (ends_of (s_history ?s))(rid := Suc (ends_of (s_history ?s) rid))" "starts (s_history t) = starts (s_history ?s)"
    using ev(2,3) unfolding ht h2 by (auto simp: starts_def ends_of_def isTerminal_def fun_eq_iff)
  moreover have "outs (s_records t) = (outs (s_records ?s))(rid := Suc (outs (s_records ?s) rid))"
    using out(1) t12(1) ht(3) by (simp add: tally_def)
  ultimately have books: "books True False t" using finish_books [OF bk] rid(1,2) ht(2) by simp
  have "mark_ok t" using st(1) act rid(1,2) fin(1,3) m3 mk up ht(2)
    unfolding mark_ok_def by (auto simp: up_def note_event_def note1 store_marks_def sound_def Let_def over_def)
  with books up ht(2) have "ledger (unat (m_next_run (st_manifest st))) t" by (simp add: ledger_def up_def)
  moreover have "lawful w owner t" using logs up by (simp add: lawful_def up_def)
  moreover have vt: "ValidateTranscript (s_records t) = Inr ()" using logs reliable_calm [OF w, of t] by (simp add: logs_def ValidateTranscript_iff)
  moreover have "\<exists>m. marks t = Some m \<and> mk_active m = None" using fin(1) m3 mk by simp
  moreover have "cursor_sync ?s3" using ev(1) s(3)
    by (auto simp: persistEvent_def on_store_pair AppendEvent_def persist_def cursor_sync_def publishEvent_def Let_def
        split: sum.splits option.splits prod.splits if_splits dest!: ev_new_fields)
  then have "cursor_sync t" using t
    by (auto simp: finishDurable_def on_store_pair FinishRun_def persist_def cursor_sync_def Let_def
        split: sum.splits option.splits prod.splits if_splits)
  ultimately have "rested lib w owner st t" using books up shelf grown ht(1,2) h2 rid(3) by (simp add: rested_def up_def grown_def)
  moreover have "reconcileInterrupted w rid ?s = (Inr (), t)"
    using s(6) c3 t vt by (simp add: reconcileInterrupted_def reconcile_finish)
  ultimately show ?thesis by blast
qed

lemma NewSession_recovers:
  assumes st: "sound lib (w_clock w) st" "unclaimed owner st" and w: "reliable w"
    and i: "i = [] \<or> i = m_session (st_manifest st)" and room: "m_event_cursor (st_manifest st) + 1 \<noteq> 0"
  shows "\<exists>t. NewSession w i docs (Some st) = (Inr (), t) \<and> rested lib w owner st t"
proof (cases "m_active (st_manifest st)")
  case None
  let ?t = "(loaded docs st)\<lparr>s_state := (if m_closed (st_manifest st) then StateClosed else StateIdle)\<rparr>"
  from st(1) None have o: "open_facts (st_transcript st) = []" "valid_log (st_transcript st)" "close_events (st_events st) = (if m_closed (st_manifest st) then 1 else 0)"
    and bk: "books True False ?t" by (auto simp: sound_def Let_def books_def)
  have "logs w owner (m_closed (st_manifest st)) [] ?t" using loaded_logs [OF st, of w docs] logs_keeps [OF _ log_fields(5)] by (simp add: o(1))
  then have "lawful w owner ?t" by (auto simp: lawful_def)
  moreover have "live ?t" using loaded_live [OF st(1), of docs] by (auto simp: live_def)
  moreover have mk: "marks ?t = Some (store_marks st)" by (simp add: marks_def)
  moreover from this bk have "mark_ok ?t" using st(1) None
    by (auto simp: mark_ok_def store_marks_def o(3) books_def)
  then have "ledger (unat (m_next_run (st_manifest st))) ?t" using bk by (auto simp: ledger_def)
  moreover have "shelved lib w ?t" using loaded_shelved [OF st(1)] by (rule shelved_aside) simp_all
  ultimately have "rested lib w owner st ?t" using o bk None by (simp add: cursor_sync_def rested_def ValidateTranscript_iff store_marks_def)
  then show ?thesis using NewSession_at_rest [OF st(1) i None, of w docs] by blast
next
  case (Some x)
  obtain rid at where x: "x = (rid, at)" by (cases x)
  from reconcile_ok [OF st w Some [unfolded x] room, of docs] obtain t where
    t: "reconcileInterrupted w rid (loaded docs st) = (Inr (), t)" "rested lib w owner st t" by blast
  have id: "m_session (st_manifest st) \<noteq> []" using st(1)
    by (auto simp: sound_def raw_ok_def manifest_ok_def validateSessionID_def)
  have j: "(if i = [] then m_session (st_manifest st) else i) = m_session (st_manifest st)" using i by auto
  have c: "\<not> m_closed (st_manifest st)" using st(1) Some x by (simp add: sound_def Let_def)
  then have "close_records (st_transcript st) = 0" "close_events (st_events st) = 0"
    using st(1) closed_count by (auto simp: sound_def Let_def)
  with c t(1) have "NewSession w i docs (Some st) = (Inr (), t)"
    by (simp add: NewSession_def Let_def j id Some x close_facts_bad_def flip: loaded_def)
  with t(2) show ?thesis by blast
qed

subsection \<open>Any number of lives\<close>

text \<open>
  \<open>lived lib ct st\<close>: \<open>st\<close> is a store a session directory can hold when the process is gone. It is
  one \<open>Create\<close> made (\<open>born\<close>), or one that a process left which opened a session on such a store
  and stopped (\<open>life\<close>). What that process and the world it ran in are assumed to have done:

  \<^item> it stopped between two moves, with the session idle, running or closed, not faulted;
  \<^item> none of its writes failed, and its clock never showed the zero time (\<open>reliable\<close>);
  \<^item> the provider never reused a call identity, neither within this process (\<open>provider_fresh\<close>) nor
    from an earlier one of the session (\<open>unclaimed\<close>);
  \<^item> every line of its two logs can be read back: printable times, known kinds, compact payloads
    and lines below the scanner's limit (\<open>readable\<close>);
  \<^item> the event cursor and the run counter did not come near 2^64.

  Without the second and the third the claim is false: after a torn write, or when a later turn
  reuses a call identity, the session may not open any more. Writes that fail are the subject of
  \<open>crash_recovery\<close>.
\<close>

inductive lived :: "stdlib \<Rightarrow> clock_text \<Rightarrow> store \<Rightarrow> bool" for lib ct where
  born: "Create lib resolve taken root i ws projection binding t IoOk = Inr st \<Longrightarrow> t \<noteq> 0 \<Longrightarrow> projection \<noteq> [] \<Longrightarrow>
    (\<And>w c d. resolve w = Some (c, d) \<Longrightarrow> is_abs c \<and> d \<noteq> []) \<Longrightarrow> lived lib ct st"
| life: "lived lib ct st \<Longrightarrow> NewSession w i docs (Some st) = (Inr (), s0) \<Longrightarrow> reach w s0 s \<Longrightarrow>
    w_clock w = ct \<Longrightarrow> reliable w \<Longrightarrow> provider_fresh w owner \<Longrightarrow> unclaimed owner st \<Longrightarrow>
    m_event_cursor (st_manifest st) + 1 \<noteq> 0 \<Longrightarrow> unat (m_next_run (st_manifest st)) + s_tick s < 2 ^ 64 \<Longrightarrow>
    s_state s \<noteq> StateFaulted \<Longrightarrow> s_durable s = Some st' \<Longrightarrow> readable ct st' \<Longrightarrow> lived lib ct st'"

lemma lived_sound: "lived lib ct st \<Longrightarrow> sound lib ct st"
proof (induction rule: lived.induct)
  case (born resolve taken root i ws projection binding t st)
  show ?case by (rule created_sound [OF born(1-3)]) (use born(4) in blast)
next
  case (life st w i docs s0 s owner st')
  have i: "i = [] \<or> i = m_session (st_manifest st)" using life.hyps(2) by (auto simp: NewSession_def Let_def split: if_splits)
  from life.IH life.hyps(4) have st: "sound lib (w_clock w) st" by simp
  from NewSession_recovers [OF st life.hyps(7,5) i life.hyps(8), of docs] life.hyps(2)
  have r: "rested lib w owner st s0" by simp
  then have "lawful w owner s" "ledger (unat (m_next_run (st_manifest st))) s" "shelved lib w s"
    using reach_lawful [OF life.hyps(3) _ _ life.hyps(6)] reach_ledger [OF life.hyps(3)] shelf.reach_inv [OF life.hyps(3)]
    by (simp_all add: rested_def)
  from session_sound [OF this reliable_calm [OF life.hyps(5)] _ life.hyps(10,11) _ life.hyps(9)] life.hyps(4,5,12)
  show ?case by (simp add: reliable_def)
qed

subsection \<open>Properties\<close>

text \<open>
  C1: Recovery, for a session no write of which has failed: take a store some process left when it
  stopped between two moves of the session (idle, running or closed, not faulted), in its first
  life or after any number of restarts, under the conditions of \<open>lived\<close> on every one of these
  processes: no failed write, no call identity reused by the provider, readable log lines, fewer
  than 2^64 runs and events. Then the directory opens as exactly the store object the process had,
  and in a world whose writes succeed a new session on it starts: it is idle (or closed), no run
  is active, every earlier record and event is still there, the transcript passes the complete
  check, so each interrupted call got a result, and every run ever begun has exactly one
  start event, one terminal event and one outcome record.
\<close>

theorem recovery:
  assumes "lived lib (w_clock w) st" "reliable w" "m_event_cursor (st_manifest st) + 1 \<noteq> 0"
  shows "Open lib (w_clock w) (m_session (st_manifest st)) (SessionDir (st_disk st)) = Inr st \<and>
    (\<exists>t. NewSession w [] docs (Some st) = (Inr (), t) \<and>
      s_state t = (if m_closed (st_manifest st) then StateClosed else StateIdle) \<and>
      prefix (st_transcript st) (s_records t) \<and> prefix (st_events st) (s_history t) \<and>
      ValidateTranscript (s_records t) = Inr () \<and>
      (\<exists>st'. s_durable t = Some st' \<and> m_active (st_manifest st') = None) \<and>
      (\<forall>n. n \<noteq> 0 \<and> n \<le> m_next_run (st_manifest st) \<longrightarrow> starts (s_history t) (run_name n) = 1 \<and>
        outs (s_records t) (run_name n) = 1 \<and> ends_of (s_history t) (run_name n) = 1))"
proof -
  note sound = lived_sound [OF assms(1)]
  from sound Open_exact [of lib "w_clock w" st] durable_raw [of lib "w_clock w" st] have
    "Open lib (w_clock w) (m_session (st_manifest st)) (SessionDir (st_disk st)) = Inr st" by (simp add: sound_def)
  moreover obtain t where t: "NewSession w [] docs (Some st) = (Inr (), t)" "rested lib w (\<lambda>_. 0) st t"
    using NewSession_recovers [OF sound, of "\<lambda>_. 0" "[]" docs] assms(2,3) by (auto simp: unclaimed_def)
  moreover from t(2) have "\<exists>st'. s_durable t = Some st' \<and> m_active (st_manifest st') = None"
    by (auto simp: rested_def marks_def store_marks_def)
  ultimately show ?thesis by (intro conjI exI [of _ t]) (auto simp: rested_def books_def over_def)
qed

lemma sample_reliable: "reliable sample_world"
  by (simp add: reliable_def timely_def sample_world_def)

lemma sample_lived: "lived sample_lib sample_clock sample_store"
  by (rule lived.born [OF sample_Create]) (auto simp: sample_resolve_def is_abs_def)

text \<open>
  A session interrupted by the end of its process: on a store just created with the manifest \<open>m\<close>,
  a prompt was submitted and its run is active, with its user record and its start event.
\<close>

definition new_store :: "manifest \<Rightarrow> store" where
  "new_store m = \<lparr>st_manifest = m, st_transcript = [], st_events = [],
     st_disk = \<lparr>d_manifest = GoodManifest m, d_transcript = None, d_events = None\<rparr>\<rparr>"

definition cut_session :: "manifest \<Rightarrow> session" where
  "cut_session m = snd (Apply sample_world False (NewSubmit ''c1'' ''hi'') (loaded [] (new_store m)))"

definition interrupted :: "manifest \<Rightarrow> store" where
  "interrupted m = the (s_durable (cut_session m))"

definition blank :: "manifest \<Rightarrow> bool" where
  "blank m \<longleftrightarrow> m_session m = ''s'' \<and> \<not> m_closed m \<and> m_active m = None \<and> m_seen m = (\<lambda>_. None) \<and> m_next_run m = 0 \<and>
     m_event_cursor m = 0 \<and> m_transcript_seq m = 0"

definition cut_text :: json where "cut_text = JObj [(''text'', jstring ''hi'')]"
definition cut_prompt :: json where "cut_prompt = JObj [(''prompt'', jstring ''hi'')]"

definition cut_record :: trecord where
  "cut_record = \<lparr>r_seq = 1, r_time = 2, r_run = ''run-1'', r_kind = KindUserMessage, r_payload = wr cut_text\<rparr>"

definition cut_event :: event where
  "cut_event = \<lparr>ev_session = ''s'', ev_run = ''run-1'', ev_cursor = 1, ev_time = 3, ev_kind = KindRunStarted,
     ev_payload = wr cut_prompt\<rparr>"

lemma cut_json [simp]: "wf_json cut_text" "wf_json cut_prompt"
  using wf_payload_json [of "UserMessagePayload ''hi''"] wf_ev_json [of "RunStartedPayload ''hi''"]
  by (simp_all add: cut_text_def cut_prompt_def del: wf_ev_json)

lemma compactI [simp]: "wf_json v \<Longrightarrow> compact (wr v)"
  by (auto simp: compact_def)

lemma show_small: "show_nat 1 = ''1''" "show_nat (Suc 0) = ''1''" "show_nat 2 = ''2''" "show_nat 3 = ''3''" "run_name 1 = ''run-1''"
proof -
  show n: "show_nat 1 = ''1''" "show_nat 2 = ''2''" "show_nat 3 = ''3''" by code_simp+
  then show "show_nat (Suc 0) = ''1''" "run_name 1 = ''run-1''" by (simp_all add: run_name_def)
qed

lemma cut_record_ok: "record_ok sample_clock cut_record"
proof -
  have len: "length (wr (JObj [(''seq'', JNum ''1''), (''time'', JStr ''2''), (''run_id'', JStr (quote_plain ''run-1'')),
      (''kind'', JStr (quote_plain ''user_message'')), (''payload'', cut_text)])) < 200" by code_simp
  have "record_line sample_clock cut_record = Some (wr (JObj [(''seq'', JNum ''1''), (''time'', JStr ''2''),
      (''run_id'', JStr (quote_plain ''run-1'')), (''kind'', JStr (quote_plain ''user_message'')), (''payload'', cut_text)]))"
    by (simp add: record_line_def record_json_def u64_json_def cut_record_def sample_clock_def show_small del: wr.simps quote_plain.simps)
  with len show ?thesis
    by (auto simp: record_ok_def max_line_def cut_record_def rec_registered_def safe_char_def simp del: wr.simps quote_plain.simps)
qed

lemma cut_event_ok: "event_ok sample_clock cut_event"
proof -
  have len: "length (wr (JObj [(''session_id'', JStr (quote_plain ''s'')), (''run_id'', JStr (quote_plain ''run-1'')), (''cursor'', JNum ''1''),
      (''time'', JStr ''3''), (''kind'', JStr (quote_plain ''run_started'')), (''payload'', cut_prompt)])) < 200" by code_simp
  have "event_line sample_clock cut_event = Some (wr (JObj [(''session_id'', JStr (quote_plain ''s'')), (''run_id'', JStr (quote_plain ''run-1'')),
      (''cursor'', JNum ''1''), (''time'', JStr ''3''), (''kind'', JStr (quote_plain ''run_started'')), (''payload'', cut_prompt)]))"
    by (simp add: event_line_def event_json_def u64_json_def cut_event_def sample_clock_def show_small del: wr.simps quote_plain.simps)
  with len show ?thesis
    by (auto simp: event_ok_def max_line_def cut_event_def registered_def safe_char_def simp del: wr.simps quote_plain.simps)
qed

lemma cut_facts:
  "New (run_name 1) 2 KindUserMessage (UserMessagePayload ''hi'') = Inr (cut_record\<lparr>r_seq := 0\<rparr>)"
  "ev_new ''s'' (run_name 1) 1 3 KindRunStarted (RunStartedPayload ''hi'') = Inr cut_event"
proof -
  obtain r where r: "New (run_name 1) 2 KindUserMessage (UserMessagePayload ''hi'') = Inr r" using sample_user [of "run_name 1" 2] show_small by auto
  with New_fields [OF r] show "New (run_name 1) 2 KindUserMessage (UserMessagePayload ''hi'') = Inr (cut_record\<lparr>r_seq := 0\<rparr>)"
    by (auto simp: cut_record_def marshal_payload_def show_small cut_text_def simp del: wr.simps)
  obtain e where e: "ev_new ''s'' (run_name 1) 1 3 KindRunStarted (RunStartedPayload ''hi'') = Inr e"
    using sample_start_event [of "run_name 1" 3] show_small by auto
  with ev_new_fields [OF e] show "ev_new ''s'' (run_name 1) 1 3 KindRunStarted (RunStartedPayload ''hi'') = Inr cut_event"
    by (auto simp: cut_event_def ev_marshal_def show_small cut_prompt_def simp del: wr.simps)
qed


lemma cut_lines: "record_line sample_clock cut_record \<noteq> None" "event_line sample_clock cut_event \<noteq> None" "Validate cut_record = Inr ()"
proof -
  show "record_line sample_clock cut_record \<noteq> None" "event_line sample_clock cut_event \<noteq> None"
    using cut_record_ok cut_event_ok by (auto simp: record_ok_def event_ok_def split: option.splits)
  from New_valid [OF cut_facts(1)] show "Validate cut_record = Inr ()"
    using Validate_seq [of 0 cut_record] by simp
qed

text \<open>The store such a process leaves.\<close>

lemma cut_steps:
  assumes "blank m"
  shows "s_durable (cut_session m) = Some (interrupted m)" "s_state (cut_session m) = StateRunning" "s_tick (cut_session m) = 3"
    "st_transcript (interrupted m) = [cut_record]" "st_events (interrupted m) = [cut_event]"
    "st_manifest (interrupted m) = m\<lparr>m_seen := (\<lambda>_. None)(''c1'' := Some True), m_next_run := 1,
       m_budgets := (m_budgets m)(run_name 1 := Some zero_budget), m_active := Some (run_name 1, 1), m_updated := 3,
       m_transcript_seq := 1, m_event_cursor := 1\<rparr>"
proof -
  have r: "cut_record\<lparr>r_seq := 0, r_seq := 1\<rparr> = cut_record" "r_time cut_record = 2" by (simp_all add: cut_record_def)
  have e: "ev_session cut_event = ''s''" "ev_cursor cut_event = 1" "ev_time cut_event = 3" by (simp_all add: cut_event_def)
  obtain rl where rl: "record_line sample_clock cut_record = Some rl" using cut_lines(1) by blast
  obtain el where el: "event_line sample_clock cut_event = Some el" using cut_lines(2) by blast
  let ?s = "cut_session m"
  have "\<exists>st. s_durable ?s = Some st \<and> s_state ?s = StateRunning \<and> s_tick ?s = 3 \<and> st_transcript st = [cut_record] \<and>
     st_events st = [cut_event] \<and> st_manifest st = m\<lparr>m_seen := (\<lambda>_. None)(''c1'' := Some True), m_next_run := 1,
       m_budgets := (m_budgets m)(run_name 1 := Some zero_budget), m_active := Some (run_name 1, 1), m_updated := 3,
       m_transcript_seq := 1, m_event_cursor := 1\<rparr>"
    using assms cut_facts r e rl el cut_lines(3)
    by (simp add: cut_session_def blank_def new_store_def Apply_def sample_submit applySubmit_def refreshDocs_def sample_world_def
        beginRun_def loaded_def load_session_def fresh_session_def startRun_def appendPayload_def add_records_def emit_def
        persistEvent_def tick_def now_def io_now_def publishEvent_def or_fault_def on_store_def BeginRun_def AppendTranscript_def
        AppendEvent_def persist_ok append_log_def seen_command_def Let_def)
  then show "s_durable ?s = Some (interrupted m)" "s_state (cut_session m) = StateRunning" "s_tick (cut_session m) = 3"
    "st_transcript (interrupted m) = [cut_record]" "st_events (interrupted m) = [cut_event]"
    "st_manifest (interrupted m) = m\<lparr>m_seen := (\<lambda>_. None)(''c1'' := Some True), m_next_run := 1,
       m_budgets := (m_budgets m)(run_name 1 := Some zero_budget), m_active := Some (run_name 1, 1), m_updated := 3,
       m_transcript_seq := 1, m_event_cursor := 1\<rparr>"
    by (auto simp: interrupted_def)
qed

lemma interrupted_lived:
  assumes "lived lib sample_clock (new_store m)" "blank m"
  shows "lived lib sample_clock (interrupted m)"
proof (rule lived.life [OF assms(1), where w = sample_world and i = "[]" and docs = "[]" and owner = "\<lambda>_. 0" and s = "cut_session m"])
  have st: "st_manifest (new_store m) = m" "st_transcript (new_store m) = []" by (simp_all add: new_store_def)
  show "NewSession sample_world [] [] (Some (new_store m)) = (Inr (), loaded [] (new_store m))"
    using NewSession_at_rest [OF lived_sound [OF assms(1)], of "[]" sample_world "[]"] assms(2)
    by (simp add: st blank_def loaded_def load_session_def fresh_session_def Let_def)
  show "reach sample_world (loaded [] (new_store m)) (cut_session m)"
    unfolding cut_session_def by (intro reach.step [OF reach.start] sess_step.other other_step.command)
  show "w_clock sample_world = sample_clock" by (simp add: sample_world_def)
  show "reliable sample_world" by (rule sample_reliable)
  show "provider_fresh sample_world (\<lambda>_. 0)" by (auto simp: provider_fresh_def sample_world_def safe_ids_def)
  show "unclaimed (\<lambda>_. 0) (new_store m)" by (simp add: unclaimed_def)
  show "m_event_cursor (st_manifest (new_store m)) + 1 \<noteq> 0" using assms(2) by (simp add: st blank_def)
  show "unat (m_next_run (st_manifest (new_store m))) + s_tick (cut_session m) < 2 ^ 64"
    using assms(2) by (simp add: st blank_def cut_steps)
  show "s_state (cut_session m) \<noteq> StateFaulted" "s_durable (cut_session m) = Some (interrupted m)"
    using assms(2) by (simp_all add: cut_steps)
  show "readable sample_clock (interrupted m)" using assms(2) cut_record_ok cut_event_ok by (simp add: readable_def cut_steps)
qed

text \<open>
  The interrupted run is reconciled: the store has an active run with its start and no end, and
  the session that opens on it is idle with that run ended.
\<close>

theorem recovery_witness:
  "st_transcript (interrupted sample_manifest) = [cut_record] \<and> st_events (interrupted sample_manifest) = [cut_event] \<and>
   m_active (st_manifest (interrupted sample_manifest)) = Some (run_name 1, 1) \<and>
   Open sample_lib sample_clock ''s'' (SessionDir (st_disk (interrupted sample_manifest))) = Inr (interrupted sample_manifest) \<and>
   (\<exists>t. NewSession sample_world [] [] (Some (interrupted sample_manifest)) = (Inr (), t) \<and> s_state t = StateIdle \<and>
     ValidateTranscript (s_records t) = Inr () \<and> starts (s_history t) (run_name 1) = 1 \<and>
     outs (s_records t) (run_name 1) = 1 \<and> ends_of (s_history t) (run_name 1) = 1)"
proof -
  have b: "blank sample_manifest" and n: "new_store sample_manifest = sample_store"
    by (simp_all add: blank_def new_store_def sample_manifest_def sample_store_def)
  have w: "w_clock sample_world = sample_clock" "m_session (st_manifest (interrupted sample_manifest)) = ''s''"
    "\<not> m_closed (st_manifest (interrupted sample_manifest))" "m_event_cursor (st_manifest (interrupted sample_manifest)) + 1 \<noteq> 0"
    "m_next_run (st_manifest (interrupted sample_manifest)) = 1"
    using b by (simp_all add: sample_world_def cut_steps) (simp_all add: sample_manifest_def)
  have "lived sample_lib (w_clock sample_world) (interrupted sample_manifest)"
    using interrupted_lived [of sample_lib sample_manifest] sample_lived b by (simp add: n w(1))
  from recovery [OF this sample_reliable w(4), of "[]"] obtain t where
    t: "Open sample_lib sample_clock ''s'' (SessionDir (st_disk (interrupted sample_manifest))) = Inr (interrupted sample_manifest)"
    "NewSession sample_world [] [] (Some (interrupted sample_manifest)) = (Inr (), t)" "s_state t = StateIdle"
    "ValidateTranscript (s_records t) = Inr ()"
    "\<forall>n. n \<noteq> 0 \<and> n \<le> 1 \<longrightarrow> starts (s_history t) (run_name n) = 1 \<and> outs (s_records t) (run_name n) = 1 \<and> ends_of (s_history t) (run_name n) = 1"
    unfolding w(1,2,5) using w(3) by auto
  from t(5) [rule_format, of 1] have "starts (s_history t) (run_name 1) = 1" "outs (s_records t) (run_name 1) = 1"
    "ends_of (s_history t) (run_name 1) = 1" by simp_all
  with t(1-4) show ?thesis using cut_steps [OF b] by simp
qed

end
