(* ===== verification/Gofs.thy ===== *)
theory Gofs
  imports Jsonl Workspace Dataproj "HOL-Library.List_Lexorder" "HOL-Library.Char_ord"
begin

text \<open>
  What the read-only tools use of Go's \<open>io/fs\<close>, \<open>bufio\<close>, \<open>strings\<close> and \<open>encoding/json\<close>: the
  text of a file mode, the line scanner with its token limit, the directory walk over a tree
  (each directory either listed in name order or failing), \<open>strings.TrimSpace\<close>, the order of
  strings, and \<open>json.Unmarshal\<close> into a struct, which keeps going after a mismatch.
\<close>

datatype ctx_error = Canceled | DeadlineExceeded

datatype go_error = WsErr ws_error | CtxErr ctx_error | ScanErr

subsection \<open>File modes\<close>

text \<open>\<open>fs.FileMode.String\<close>: the letters of the type bits, then the permissions.\<close>

definition mode_text :: "nat \<Rightarrow> bytes" where
  "mode_text m =
    (let types = map snd (filter (\<lambda>(i, c). bit m (31 - i)) (enumerate 0 ''dalTLDpSugct?''));
         perms = map (\<lambda>(i, c). if bit m (8 - i) then c else CHR ''-'') (enumerate 0 ''rwxrwxrwx'')
     in (if types = [] then ''-'' else types) @ perms)"

subsection \<open>The line scanner\<close>

text \<open>
  \<open>bufio.Scanner\<close> with a limit (the tools' is 1 MiB), on the pieces between newlines. A piece that
  does not fit the buffer with its newline stops it with an error. \<open>fault\<close> says that reading
  failed after the bytes; the scanner notices when it needs more, so only the last,
  incomplete piece comes with the error already set.
\<close>

definition max_token :: nat where "max_token = 1024 * 1024"

fun scan_tokens :: "nat \<Rightarrow> bool \<Rightarrow> bytes list \<Rightarrow> (bytes \<times> bool) list \<times> bool" where
  "scan_tokens limit fault [] = ([], fault)"
| "scan_tokens limit fault [l] =
     (if length l \<ge> limit then ([], True)
      else if l = [] then ([], fault) else ([(drop_cr l, fault)], fault))"
| "scan_tokens limit fault (l # ls) =
     (if length l \<ge> limit then ([], True)
      else (let (ts, e) = scan_tokens limit fault ls in ((drop_cr l, False) # ts, e)))"

definition scan :: "bool \<Rightarrow> bytes \<Rightarrow> (bytes \<times> bool) list \<times> bool" where
  "scan fault data = scan_tokens max_token fault (split_byte nl data)"

subsection \<open>White space\<close>

definition space_rune :: "bytes \<Rightarrow> bool" where
  "space_rune r \<longleftrightarrow>
    (case map ord_of r of
       [a] \<Rightarrow> a \<in> {9, 10, 11, 12, 13, 32}
     | [a, b] \<Rightarrow> a = 194 \<and> (b = 133 \<or> b = 160)
     | [a, b, c] \<Rightarrow> a = 225 \<and> b = 154 \<and> c = 128 \<or>
         a = 226 \<and> b = 128 \<and> (128 \<le> c \<and> c \<le> 138 \<or> c = 168 \<or> c = 169 \<or> c = 175) \<or>
         a = 226 \<and> b = 129 \<and> c = 159 \<or> a = 227 \<and> b = 128 \<and> c = 128
     | _ \<Rightarrow> False)"

fun trim_left :: "bytes \<Rightarrow> bytes" where
  "trim_left [] = []"
| "trim_left (c # s) = (let n = rune_size (c # s) in
     if n \<noteq> 0 \<and> space_rune (take n (c # s)) then trim_left (drop (n - 1) s) else c # s)"

text \<open>From the right, the last rune is read: the longest valid one that ends the text.\<close>

fun trim_right_rev :: "bytes \<Rightarrow> bytes" where
  "trim_right_rev (c # b # a # s) =
     (if space_rune [c] then trim_right_rev (b # a # s)
      else if space_rune [b, c] then trim_right_rev (a # s)
      else if space_rune [a, b, c] then trim_right_rev s
      else c # b # a # s)"
| "trim_right_rev [c, b] =
     (if space_rune [c] then trim_right_rev [b] else if space_rune [b, c] then [] else [c, b])"
| "trim_right_rev [c] = (if space_rune [c] then [] else [c])"
| "trim_right_rev [] = []"

definition TrimSpace :: "bytes \<Rightarrow> bytes" where
  "TrimSpace s = rev (trim_right_rev (rev (trim_left s)))"

subsection \<open>The walk\<close>

text \<open>
  A tree as the walk meets it: an entry that is no directory, with what \<open>Info\<close> says of it (is
  it regular?), or a directory with the error of listing it and the entries listed.
\<close>

datatype tree = Entry "(ws_error, bool) result" | Folder "ws_error option" "(bytes \<times> tree) list"

fun is_dir :: "tree \<Rightarrow> bool" where
  "is_dir (Entry i) = False"
| "is_dir (Folder e ds) = True"

datatype stop = SkipDir | SkipAll | Failed go_error

type_synonym 's visitor = "bytes \<Rightarrow> tree option \<Rightarrow> ws_error option \<Rightarrow> 's \<Rightarrow> stop option \<times> 's"

fun walkDir :: "'s visitor \<Rightarrow> bytes \<Rightarrow> tree \<Rightarrow> 's \<Rightarrow> stop option \<times> 's"
and walkEntries :: "'s visitor \<Rightarrow> bytes \<Rightarrow> (bytes \<times> tree) list \<Rightarrow> 's \<Rightarrow> stop option \<times> 's" where
  "walkDir fn name (Entry i) s = fn name (Some (Entry i)) None s"
| "walkDir fn name (Folder e ds) s =
     (case fn name (Some (Folder e ds)) None s of
        (Some SkipDir, s1) \<Rightarrow> (None, s1)
      | (Some r, s1) \<Rightarrow> (Some r, s1)
      | (None, s1) \<Rightarrow>
         (case e of
            None \<Rightarrow> walkEntries fn name ds s1
          | Some we \<Rightarrow>
             (case fn name (Some (Folder e ds)) (Some we) s1 of
                (Some SkipDir, s2) \<Rightarrow> (None, s2)
              | (Some r, s2) \<Rightarrow> (Some r, s2)
              | (None, s2) \<Rightarrow> walkEntries fn name ds s2)))"
| "walkEntries fn name [] s = (None, s)"
| "walkEntries fn name (d # ds) s =
     (case walkDir fn (Join [name, fst d]) (snd d) s of
        (None, s1) \<Rightarrow> walkEntries fn name ds s1
      | (Some SkipDir, s1) \<Rightarrow> (None, s1)
      | (Some r, s1) \<Rightarrow> (Some r, s1))"

definition WalkDir :: "'s visitor \<Rightarrow> bytes \<Rightarrow> (ws_error, tree) result \<Rightarrow> 's \<Rightarrow> go_error option \<times> 's" where
  "WalkDir fn root t s =
    (case (case t of Inl e \<Rightarrow> fn root None (Some e) s | Inr d \<Rightarrow> walkDir fn root d s) of
       (Some (Failed e), s1) \<Rightarrow> (Some e, s1)
     | (_, s1) \<Rightarrow> (None, s1))"

text \<open>A property of the state that every visit keeps is kept by the walk.\<close>

lemma walk_keeps:
  "(\<And>n t e s. I s \<Longrightarrow> I (snd (fn n t e s))) \<Longrightarrow> I s \<Longrightarrow> I (snd (walkDir fn name t s))"
  "(\<And>n t e s. I s \<Longrightarrow> I (snd (fn n t e s))) \<Longrightarrow> I s \<Longrightarrow> I (snd (walkEntries fn name ds s))"
proof (induction fn name t s and fn name ds s rule: walkDir_walkEntries.induct)
  case (2 fn name e ds s)
  let ?v = "fn name (Some (Folder e ds))"
  obtain o1 s1 where v1: "?v None s = (o1, s1)" by fastforce
  then have s1: "I s1" using 2(3) [of s] 2(4) by (metis snd_conv)
  show ?case
  proof (cases o1)
    case None
    show ?thesis
    proof (cases e)
      case None
      with 2(1) [OF v1 [symmetric] \<open>o1 = None\<close> None 2(3) s1] v1 \<open>o1 = None\<close> show ?thesis by simp
    next
      case (Some we)
      obtain o2 s2 where v2: "?v (Some we) s1 = (o2, s2)" by fastforce
      then have s2: "I s2" using 2(3) [of s1] s1 by (metis snd_conv)
      show ?thesis
      proof (cases o2)
        case None
        with 2(2) [OF v1 [symmetric] \<open>o1 = None\<close> Some v2 [symmetric] None 2(3) s2] v1 v2 Some \<open>o1 = None\<close>
        show ?thesis by simp
      qed (use v1 v2 s2 Some \<open>o1 = None\<close> in \<open>auto split: stop.split\<close>)
    qed
  qed (use v1 s1 in \<open>auto split: stop.split\<close>)
next
  case (4 fn name d ds s)
  obtain o1 s1 where w: "walkDir fn (Join [name, fst d]) (snd d) s = (o1, s1)" by fastforce
  with 4(1) 4(3,4) have s1: "I s1" by (metis snd_conv)
  show ?case using w s1 4(2) [OF w [symmetric] _ 4(3) s1] by (auto split: option.split stop.split)
qed auto

text \<open>A visitor that works on an abstraction of another's state walks the same way.\<close>

lemma walk_sim:
  "(\<And>n t e s. f n t e (h s) = map_prod id h (g n t e s)) \<Longrightarrow>
     walkDir f name t (h s) = map_prod id h (walkDir g name t s)"
  "(\<And>n t e s. f n t e (h s) = map_prod id h (g n t e s)) \<Longrightarrow>
     walkEntries f name ds (h s) = map_prod id h (walkEntries g name ds s)"
proof (induction g name t s and g name ds s rule: walkDir_walkEntries.induct)
  case (1 g name i s)
  then show ?case by simp
next
  case (2 g name e ds s)
  let ?v = "g name (Some (Folder e ds))"
  obtain o1 s1 where v1: "?v None s = (o1, s1)" by fastforce
  show ?case
  proof (cases o1)
    case None
    show ?thesis
    proof (cases e)
      case None
      with 2(1) [OF v1 [symmetric] \<open>o1 = None\<close> None 2(3)] v1 \<open>o1 = None\<close> 2(3) show ?thesis by simp
    next
      case (Some we)
      obtain o2 s2 where v2: "?v (Some we) s1 = (o2, s2)" by fastforce
      show ?thesis
      proof (cases o2)
        case None
        with 2(2) [OF v1 [symmetric] \<open>o1 = None\<close> Some v2 [symmetric] None 2(3)] v1 v2 Some \<open>o1 = None\<close> 2(3)
        show ?thesis by simp
      qed (use v1 v2 Some \<open>o1 = None\<close> 2(3) in \<open>simp split: stop.split\<close>)
    qed
  qed (use v1 2(3) in \<open>simp split: stop.split\<close>)
next
  case (3 g name s)
  then show ?case by simp
next
  case (4 g name d ds s)
  obtain o1 s1 where w: "walkDir g (Join [name, fst d]) (snd d) s = (o1, s1)" by fastforce
  with 4(1) [OF 4(3)] 4(2) [OF w [symmetric] _ 4(3)] show ?case by (simp split: option.split stop.split)
qed

lemma WalkDir_sim:
  assumes "\<And>n t e s. f n t e (h s) = map_prod id h (g n t e s)"
  shows "WalkDir f root t (h s) = map_prod id h (WalkDir g root t s)"
proof -
  have "walkDir f root d (h s) = map_prod id h (walkDir g root d s)" for d
    by (rule walk_sim(1)) (rule assms)
  then show ?thesis by (simp add: WalkDir_def assms split: sum.split prod.split option.split stop.split)
qed

subsection \<open>json.Unmarshal\<close>

fun lenient_members :: "'s field list \<Rightarrow> (bytes \<times> json) list \<Rightarrow> 's \<Rightarrow> 's" where
  "lenient_members fs [] s = s"
| "lenient_members fs ((k, v) # ms) s =
     lenient_members fs ms
       (case find_field fs (unquote k) of
          None \<Rightarrow> s
        | Some f \<Rightarrow> (case f v s of None \<Rightarrow> s | Some s' \<Rightarrow> s'))"

definition Unmarshal :: "'s field list \<Rightarrow> bytes \<Rightarrow> 's \<Rightarrow> 's" where
  "Unmarshal fs raw s = (case read_doc raw of Some (JObj ms) \<Rightarrow> lenient_members fs ms s | _ \<Rightarrow> s)"

lemma lenient_strict: "decode_members fs ms s = Some s' \<Longrightarrow> lenient_members fs ms s = s'"
  by (induction ms arbitrary: s) (auto split: option.splits)

text \<open>A pointer to a bool: null is nil.\<close>

definition f_bool_ptr :: "(bool option \<Rightarrow> 's \<Rightarrow> 's) \<Rightarrow> json \<Rightarrow> 's \<Rightarrow> 's option" where
  "f_bool_ptr upd v s = (case v of JBool b \<Rightarrow> Some (upd (Some b) s) | JNull \<Rightarrow> Some (upd None s) | _ \<Rightarrow> None)"

text \<open>
  A decoder without \<open>DisallowUnknownFields\<close>: unknown keys are skipped, a mismatch is an error.
  Nested structs keep what they hold; pointers to values are nil on null.
\<close>

fun loose_members :: "'s field list \<Rightarrow> (bytes \<times> json) list \<Rightarrow> 's \<Rightarrow> 's option" where
  "loose_members fs [] s = Some s"
| "loose_members fs ((k, v) # ms) s =
     (case find_field fs (unquote k) of
        None \<Rightarrow> loose_members fs ms s
      | Some f \<Rightarrow> (case f v s of None \<Rightarrow> None | Some s' \<Rightarrow> loose_members fs ms s'))"

definition decode_loose :: "'s field list \<Rightarrow> json \<Rightarrow> 's \<Rightarrow> 's option" where
  "decode_loose fs v s = (case v of JNull \<Rightarrow> Some s | JObj ms \<Rightarrow> loose_members fs ms s | _ \<Rightarrow> None)"

definition f_nested :: "(json \<Rightarrow> 'a \<Rightarrow> 'a option) \<Rightarrow> ('s \<Rightarrow> 'a) \<Rightarrow> ('a \<Rightarrow> 's \<Rightarrow> 's) \<Rightarrow> json \<Rightarrow> 's \<Rightarrow> 's option" where
  "f_nested dec get upd v s = map_option (\<lambda>a. upd a s) (dec v (get s))"

definition f_nested_ptr :: "(json \<Rightarrow> 'a \<Rightarrow> 'a option) \<Rightarrow> 'a \<Rightarrow> ('s \<Rightarrow> 'a option) \<Rightarrow> ('a option \<Rightarrow> 's \<Rightarrow> 's)
    \<Rightarrow> json \<Rightarrow> 's \<Rightarrow> 's option" where
  "f_nested_ptr dec zero get upd v s =
    (if v = JNull then Some (upd None s)
     else map_option (\<lambda>a. upd (Some a) s) (dec v (case get s of None \<Rightarrow> zero | Some a \<Rightarrow> a)))"

definition f_uint :: "(u64 \<Rightarrow> 's \<Rightarrow> 's) \<Rightarrow> json \<Rightarrow> 's \<Rightarrow> 's option" where
  "f_uint upd v s = (case v of
     JNum l \<Rightarrow> if l \<noteq> [] \<and> list_all is_digit l \<and> read_nat l < 2 ^ 64 then Some (upd (of_nat (read_nat l)) s) else None
   | JNull \<Rightarrow> Some s | _ \<Rightarrow> None)"

definition f_string_ptr :: "(bytes option \<Rightarrow> 's \<Rightarrow> 's) \<Rightarrow> json \<Rightarrow> 's \<Rightarrow> 's option" where
  "f_string_ptr upd v s = (case v of JStr b \<Rightarrow> Some (upd (Some (unquote b)) s) | JNull \<Rightarrow> Some (upd None s) | _ \<Rightarrow> None)"

definition f_int_ptr :: "(int option \<Rightarrow> 's \<Rightarrow> 's) \<Rightarrow> json \<Rightarrow> 's \<Rightarrow> 's option" where
  "f_int_ptr upd v s = (case v of
     JNum l \<Rightarrow> map_option (\<lambda>i. upd (Some i) s) (int_literal l) | JNull \<Rightarrow> Some (upd None s) | _ \<Rightarrow> None)"

text \<open>\<open>*float64\<close>: \<open>to_float\<close> is the shortest text of the number nearest to a literal, if in range.\<close>

definition f_float_ptr :: "(bytes \<Rightarrow> bytes option) \<Rightarrow> (bytes option \<Rightarrow> 's \<Rightarrow> 's) \<Rightarrow> json \<Rightarrow> 's \<Rightarrow> 's option" where
  "f_float_ptr to_float upd v s = (case v of
     JNum l \<Rightarrow> map_option (\<lambda>t. upd (Some t) s) (to_float l) | JNull \<Rightarrow> Some (upd None s) | _ \<Rightarrow> None)"

text \<open>\<open>strconv.ParseInt(s, 10, 64)\<close>.\<close>

definition parse_int64 :: "bytes \<Rightarrow> int option" where
  "parse_int64 l =
     (let (neg, ds) = (case l of c # r \<Rightarrow> if c = CHR ''-'' then (True, r) else if c = CHR ''+'' then (False, r)
                          else (False, l) | [] \<Rightarrow> (False, []));
          i = (if neg then - int (read_nat ds) else int (read_nat ds))
      in if ds \<noteq> [] \<and> list_all is_digit ds \<and> i64_range i then Some i else None)"

end
