(* ===== verification/Tools.thy ===== *)
theory Tools
  imports Action Gofs
begin

text \<open>
  \<open>internal/tools/tools.go\<close>: the tools \<open>list\<close>, \<open>read\<close> and \<open>search\<close>. A \<open>tool_world\<close> answers
  for everything outside: \<open>w_ctx k\<close> is \<open>ctx.Err()\<close> at the \<open>k\<close>-th check, \<open>w_snap k\<close> the tree
  below the scoped root at the \<open>k\<close>-th look, \<open>w_stat\<close> a failing \<open>Stat\<close> of an opened file,
  \<open>w_fault\<close> whether reading it fails after its bytes, \<open>w_tree\<close> the tree as a walk meets it. A
  compiled regular expression is the predicate \<open>MatchString\<close>; \<open>w_regex p\<close> is None when
  \<open>regexp.Compile\<close> rejects \<open>p\<close>. An \<open>Execute\<close> that panics has the value None.
\<close>

record tool_world =
  w_ctx :: "nat \<Rightarrow> ctx_error option"
  w_snap :: "nat \<Rightarrow> snapshot"
  w_stat :: "nat \<Rightarrow> ws_error option"
  w_fault :: "nat \<Rightarrow> bool"
  w_tree :: "bytes \<Rightarrow> (ws_error, tree) result"
  w_regex :: "bytes \<Rightarrow> (bytes \<Rightarrow> bool) option"

definition maxResultBytes :: nat where "maxResultBytes = 64 * 1024"

definition open_at :: "tool_world \<Rightarrow> nat \<Rightarrow> bytes \<Rightarrow> (ws_error, node) result \<times> bytes" where
  "open_at w k name = OpenFile (w_snap w k) (w_snap w (k + 1)) (w_snap w (k + 2)) name"

subsection \<open>Errors and arguments\<close>

definition toolError :: "go_error \<Rightarrow> execution" where
  "toolError e = \<lparr>x_outcome = ToolResultError, x_content =
     (case e of
        WsErr ErrEscape \<Rightarrow> ''path is outside the workspace or crosses a disallowed symlink''
      | WsErr NotExist \<Rightarrow> ''path does not exist''
      | WsErr Permission \<Rightarrow> ''path is unreadable''
      | _ \<Rightarrow> ''workspace read failed'')\<rparr>"

definition cancelled :: execution where
  "cancelled = \<lparr>x_outcome = ToolResultCancelled, x_content = ''tool call cancelled''\<rparr>"

definition tool_failure :: "bytes \<Rightarrow> execution" where
  "tool_failure text = \<lparr>x_outcome = ToolResultError, x_content = text\<rparr>"

definition tool_success :: "bytes \<Rightarrow> execution" where
  "tool_success text = \<lparr>x_outcome = ToolResultSuccess, x_content = text\<rparr>"

definition ws_text :: "ws_error \<Rightarrow> bytes" where
  "ws_text e = ''workspace: path escapes workspace''"

text \<open>\<open>dec.More()\<close> after the first value: something follows that closes nothing.\<close>

definition decodeArgs :: "'a field list \<Rightarrow> 'a \<Rightarrow> bytes \<Rightarrow> (bytes, 'a) result" where
  "decodeArgs fds zero raw =
    (if raw = [] \<or> \<not> json_valid raw then Inl ''arguments must be a JSON object''
     else (case read_first raw of
       None \<Rightarrow> Inl ''arguments do not match the tool schema''
     | Some (v, rest) \<Rightarrow>
        (case decode_struct fds v zero of
           None \<Rightarrow> Inl ''arguments do not match the tool schema''
         | Some args \<Rightarrow>
            (case skip_ws rest of
               [] \<Rightarrow> Inr args
             | c # _ \<Rightarrow> if c = CHR '']'' \<or> c = CHR ''}'' then Inr args
                 else Inl ''arguments contain trailing data''))))"

record read_args =
  ra_path :: bytes
  ra_start :: int
  ra_end :: int

definition read_zero :: read_args where
  "read_zero = \<lparr>ra_path = [], ra_start = 0, ra_end = 0\<rparr>"

definition read_fields :: "read_args field list" where
  "read_fields = [(''path'', f_string (\<lambda>s a. a\<lparr>ra_path := s\<rparr>)),
     (''start_line'', f_int (\<lambda>i a. a\<lparr>ra_start := i\<rparr>)), (''end_line'', f_int (\<lambda>i a. a\<lparr>ra_end := i\<rparr>))]"

definition read_json :: "read_args \<Rightarrow> json" where
  "read_json a = JObj ([(''path'', jstring (ra_path a))] @
     (if ra_start a \<noteq> 0 then [(''start_line'', jint (ra_start a))] else []) @
     (if ra_end a \<noteq> 0 then [(''end_line'', jint (ra_end a))] else []))"

record list_args =
  la_path :: bytes
  la_recursive :: "bool option"
  la_after :: bytes

definition list_zero :: list_args where
  "list_zero = \<lparr>la_path = [], la_recursive = None, la_after = []\<rparr>"

definition list_fields :: "list_args field list" where
  "list_fields = [(''path'', f_string (\<lambda>s a. a\<lparr>la_path := s\<rparr>)),
     (''recursive'', f_bool_ptr (\<lambda>b a. a\<lparr>la_recursive := b\<rparr>)), (''after'', f_string (\<lambda>s a. a\<lparr>la_after := s\<rparr>))]"

definition list_json :: "list_args \<Rightarrow> json" where
  "list_json a = JObj ((if la_path a \<noteq> [] then [(''path'', jstring (la_path a))] else []) @
     (case la_recursive a of None \<Rightarrow> [] | Some b \<Rightarrow> [(''recursive'', JBool b)]) @
     (if la_after a \<noteq> [] then [(''after'', jstring (la_after a))] else []))"

record search_args =
  sa_pattern :: bytes
  sa_path :: bytes

definition search_zero :: search_args where
  "search_zero = \<lparr>sa_pattern = [], sa_path = []\<rparr>"

definition search_fields :: "search_args field list" where
  "search_fields = [(''pattern'', f_string (\<lambda>s a. a\<lparr>sa_pattern := s\<rparr>)),
     (''path'', f_string (\<lambda>s a. a\<lparr>sa_path := s\<rparr>))]"

definition search_json :: "search_args \<Rightarrow> json" where
  "search_json a = JObj ([(''pattern'', jstring (sa_pattern a))] @
     (if sa_path a \<noteq> [] then [(''path'', jstring (sa_path a))] else []))"

subsection \<open>read\<close>

definition read_definition :: tool_definition where
  "read_definition = \<lparr>td_name = ''read'',
     td_description = ''Read a UTF-8 workspace file with stable line numbers. Paths must be workspace-relative.'',
     td_schema = ''{\"type\":\"object\",\"additionalProperties\":false,\"required\":[\"path\"],\"properties\":{\"path\":{\"type\":\"string\"},\"start_line\":{\"type\":\"integer\",\"minimum\":1},\"end_line\":{\"type\":\"integer\",\"minimum\":1}}}''\<rparr>"

definition read_effective :: "read_args \<Rightarrow> read_args" where
  "read_effective a = (if ra_start a = 0 then a\<lparr>ra_start := 1\<rparr> else a)"

definition readPrepare :: "bytes \<Rightarrow> (bytes, prepared) result" where
  "readPrepare raw =
    (case decodeArgs read_fields read_zero raw of
       Inl e \<Rightarrow> Inl e
     | Inr args \<Rightarrow>
        if ra_path args = [] then Inl ''path is required''
        else (case ws_clean (ra_path args) of
          Inl e \<Rightarrow> Inl (ws_text e)
        | Inr clean \<Rightarrow>
           (let args = read_effective args in
            if ra_end args \<noteq> 0 \<and> ra_end args < ra_start args then Inl ''end_line is before start_line''
            else Inr \<lparr>p_tool = ''read'', p_args = wr (read_json args), p_effects = [EffectRead],
                      p_paths = [clean]\<rparr>)))"

definition read_finish :: "bool \<Rightarrow> bool \<Rightarrow> nat \<Rightarrow> bytes \<Rightarrow> execution" where
  "read_finish failed truncated lineNo out =
    (if failed then tool_failure ''file contains an oversized line or could not be read''
     else (let out = (if truncated then out @ ''[truncated=true; continue with start_line='' @ show_nat lineNo @ '']''
                      else out)
       in tool_success (trim_suffix newline out)))"

definition read_entry :: "nat \<Rightarrow> bytes \<Rightarrow> bytes" where
  "read_entry n line = show_nat n @ '': '' @ line @ newline"

text \<open>
  The scanning loop: the tokens still to come, each with whether the scanner has an error once
  it is read, the error at the end, the line number, the redactor, the output and its count.
\<close>

fun read_loop :: "(nat \<Rightarrow> ctx_error option) \<Rightarrow> read_args \<Rightarrow> (bytes \<times> bool) list \<Rightarrow> bool
    \<Rightarrow> nat \<Rightarrow> bool \<Rightarrow> bytes \<Rightarrow> nat \<Rightarrow> execution" where
  "read_loop ctx a [] failed n key out written = read_finish failed False n out"
| "read_loop ctx a ((line, now_failed) # ts) failed n key out written =
    (if ctx n \<noteq> None then cancelled
     else if \<not> IsText line then tool_failure ''binary or invalid UTF-8 file is not readable''
     else (let n = Suc n; (key, projected, _) = lr_redact NewDetector key line in
       if int n < ra_start a then read_loop ctx a ts failed n key out written
       else if ra_end a \<noteq> 0 \<and> int n > ra_end a then read_finish now_failed False n out
       else (let entry = read_entry n projected in
         if written \<ge> 1000 \<or> length out + length entry > maxResultBytes
         then read_finish now_failed True n out
         else read_loop ctx a ts failed n key (out @ entry) (Suc written))))"

text \<open>
  A protected file is hashed in chunks of 32 KiB, the context checked before each read; the
  last read finds the end (or the fault).
\<close>

definition hash_file :: "stdlib \<Rightarrow> (nat \<Rightarrow> ctx_error option) \<Rightarrow> bool \<Rightarrow> bytes \<Rightarrow> nat \<Rightarrow> bytes \<Rightarrow> execution" where
  "hash_file lib ctx fault clean mode data =
    (if list_ex (\<lambda>k. ctx k \<noteq> None) [0 ..< (length data + 32767) div 32768 + 1] then cancelled
     else if fault then toolError (WsErr IoError)
     else tool_success (ProtectedProjectionDigest clean (int (length data)) (mode_text mode) (sha256_hex lib data)))"

definition readExecute :: "stdlib \<Rightarrow> tool_world \<Rightarrow> prepared \<Rightarrow> execution" where
  "readExecute lib w p =
    (let args = Unmarshal read_fields (p_args p) read_zero in
     case open_at w 0 (ra_path args) of
       (Inl e, _) \<Rightarrow> toolError (WsErr e)
     | (Inr n, clean) \<Rightarrow>
        (case w_stat w 0 of
           Some e \<Rightarrow> toolError (WsErr e)
         | None \<Rightarrow>
            (case n_kind n of
               File data \<Rightarrow>
                 if ProtectedPath clean then hash_file lib (w_ctx w) (w_fault w 0) clean (n_mode n) data
                 else (let (ts, failed) = scan (w_fault w 0) data
                       in read_loop (w_ctx w) args ts failed 0 False [] 0)
             | _ \<Rightarrow> tool_failure ''read target is not a regular file'')))"

subsection \<open>list\<close>

definition list_definition :: tool_definition where
  "list_definition = \<lparr>td_name = ''list'',
     td_description = ''List workspace-relative repository paths in deterministic lexical order.'',
     td_schema = ''{\"type\":\"object\",\"additionalProperties\":false,\"properties\":{\"path\":{\"type\":\"string\"},\"recursive\":{\"type\":\"boolean\"},\"after\":{\"type\":\"string\"}}}''\<rparr>"

definition default_path :: "bytes \<Rightarrow> bytes" where
  "default_path p = (if p = [] then ''.'' else p)"

definition listPrepare :: "bytes \<Rightarrow> (bytes, prepared) result" where
  "listPrepare raw =
    (case decodeArgs list_fields list_zero raw of
       Inl e \<Rightarrow> Inl e
     | Inr args \<Rightarrow>
        (case ws_clean (default_path (la_path args)) of
          Inl e \<Rightarrow> Inl (ws_text e)
        | Inr clean \<Rightarrow>
           if la_after args \<noteq> [] \<and> \<not> is_ok (ws_clean (la_after args))
           then Inl ''after must be a workspace-relative path''
           else Inr \<lparr>p_tool = ''list'', p_args = wr (list_json (args\<lparr>la_path := clean\<rparr>)),
                     p_effects = [EffectRead], p_paths = [clean]\<rparr>))"

definition listed :: "bytes \<Rightarrow> bytes \<Rightarrow> bool" where
  "listed after name \<longleftrightarrow> after < name"

definition list_entry :: "bytes \<Rightarrow> bool \<Rightarrow> bytes" where
  "list_entry name dir = (if dir then name @ ''/'' else name)"

text \<open>The callback of the walk; its state is the number of context checks and the entries.\<close>

definition list_visit :: "tool_world \<Rightarrow> bytes \<Rightarrow> bool \<Rightarrow> bytes \<Rightarrow> (nat \<times> bytes list) visitor" where
  "list_visit w root recursive after name0 entry err st =
    (let (k, entries) = st in
     case w_ctx w k of
       Some e \<Rightarrow> (Some (Failed (CtxErr e)), (Suc k, entries))
     | None \<Rightarrow>
        (case err of
           Some e \<Rightarrow> (Some (Failed (WsErr e)), (Suc k, entries))
         | None \<Rightarrow>
            (let name = Clean name0; dir = is_dir (the entry);
                 entries = (if name \<noteq> root \<and> listed after name then entries @ [list_entry name dir] else entries)
             in (if dir \<and> name \<noteq> root \<and> (ProtectedPath name \<or> \<not> recursive) then Some SkipDir else None,
                 (Suc k, entries)))))"

text \<open>
  One page: the lines that fit and, when something is left, the entry before it. \<open>entries[i-1]\<close>
  panics for a first line that does not fit: \<open>None\<close> as the previous entry.
\<close>

fun list_page :: "nat \<Rightarrow> bytes \<Rightarrow> bytes option \<Rightarrow> bytes list \<Rightarrow> bytes \<times> bytes option option" where
  "list_page i out prev [] = (out, None)"
| "list_page i out prev (e # es) =
     (if i \<ge> 2000 \<or> length out + length (e @ newline) > maxResultBytes then (out, Some prev)
      else list_page (Suc i) (out @ e @ newline) (Some e) es)"

definition walk_failure :: "go_error \<Rightarrow> execution" where
  "walk_failure e = (if e = CtxErr Canceled then cancelled else toolError e)"

definition listExecute :: "stdlib \<Rightarrow> tool_world \<Rightarrow> prepared \<Rightarrow> execution option" where
  "listExecute lib w p =
    (let args = Unmarshal list_fields (p_args p) list_zero in
     if w_ctx w 0 \<noteq> None then Some cancelled
     else (case open_at w 0 (la_path args) of
       (Inl e, _) \<Rightarrow> Some (toolError (WsErr e))
     | (Inr _, _) \<Rightarrow>
        (let recursive = (case la_recursive args of None \<Rightarrow> True | Some b \<Rightarrow> b) in
         case WalkDir (list_visit w (la_path args) recursive (la_after args)) (la_path args)
                (w_tree w (la_path args)) (1, []) of
           (Some e, _) \<Rightarrow> Some (walk_failure e)
         | (None, (_, entries)) \<Rightarrow>
            (case list_page 0 [] None (sort entries) of
               (out, None) \<Rightarrow> Some (tool_success (trim_suffix newline out))
             | (out, Some None) \<Rightarrow> None
             | (out, Some (Some next)) \<Rightarrow> Some (tool_success (trim_suffix newline
                 (out @ ''[truncated=true; continue with after='' @ go_quote lib next @ '']'')))))))"

subsection \<open>search\<close>

definition search_definition :: tool_definition where
  "search_definition = \<lparr>td_name = ''search'',
     td_description = ''Search UTF-8 workspace files using Go regular expressions; results include path and line number.'',
     td_schema = ''{\"type\":\"object\",\"additionalProperties\":false,\"required\":[\"pattern\"],\"properties\":{\"pattern\":{\"type\":\"string\"},\"path\":{\"type\":\"string\"}}}''\<rparr>"

definition searchPrepare :: "tool_world \<Rightarrow> bytes \<Rightarrow> (bytes, prepared) result" where
  "searchPrepare w raw =
    (case decodeArgs search_fields search_zero raw of
       Inl e \<Rightarrow> Inl e
     | Inr args \<Rightarrow>
        if sa_pattern args = [] then Inl ''pattern is required''
        else if w_regex w (sa_pattern args) = None then Inl ''pattern is not a valid Go regular expression''
        else (case ws_clean (default_path (sa_path args)) of
          Inl e \<Rightarrow> Inl (ws_text e)
        | Inr clean \<Rightarrow> Inr \<lparr>p_tool = ''search'', p_args = wr (search_json (args\<lparr>sa_path := clean\<rparr>)),
                     p_effects = [EffectRead], p_paths = [clean]\<rparr>))"

record search_state =
  ss_tick :: nat
  ss_out :: bytes
  ss_matches :: nat
  ss_truncated :: bool
  ss_protected :: nat
  ss_nontext :: nat

definition search_start :: search_state where
  "search_start = \<lparr>ss_tick = 1, ss_out = [], ss_matches = 0, ss_truncated = False, ss_protected = 0, ss_nontext = 0\<rparr>"

definition search_entry :: "bytes \<Rightarrow> nat \<Rightarrow> bytes \<Rightarrow> bytes" where
  "search_entry name n projected = name @ '':'' @ show_nat n @ '': '' @ TrimSpace projected @ newline"

text \<open>The lines of one file.\<close>

fun search_lines :: "(nat \<Rightarrow> ctx_error option) \<Rightarrow> (bytes \<Rightarrow> bool) \<Rightarrow> bytes \<Rightarrow> (bytes \<times> bool) list \<Rightarrow> bool \<Rightarrow> nat \<Rightarrow> bool
    \<Rightarrow> search_state \<Rightarrow> stop option \<times> search_state" where
  "search_lines ctx re name [] failed n key s = (if failed then Some (Failed ScanErr) else None, s)"
| "search_lines ctx re name ((line, _) # ts) failed n key s =
    (let k = ss_tick s; s = s\<lparr>ss_tick := Suc k\<rparr> in
     case ctx k of
       Some e \<Rightarrow> (Some (Failed (CtxErr e)), s)
     | None \<Rightarrow>
        if \<not> IsText line then (None, s\<lparr>ss_nontext := ss_nontext s + 1\<rparr>)
        else (let n = Suc n; (key, projected, _) = lr_redact NewDetector key line in
          if \<not> re projected then search_lines ctx re name ts failed n key s
          else (let entry = search_entry name n projected in
            if ss_matches s \<ge> 200 \<or> length (ss_out s) + length entry > maxResultBytes
            then (Some SkipAll, s\<lparr>ss_truncated := True\<rparr>)
            else search_lines ctx re name ts failed n key
                   (s\<lparr>ss_out := ss_out s @ entry, ss_matches := ss_matches s + 1\<rparr>))))"

text \<open>What reading an opened node gives: the bytes of a file; a directory cannot be read.\<close>

definition node_data :: "node \<Rightarrow> bytes option" where
  "node_data n = (case n_kind n of File data \<Rightarrow> Some data | _ \<Rightarrow> None)"

definition search_file :: "tool_world \<Rightarrow> (bytes \<Rightarrow> bool) \<Rightarrow> bytes \<Rightarrow> search_state \<Rightarrow> stop option \<times> search_state" where
  "search_file w re name s =
    (let k = ss_tick s; s = s\<lparr>ss_tick := k + 3\<rparr> in
     case open_at w k name of
       (Inl e, _) \<Rightarrow> (Some (Failed (WsErr e)), s)
     | (Inr n, _) \<Rightarrow>
        (let (ts, failed) = (case node_data n of Some data \<Rightarrow> scan (w_fault w k) data | None \<Rightarrow> scan True [])
         in search_lines (w_ctx w) re name ts failed 0 False s))"

definition search_visit :: "tool_world \<Rightarrow> (bytes \<Rightarrow> bool) \<Rightarrow> bytes \<Rightarrow> search_state visitor" where
  "search_visit w re root name0 entry err s =
    (let k = ss_tick s; s = s\<lparr>ss_tick := Suc k\<rparr> in
     case w_ctx w k of
       Some e \<Rightarrow> (Some (Failed (CtxErr e)), s)
     | None \<Rightarrow>
        (case err of
           Some e \<Rightarrow> (Some (Failed (WsErr e)), s)
         | None \<Rightarrow>
            (let name = Clean name0 in
             case the entry of
               Folder _ _ \<Rightarrow>
                 if name \<noteq> root \<and> ProtectedPath name
                 then (Some SkipDir, s\<lparr>ss_protected := ss_protected s + 1\<rparr>) else (None, s)
             | Entry info \<Rightarrow>
                 if ProtectedPath name then (None, s\<lparr>ss_protected := ss_protected s + 1\<rparr>)
                 else (case info of
                    Inl e \<Rightarrow> (Some (Failed (WsErr e)), s)
                  | Inr regular \<Rightarrow>
                     if \<not> regular then (None, s\<lparr>ss_nontext := ss_nontext s + 1\<rparr>)
                     else search_file w re name s))))"

definition search_notices :: "search_state \<Rightarrow> bytes" where
  "search_notices s =
     (if ss_protected s > 0 then ''[protected_paths_skipped='' @ show_nat (ss_protected s) @ '']'' @ newline else []) @
     (if ss_nontext s > 0 then ''[binary_or_nonregular_paths_skipped='' @ show_nat (ss_nontext s) @ '']'' @ newline else []) @
     (if ss_truncated s then ''[truncated=true; narrow the path or pattern]'' @ newline else [])"

definition searchExecute :: "tool_world \<Rightarrow> prepared \<Rightarrow> execution option" where
  "searchExecute w p =
    (let args = Unmarshal search_fields (p_args p) search_zero in
     if w_ctx w 0 \<noteq> None then Some cancelled
     else (case open_at w 0 (sa_path args) of
       (Inl e, _) \<Rightarrow> Some (toolError (WsErr e))
     | (Inr _, _) \<Rightarrow>
        (case w_regex w (sa_pattern args) of
           None \<Rightarrow> None
         | Some re \<Rightarrow>
            (case WalkDir (search_visit w re (sa_path args)) (sa_path args) (w_tree w (sa_path args))
                    search_start of
               (Some e, _) \<Rightarrow> Some (walk_failure e)
             | (None, s) \<Rightarrow> Some (tool_success (trim_suffix newline (ss_out s @ search_notices s)))))))"

subsection \<open>The catalog\<close>

text \<open>
  The three tools as the broker holds them. A context that is done when the broker calls is
  done at every check of the call; an \<open>Execute\<close> that panics returns no value.
\<close>

definition NewCatalog :: "stdlib \<Rightarrow> tool_world \<Rightarrow> tool list" where
  "NewCatalog lib w =
    (let at_call = (\<lambda>stopped. if stopped then w\<lparr>w_ctx := \<lambda>_. Some Canceled\<rparr> else w) in
     [\<lparr>tl_definition = list_definition, tl_prepare = (\<lambda>_. listPrepare),
       tl_execute = (\<lambda>stopped p. the (listExecute lib (at_call stopped) p))\<rparr>,
      \<lparr>tl_definition = read_definition, tl_prepare = (\<lambda>_. readPrepare),
       tl_execute = (\<lambda>stopped p. readExecute lib (at_call stopped) p)\<rparr>,
      \<lparr>tl_definition = search_definition, tl_prepare = (\<lambda>_. searchPrepare w),
       tl_execute = (\<lambda>stopped p. the (searchExecute (at_call stopped) p))\<rparr>])"

end
