(* ===== verification/Utf8.thy ===== *)
theory Utf8
  imports Dataproj
begin

text \<open>
  Valid UTF-8 and the operations on names: the strings a JSON literal stands for are valid,
  cutting valid text at an ASCII byte and joining pieces keeps it valid, and so does \<open>Clean\<close>.
  With it a path survives being written as JSON and read back.
\<close>


lemma base64_split: "(r :: nat) = r div 4096 * 4096 + r div 64 mod 64 * 64 + r mod 64"
proof -
  have "r div 64 = 64 * (r div 4096) + r div 64 mod 64" using div_mult2_eq [of r 64 64] by simp
  moreover have "r = 64 * (r div 64) + r mod 64" by simp
  ultimately show ?thesis by linarith
qed

lemma utf8_encode_size:
  assumes "r < 1114112" "\<not> is_surrogate r"
  shows "rune_size (utf8_encode r @ t) = length (utf8_encode r)"
proof -
  consider "r < 128" | "128 \<le> r" "r < 2048" | "2048 \<le> r" "r < 65536" | "65536 \<le> r" by linarith
  then show ?thesis
  proof cases
    case 1
    then show ?thesis by (simp add: utf8_encode_def rune_size_def)
  next
    case 2
    define a b where ab: "a = r div 64" "b = r mod 64"
    have r: "r = a * 64 + b" "b < 64" unfolding ab by simp_all
    have a: "2 \<le> a" "a < 32" using r 2 by linarith+
    have "utf8_encode r = [char_of (192 + a), char_of (128 + b)]" using 2 by (simp add: utf8_encode_def ab)
    then show ?thesis using a r(2) by (simp add: rune_size_def byte_in_def is_cont_def)
  next
    case 3
    have s: "r < 55296 \<or> 57344 \<le> r" using assms(2) by (auto simp: is_surrogate_def)
    define a b c where abc: "a = r div 4096" "b = r div 64 mod 64" "c = r mod 64"
    have r: "r = a * 4096 + b * 64 + c" "b < 64" "c < 64"
      using base64_split [of r] unfolding abc by simp_all
    have a: "a < 16" "a = 0 \<Longrightarrow> 32 \<le> b" "a = 13 \<Longrightarrow> b < 32" using r 3 s by linarith+
    have "utf8_encode r = [char_of (224 + a), char_of (128 + b), char_of (128 + c)]"
      using 3 by (simp add: utf8_encode_def abc)
    then show ?thesis using a r(2,3) by (auto simp: rune_size_def byte_in_def is_cont_def)
  next
    case 4
    define a b c d where abc: "a = r div 262144" "b = r div 4096 mod 64" "c = r div 64 mod 64" "d = r mod 64"
    have "r div 64 = a * 4096 + b * 64 + c"
      using base64_split [of "r div 64"] div_mult2_eq [of r 64 4096] div_mult2_eq [of r 64 64] unfolding abc by simp
    moreover have "r = 64 * (r div 64) + d" unfolding abc by simp
    ultimately have "r = 64 * (a * 4096 + b * 64 + c) + d" by metis
    then have r: "r = a * 262144 + b * 4096 + c * 64 + d" by simp
    have l: "b < 64" "c < 64" "d < 64" unfolding abc by simp_all
    have a: "a < 5" "a = 0 \<Longrightarrow> 16 \<le> b" "a = 4 \<Longrightarrow> b < 16" using r l 4 assms(1) by linarith+
    have "utf8_encode r = [char_of (240 + a), char_of (128 + b), char_of (128 + c), char_of (128 + d)]"
      using 4 by (simp add: utf8_encode_def abc)
    then show ?thesis using a l by (auto simp: rune_size_def byte_in_def is_cont_def)
  qed
qed

lemma utf8_encode_valid:
  assumes "r < 1114112" "\<not> is_surrogate r" "utf8_valid t"
  shows "utf8_valid (utf8_encode r @ t)"
proof -
  have "utf8_valid (take (length (utf8_encode r)) (utf8_encode r @ t) @ t)"
    by (rule utf8_valid_rune [OF utf8_encode_size [OF assms(1,2)]]) (auto simp: utf8_encode_def assms(3))
  then show ?thesis by simp
qed

lemma hex_val_less: "hex_val c = Some v \<Longrightarrow> v < 16"
  by (auto simp: hex_val_def is_digit_def byte_in_def split: if_splits)

lemma get_u4_less: "get_u4 s = Some r \<Longrightarrow> r < 65536"
  by (auto simp: get_u4_def split: list.splits option.splits dest!: hex_val_less)

lemma surrogate_pair_less: "surrogate_pair a b = Some q \<Longrightarrow> q < 1114112 \<and> \<not> is_surrogate q"
  by (auto simp: surrogate_pair_def is_surrogate_def split: if_splits)

lemma utf8_valid_ascii: "ord_of c < 128 \<Longrightarrow> utf8_valid (c # s) = utf8_valid s"
  by simp

lemma utf8_replacement: "utf8_valid t \<Longrightarrow> utf8_valid (replacement @ t)"
  using utf8_valid_rune [of replacement 3 t]
  by (simp add: replacement_def rune_size_def byte_in_def is_cont_def)

lemma str_ok_drop: "str_ok b \<Longrightarrow> \<forall>c \<in> set (take k b). 128 \<le> ord_of c \<Longrightarrow> str_ok (drop k b)"
proof (induction k arbitrary: b)
  case (Suc k)
  then show ?case
  proof (cases b)
    case (Cons c s)
    with Suc.prems have "128 \<le> ord_of c" by simp
    then have "c \<noteq> CHR 0x5C" by auto
    with Suc Cons str_ok_Cons [of c s] show ?thesis by auto
  qed simp
qed simp

text \<open>The string of an accepted literal is valid UTF-8.\<close>

lemma unquote_uni:
  assumes "length h = 4" "\<forall>t. get_u4 (h @ t) = Some w" "str_ok b"
    and IH: "\<And>x. length x \<le> length b \<Longrightarrow> str_ok x \<Longrightarrow> utf8_valid (unquote x)"
  shows "utf8_valid (unquote (CHR 0x5C # CHR ''u'' # h @ b))"
proof -
  have w: "w < 65536" using assms(2) get_u4_less by blast
  have b: "utf8_valid (unquote b)" using IH assms(3) by simp
  have d: "drop 10 (h @ b) = drop 6 b" "drop 6 (h @ b) = drop 2 b" "drop 4 (h @ b) = b"
    using assms(1) by simp_all
  have far: "utf8_valid (unquote (drop 6 b))" if p: "take 2 b = [CHR 0x5C, CHR ''u'']"
  proof -
    from p obtain b1 where b1: "b = CHR 0x5C # CHR ''u'' # b1"
      by (cases b; cases "tl b") (auto simp: numeral_2_eq_2)
    with assms(3) have "str_ok (CHR 0x5C # CHR ''u'' # b1)" by simp
    then obtain h' b' where "b1 = h' @ b'" "length h' = 4" "str_ok b'" by (rule str_ok_escape) auto
    then show ?thesis using IH [of b'] b1 by simp
  qed
  have "unquote (CHR 0x5C # CHR ''u'' # h @ b) =
    (if is_surrogate w then
       (case (if take 2 (drop 4 (h @ b)) = [CHR 0x5C, CHR ''u''] then get_u4 (drop 6 (h @ b)) else None) of
          None \<Rightarrow> replacement @ unquote (drop 4 (h @ b))
        | Some r2 \<Rightarrow> (case surrogate_pair w r2 of
            None \<Rightarrow> replacement @ unquote (drop 4 (h @ b))
          | Some q \<Rightarrow> utf8_encode q @ unquote (drop 10 (h @ b))))
     else utf8_encode w @ unquote (drop 4 (h @ b)))"
    using assms(2) by (subst unquote.simps(2)) (simp del: drop_append take_append split del: if_split)
  note eq = this [unfolded d]
  show ?thesis
  proof (cases "is_surrogate w")
    case False
    with eq b w show ?thesis by (simp add: utf8_encode_valid)
  next
    case True
    with eq b show ?thesis using far surrogate_pair_less
      by (auto simp: utf8_replacement intro!: utf8_encode_valid split: option.split)
  qed
qed

text \<open>The string of an accepted literal is valid UTF-8.\<close>

lemma utf8_valid_unquote: "str_ok b \<Longrightarrow> utf8_valid (unquote b)"
proof (induction "length b" arbitrary: b rule: less_induct)
  case less
  note IH = less.hyps [rotated]
  show ?case
  proof (cases b)
    case (Cons c s)
    note c = str_ok_Cons [OF less.prems [unfolded Cons]]
    consider "c = CHR 0x5C" | "c \<noteq> CHR 0x5C" "ord_of c < 128" | "c \<noteq> CHR 0x5C" "\<not> ord_of c < 128" by blast
    then show ?thesis
    proof cases
      case 1
      with less.prems Cons have "str_ok (CHR 0x5C # s)" by simp
      then show ?thesis
      proof (cases rule: str_ok_escape)
        case (1 e b')
        have "ord_of (simple_escape e) < 128"
          using 1(4) by (elim insertE emptyE) (simp_all add: simple_escape_def)
        moreover have "unquote b = simple_escape e # unquote b'" unfolding Cons 1(1) \<open>c = CHR 0x5C\<close> using 1(2) by simp
        moreover have "utf8_valid (unquote b')" using IH [OF 1(3)] unfolding Cons 1(1) by simp
        ultimately show ?thesis by (simp only: utf8_valid_ascii)
      next
        case (2 h b' w)
        have "utf8_valid (unquote (CHR 0x5C # CHR ''u'' # h @ b'))"
          by (rule unquote_uni [OF 2(2,3,4)]) (rule IH, use 2(1) Cons in simp_all)
        then show ?thesis using 2(1) Cons \<open>c = CHR 0x5C\<close> by simp
      qed
    next
      case 2
      with c IH [of s] Cons show ?thesis by (simp add: utf8_valid_ascii)
    next
      case 3
      let ?n = "rune_size (c # s)"
      show ?thesis
      proof (cases ?n)
        case 0
        with 3 c IH [of s] Cons show ?thesis by (simp add: unquote.simps(2) utf8_replacement)
      next
        case (Suc m)
        have "\<forall>x \<in> set (take ?n (c # s)). 128 \<le> ord_of x" using rune_high [of "c # s"] Suc 3 by simp
        then have "str_ok (drop ?n (c # s))" using str_ok_drop [of "c # s" ?n] less.prems Cons by simp
        then have "utf8_valid (unquote (drop m s))" using IH [of "drop m s"] Suc Cons by simp
        then have "utf8_valid (take ?n (c # s) @ unquote (drop m s))"
          using Suc by (intro utf8_valid_rune) simp_all
        with 3 Suc Cons show ?thesis by (simp add: unquote.simps(2))
      qed
    qed
  qed simp
qed

lemma utf8_valid_append: "utf8_valid a \<Longrightarrow> utf8_valid b \<Longrightarrow> utf8_valid (a @ b)"
proof (induction a rule: utf8_valid.induct)
  case (2 c s)
  let ?n = "rune_size (c # s)"
  have n: "?n \<noteq> 0" "utf8_valid (drop (?n - 1) s)" using 2(2) by auto
  from 2(1) [OF n(2) 2(3)] have "utf8_valid (drop (?n - 1) s @ b)" .
  then have "utf8_valid (take ?n (c # s) @ drop (?n - 1) s @ b)" using n(1) by (intro utf8_valid_rune [OF refl]) simp_all
  moreover have "take ?n (c # s) @ drop (?n - 1) s = c # s" using n(1) by (cases ?n) auto
  ultimately show ?case by (metis append.assoc)
qed simp

lemma rune_size_cut:
  assumes "ord_of d < 128" "rune_size (a @ d # b) = n" "a \<noteq> []"
  shows "n \<le> length a \<and> rune_size a = n"
proof -
  from assms(3) obtain c s where a: "a = c # s" by (cases a) auto
  have d: "\<not> is_cont d" "\<not> byte_in d 128 191" "\<not> byte_in d 160 191" "\<not> byte_in d 128 159" "\<not> byte_in d 144 191"
     "\<not> byte_in d 128 143"
    using assms(1) by (auto simp: is_cont_def byte_in_def)
  consider "s = []" | x where "s = [x]" | x y where "s = [x, y]" | x y z r where "s = x # y # z # r"
    by (metis neq_Nil_conv)
  then show ?thesis
    by cases (use assms(2) a d in \<open>auto simp: rune_size_def split: list.splits if_split_asm\<close>)
qed

text \<open>Cutting valid text at an ASCII byte leaves valid text on both sides.\<close>

lemma utf8_valid_cut:
  assumes "ord_of d < 128"
  shows "utf8_valid (a @ d # b) \<longleftrightarrow> utf8_valid a \<and> utf8_valid b"
proof (induction a rule: utf8_valid.induct)
  case 1
  show ?case using assms by simp
next
  case (2 c s)
  let ?n = "rune_size (c # s)"
  have n: "rune_size ((c # s) @ d # b) = ?n" "?n \<le> length (c # s)"
    using rune_size_cut [OF assms, of "c # s" b] by auto
  have "utf8_valid ((c # s) @ d # b) \<longleftrightarrow> ?n \<noteq> 0 \<and> utf8_valid (drop (?n - 1) (s @ d # b))"
    using n(1) by simp
  also have "drop (?n - 1) (s @ d # b) = drop (?n - 1) s @ d # b" using n(2) by (cases ?n) auto
  finally show ?case using 2 by auto
qed

lemma utf8_valid_split:
  "ord_of sep < 128 \<Longrightarrow> utf8_valid s \<longleftrightarrow> list_all utf8_valid (split_byte sep s)"
proof (induction "length s" arbitrary: s rule: less_induct)
  case less
  show ?case
  proof (cases "sep \<in> set s")
    case False
    then have "split_byte sep s = [s]" by (rule split_no_sep)
    then show ?thesis by simp
  next
    case True
    then obtain a b where s: "s = a @ sep # b" "sep \<notin> set a" by (meson split_list_first)
    then have "split_byte sep s = a # split_byte sep b" by (simp add: split_append split_no_sep)
    with less s show ?thesis by (simp add: utf8_valid_cut)
  qed
qed

lemma utf8_valid_join:
  "ord_of sep < 128 \<Longrightarrow> list_all utf8_valid ws \<Longrightarrow> utf8_valid (join_byte sep ws)"
  by (induction sep ws rule: join_byte.induct) (auto simp: utf8_valid_cut)

lemma utf8_valid_Clean: "utf8_valid p \<Longrightarrow> utf8_valid (Clean p)"
proof -
  assume p: "utf8_valid p"
  have push: "list_all utf8_valid acc \<Longrightarrow> utf8_valid c \<Longrightarrow> list_all utf8_valid (push_comp r acc c)" for r acc c
    by (auto simp: push_comp_def split: list.split)
  have "list_all utf8_valid acc \<Longrightarrow> list_all utf8_valid cs \<Longrightarrow> list_all utf8_valid (foldl (push_comp r) acc cs)" for r acc cs
    by (induction cs arbitrary: acc) (auto simp: push)
  moreover have "list_all utf8_valid (split_byte slash p)" using utf8_valid_split [of slash p] p by simp
  ultimately have "list_all utf8_valid (clean_comps r (split_byte slash p))" for r
    by (simp add: clean_comps_def list_all_rev)
  then show ?thesis by (auto simp: Clean_def Let_def utf8_valid_join utf8_valid_ascii)
qed

end
