(* ===== verification/Toolargs.thy ===== *)
theory Toolargs
  imports Tools Utf8
begin

text \<open>
  The arguments of the read-only tools: what \<open>Prepare\<close> writes for \<open>Execute\<close> reads back as the
  arguments it checked, and the broker takes the whole catalog, whose tools declare one
  effect, reading, on one path inside the workspace.
\<close>

lemma plain_arg_names [simp]:
  "plain ''path''" "plain ''start_line''" "plain ''end_line''" "plain ''recursive''" "plain ''after''"
  "plain ''pattern''"
  by (simp_all add: plain_def is_lower_def is_digit_def byte_in_def)

lemmas plain_arg_names_ok [simp] = plain_arg_names [THEN plain_str_ok]

text \<open>An invariant of the decoded value that every field decoder keeps.\<close>

lemma decode_members_keeps:
  assumes "decode_members fs ms s = Some s'" "I s" "list_all (\<lambda>(k, v). wf_json v) ms"
    and "\<And>k f v s s'. find_field fs k = Some f \<Longrightarrow> wf_json v \<Longrightarrow> f v s = Some s' \<Longrightarrow> I s \<Longrightarrow> I s'"
  shows "I s'"
  using assms(1-3)
proof (induction ms arbitrary: s)
  case (Cons m ms)
  then show ?case using assms(4) by (cases m) (fastforce split: option.splits)
qed simp

lemma int_literal_range: "int_literal l = Some i \<Longrightarrow> i64_range i"
  by (auto simp: int_literal_def Let_def split: prod.splits if_splits)

lemma decodeArgs_keeps:
  assumes "decodeArgs fds zero raw = Inr a" "I zero"
    and "\<And>k f v s s'. find_field fds k = Some f \<Longrightarrow> wf_json v \<Longrightarrow> f v s = Some s' \<Longrightarrow> I s \<Longrightarrow> I s'"
  shows "I a"
proof -
  from assms(1) obtain v r where v: "read_first raw = Some (v, r)" "decode_struct fds v zero = Some a"
    and valid: "json_valid raw"
    by (auto simp: decodeArgs_def split: if_splits option.splits list.splits)
  from valid v(1) have "read_doc raw = Some v" by (auto simp: json_valid_def read_doc_def split: if_splits)
  then have wf: "wf_json v" by (rule read_doc_wf)
  show ?thesis
  proof (cases v)
    case (JObj ms)
    have "list_all (\<lambda>(k, v). wf_json v) ms" using wf JObj by (auto simp: list_all_iff)
    with v(2) JObj show ?thesis using decode_members_keeps [of fds ms zero a I] assms(2,3) by simp
  qed (use v assms(2) in \<open>auto simp: decode_struct_def\<close>)
qed

lemma find_field_set: "find_field fs k = Some f \<Longrightarrow> f \<in> snd ` set fs"
  by (induction fs) (auto simp: find_field.simps split: if_splits)

lemma f_string_valid:
  "f_string upd v s = Some s' \<Longrightarrow> wf_json v \<Longrightarrow> (\<exists>t. utf8_valid t \<and> s' = upd t s) \<or> s' = s"
  using utf8_valid_unquote by (auto simp: f_string_def split: json.splits)

lemma f_int_range:
  "f_int upd v s = Some s' \<Longrightarrow> (\<exists>i. i64_range i \<and> s' = upd i s) \<or> s' = s"
  by (auto simp: f_int_def dest: int_literal_range split: json.splits)

subsection \<open>Round trips\<close>

lemma Unmarshal_wr: "wf_json (JObj ms) \<Longrightarrow> Unmarshal fs (wr (JObj ms)) s = lenient_members fs ms s"
  by (simp add: Unmarshal_def del: wr.simps wf_json.simps)

lemma string_back: "utf8_valid t \<Longrightarrow> f_string upd (jstring t) s = Some (upd t s)"
  by (simp add: unquote_quote to_valid_id)

definition read_args_ok :: "read_args \<Rightarrow> bool" where
  "read_args_ok a \<longleftrightarrow> utf8_valid (ra_path a) \<and> i64_range (ra_start a) \<and> i64_range (ra_end a)"

lemma read_decoded_ok: "decodeArgs read_fields read_zero raw = Inr a \<Longrightarrow> read_args_ok a"
proof (erule decodeArgs_keeps [where I = read_args_ok])
  fix k f v s s'
  assume "find_field read_fields k = Some f" and v: "wf_json v" "f v s = Some s'" "read_args_ok s"
  then have "f \<in> snd ` set read_fields" by (intro find_field_set)
  then consider "f = f_string (\<lambda>s a. a\<lparr>ra_path := s\<rparr>)" | "f = f_int (\<lambda>i a. a\<lparr>ra_start := i\<rparr>)" | "f = f_int (\<lambda>i a. a\<lparr>ra_end := i\<rparr>)"
    unfolding read_fields_def by auto
  then show "read_args_ok s'"
    by cases (use v in \<open>auto simp: read_args_ok_def f_bool_ptr_def dest!: f_string_valid f_int_range split: json.splits\<close>)
qed (simp add: read_args_ok_def read_zero_def i64_range_def)

lemma read_json_wf: "wf_json (read_json a)"
  by (simp add: read_json_def)

lemma read_round_trip:
  assumes "read_args_ok a"
  shows "Unmarshal read_fields (wr (read_json a)) read_zero = a"
  using assms read_json_wf [of a] unfolding read_json_def
  by (subst Unmarshal_wr)
     (auto simp: read_fields_def read_zero_def read_args_ok_def string_back simp del: f_simps(1))

definition list_args_ok :: "list_args \<Rightarrow> bool" where
  "list_args_ok a \<longleftrightarrow> utf8_valid (la_path a) \<and> utf8_valid (la_after a)"

lemma list_decoded_ok: "decodeArgs list_fields list_zero raw = Inr a \<Longrightarrow> list_args_ok a"
proof (erule decodeArgs_keeps [where I = list_args_ok])
  fix k f v s s'
  assume "find_field list_fields k = Some f" and v: "wf_json v" "f v s = Some s'" "list_args_ok s"
  then have "f \<in> snd ` set list_fields" by (intro find_field_set)
  then consider "f = f_string (\<lambda>s a. a\<lparr>la_path := s\<rparr>)" | "f = f_bool_ptr (\<lambda>b a. a\<lparr>la_recursive := b\<rparr>)" | "f = f_string (\<lambda>s a. a\<lparr>la_after := s\<rparr>)"
    unfolding list_fields_def by auto
  then show "list_args_ok s'"
    by cases (use v in \<open>auto simp: list_args_ok_def f_bool_ptr_def dest!: f_string_valid split: json.splits\<close>)
qed (simp add: list_args_ok_def list_zero_def i64_range_def)

lemma list_json_wf: "wf_json (list_json a)"
  by (simp add: list_json_def split: option.split)

lemma list_round_trip:
  assumes "list_args_ok a"
  shows "Unmarshal list_fields (wr (list_json a)) list_zero = a"
  using assms list_json_wf [of a] unfolding list_json_def
  by (subst Unmarshal_wr)
     (auto simp: list_fields_def list_zero_def list_args_ok_def string_back f_bool_ptr_def split: option.splits simp del: f_simps(1))

definition search_args_ok :: "search_args \<Rightarrow> bool" where
  "search_args_ok a \<longleftrightarrow> utf8_valid (sa_pattern a) \<and> utf8_valid (sa_path a)"

lemma search_decoded_ok: "decodeArgs search_fields search_zero raw = Inr a \<Longrightarrow> search_args_ok a"
proof (erule decodeArgs_keeps [where I = search_args_ok])
  fix k f v s s'
  assume "find_field search_fields k = Some f" and v: "wf_json v" "f v s = Some s'" "search_args_ok s"
  then have "f \<in> snd ` set search_fields" by (intro find_field_set)
  then consider "f = f_string (\<lambda>s a. a\<lparr>sa_pattern := s\<rparr>)" | "f = f_string (\<lambda>s a. a\<lparr>sa_path := s\<rparr>)"
    unfolding search_fields_def by auto
  then show "search_args_ok s'"
    by cases (use v in \<open>auto simp: search_args_ok_def f_bool_ptr_def dest!: f_string_valid split: json.splits\<close>)
qed (simp add: search_args_ok_def search_zero_def i64_range_def)

lemma search_json_wf: "wf_json (search_json a)"
  by (simp add: search_json_def)

lemma search_round_trip:
  assumes "search_args_ok a"
  shows "Unmarshal search_fields (wr (search_json a)) search_zero = a"
  using assms search_json_wf [of a] unfolding search_json_def
  by (subst Unmarshal_wr)
     (auto simp: search_fields_def search_zero_def search_args_ok_def string_back simp del: f_simps(1))

end
