(* ===== verification/Toolsafe.thy ===== *)
theory Toolsafe
  imports Toolargs
begin

text \<open>
  What the catalog of read-only tools can reach: the declared authority of each call, the path
  it goes on to open, and that the bytes of protected files play no part in a listing, a
  search or a read of another file.
\<close>

definition executed_path :: "prepared \<Rightarrow> bytes" where
  "executed_path p =
    (if p_tool p = ''read'' then ra_path (Unmarshal read_fields (p_args p) read_zero)
     else if p_tool p = ''list'' then la_path (Unmarshal list_fields (p_args p) list_zero)
     else sa_path (Unmarshal search_fields (p_args p) search_zero))"

lemma default_path_valid: "utf8_valid p \<Longrightarrow> utf8_valid (default_path p)"
  by (simp add: default_path_def)

lemma ws_clean_valid: "utf8_valid p \<Longrightarrow> ws_clean p = Inr q \<Longrightarrow> utf8_valid q"
  using ws_clean_inside(2) utf8_valid_Clean by metis

definition read_only :: "prepared \<Rightarrow> bool" where
  "read_only p \<longleftrightarrow> p_effects p = [EffectRead] \<and>
     (\<exists>path. p_paths p = [path] \<and> inside path \<and> ws_clean (executed_path p) = Inr path)"

lemma read_prepared:
  assumes "readPrepare raw = Inr p"
  shows "p_tool p = ''read'' \<and> read_only p"
proof -
  from assms obtain a clean where a: "decodeArgs read_fields read_zero raw = Inr a"
    and clean: "ws_clean (ra_path a) = Inr clean"
    and p: "p = \<lparr>p_tool = ''read'', p_args = wr (read_json (read_effective a)), p_effects = [EffectRead],
              p_paths = [clean]\<rparr>"
    by (auto simp: readPrepare_def Let_def split: sum.splits if_splits)
  have "read_args_ok (read_effective a)"
    using read_decoded_ok [OF a] by (simp add: read_args_ok_def read_effective_def i64_range_def)
  then have "Unmarshal read_fields (p_args p) read_zero = read_effective a" by (simp add: p read_round_trip)
  then show ?thesis using clean ws_clean_inside(1) [OF clean]
    by (simp add: p read_only_def executed_path_def read_effective_def)
qed

lemma list_prepared:
  assumes "listPrepare raw = Inr p"
  shows "p_tool p = ''list'' \<and> read_only p"
proof -
  from assms obtain a clean where a: "decodeArgs list_fields list_zero raw = Inr a"
    and clean: "ws_clean (default_path (la_path a)) = Inr clean"
    and p: "p = \<lparr>p_tool = ''list'', p_args = wr (list_json (a\<lparr>la_path := clean\<rparr>)), p_effects = [EffectRead],
              p_paths = [clean]\<rparr>"
    by (auto simp: listPrepare_def Let_def split: sum.splits if_splits)
  have "list_args_ok (a\<lparr>la_path := clean\<rparr>)"
    using list_decoded_ok [OF a] clean by (auto simp: list_args_ok_def dest: ws_clean_valid [OF default_path_valid])
  then have "Unmarshal list_fields (p_args p) list_zero = a\<lparr>la_path := clean\<rparr>" by (simp add: p list_round_trip)
  then show ?thesis using ws_clean_inside [OF clean] by (simp add: p read_only_def executed_path_def)
qed

lemma search_prepared:
  assumes "searchPrepare w raw = Inr p"
  shows "p_tool p = ''search'' \<and> read_only p \<and>
    w_regex w (sa_pattern (Unmarshal search_fields (p_args p) search_zero)) \<noteq> None"
proof -
  from assms obtain a clean where a: "decodeArgs search_fields search_zero raw = Inr a"
    and clean: "ws_clean (default_path (sa_path a)) = Inr clean" and re: "w_regex w (sa_pattern a) \<noteq> None"
    and p: "p = \<lparr>p_tool = ''search'', p_args = wr (search_json (a\<lparr>sa_path := clean\<rparr>)), p_effects = [EffectRead],
              p_paths = [clean]\<rparr>"
    by (auto simp: searchPrepare_def Let_def split: sum.splits if_splits)
  have "search_args_ok (a\<lparr>sa_path := clean\<rparr>)"
    using search_decoded_ok [OF a] clean by (auto simp: search_args_ok_def dest: ws_clean_valid [OF default_path_valid])
  then have "Unmarshal search_fields (p_args p) search_zero = a\<lparr>sa_path := clean\<rparr>" by (simp add: p search_round_trip)
  then show ?thesis using ws_clean_inside [OF clean] re by (simp add: p read_only_def executed_path_def)
qed

lemma schemas_valid:
  "json_valid (td_schema list_definition)" "json_valid (td_schema read_definition)"
  "json_valid (td_schema search_definition)"
  by code_simp+

lemma catalog_names:
  "map (td_name \<circ> tl_definition) (NewCatalog lib w) = [''list'', ''read'', ''search'']"
  by (simp add: NewCatalog_def Let_def list_definition_def read_definition_def search_definition_def)

lemma catalog_accepted:
  "NewBroker (NewCatalog lib w) = Inr (map (\<lambda>t. (td_name (tl_definition t), t)) (NewCatalog lib w))"
  using schemas_valid
  by (simp add: NewBroker_def NewCatalog_def Let_def add_tool_def)
     (simp add: list_definition_def read_definition_def search_definition_def)

subsection \<open>Protected files\<close>

text \<open>The tree with the bytes of every protected file erased.\<close>

definition hide :: "bytes \<Rightarrow> node \<Rightarrow> node" where
  "hide p n = (case n_kind n of File _ \<Rightarrow> if ProtectedPath p then n\<lparr>n_kind := File []\<rparr> else n | _ \<Rightarrow> n)"

definition hidden :: "snapshot \<Rightarrow> snapshot" where
  "hidden fs = \<lparr>lstat = (\<lambda>p. map_sum id (hide p) (lstat fs p)), follow = (\<lambda>p. map_sum id (hide p) (follow fs p))\<rparr>"

definition hidden_world :: "tool_world \<Rightarrow> tool_world" where
  "hidden_world w = w\<lparr>w_snap := \<lambda>k. hidden (w_snap w k)\<rparr>"

lemma hide_facts [simp]:
  "n_id (hide p n) = n_id n" "n_mode (hide p n) = n_mode n" "n_kind (hide p n) = Symlink \<longleftrightarrow> n_kind n = Symlink"
  "\<not> ProtectedPath p \<Longrightarrow> hide p n = n"
  by (auto simp: hide_def split: node_kind.split)

lemma walk_hidden: "walk_components (hidden fs) cur cs = walk_components fs cur cs"
  by (induction cs arbitrary: cur) (auto simp: Let_def hidden_def split: sum.split)

lemma hidden_sel [simp]:
  "lstat (hidden fs) p = map_sum id (hide p) (lstat fs p)" "follow (hidden fs) p = map_sum id (hide p) (follow fs p)"
  by (simp_all add: hidden_def)

lemma reject_hidden: "rejectSymlinkComponents (hidden fs) clean = rejectSymlinkComponents fs clean"
  by (simp add: rejectSymlinkComponents_def walk_hidden)

lemma open_hidden:
  "OpenFile (hidden a) (hidden b) (hidden c) name =
    (case OpenFile a b c name of (r, clean) \<Rightarrow> (map_sum id (hide clean) r, clean))"
proof (cases "ws_clean name")
  case (Inr clean)
  then show ?thesis
    by (cases "rejectSymlinkComponents a clean"; cases "follow b clean"; cases "lstat c clean")
       (simp_all add: OpenFile_def reject_hidden)
qed (simp add: OpenFile_def)

lemma open_at_hidden:
  "open_at (hidden_world w) k name = (case open_at w k name of (r, clean) \<Rightarrow> (map_sum id (hide clean) r, clean))"
  by (simp add: open_at_def hidden_world_def open_hidden)

lemma open_at_name: "open_at w k name = (Inr n, clean) \<Longrightarrow> clean = Clean name"
  by (auto simp: open_at_def OpenFile_def dest: ws_clean_inside(2) split: sum.splits if_splits)

lemma open_at_unprotected:
  assumes "\<not> ProtectedPath (Clean name)"
  shows "open_at (hidden_world w) k name = open_at w k name"
proof (cases "open_at w k name")
  case (Pair r clean)
  then show ?thesis
    using assms open_at_name [of w k name _ clean] by (cases r) (auto simp: open_at_hidden)
qed

lemma world_fields [simp]:
  "w_ctx (hidden_world w) = w_ctx w" "w_stat (hidden_world w) = w_stat w" "w_fault (hidden_world w) = w_fault w"
  "w_tree (hidden_world w) = w_tree w" "w_regex (hidden_world w) = w_regex w"
  by (simp_all add: hidden_world_def)

lemma search_file_hidden:
  "\<not> ProtectedPath (Clean name) \<Longrightarrow> search_file (hidden_world w) re name s = search_file w re name s"
  by (simp add: search_file_def open_at_unprotected Let_def
      split: prod.split sum.split option.split)

lemma search_visit_hidden: "search_visit (hidden_world w) re root = search_visit w re root"
proof (intro ext)
  fix name0 entry err s
  have f: "\<And>n s. Clean n = n \<Longrightarrow> \<not> ProtectedPath n \<Longrightarrow> search_file (hidden_world w) re n s = search_file w re n s"
    using search_file_hidden by metis
  define name where "name = Clean name0"
  have c: "Clean name = name" by (simp add: name_def Clean_idem)
  show "search_visit (hidden_world w) re root name0 entry err s = search_visit w re root name0 entry err s"
    unfolding search_visit_def name_def [symmetric]
    by (cases "name = root")
       (use c in \<open>simp_all add: f Let_def split: option.split tree.split sum.split\<close>)
qed

lemma list_visit_hidden: "list_visit (hidden_world w) root recursive after = list_visit w root recursive after"
  by (intro ext) (simp add: list_visit_def)

lemma opened_hidden_cases:
  obtains e c where "open_at w k name = (Inl e, c)" "open_at (hidden_world w) k name = (Inl e, c)"
  | n where "open_at w k name = (Inr n, Clean name)" "open_at (hidden_world w) k name = (Inr (hide (Clean name) n), Clean name)"
proof (cases "open_at w k name")
  case (Pair r c)
  then show thesis
    using that open_at_hidden [of w k name] open_at_name [of w k name _ c] by (cases r) auto
qed

lemma searchExecute_hidden: "searchExecute (hidden_world w) p = searchExecute w p"
  by (rule opened_hidden_cases [of w 0 "sa_path (Unmarshal search_fields (p_args p) search_zero)"])
     (simp_all add: searchExecute_def search_visit_hidden Let_def split: option.split)

lemma listExecute_hidden: "listExecute lib (hidden_world w) p = listExecute lib w p"
  by (rule opened_hidden_cases [of w 0 "la_path (Unmarshal list_fields (p_args p) list_zero)"])
     (simp_all add: listExecute_def list_visit_hidden Let_def split: option.split)

lemma readExecute_hidden:
  assumes "\<not> ProtectedPath (Clean (ra_path (Unmarshal read_fields (p_args p) read_zero)))"
  shows "readExecute lib (hidden_world w) p = readExecute lib w p"
  unfolding readExecute_def Let_def open_at_unprotected [OF assms] world_fields by (rule refl)

lemma read_protected:
  assumes "ProtectedPath (Clean (ra_path (Unmarshal read_fields (p_args p) read_zero)))"
    and "x_outcome (readExecute lib w p) = ToolResultSuccess"
  shows "\<exists>n data. open_at w 0 (ra_path (Unmarshal read_fields (p_args p) read_zero)) =
      (Inr n, Clean (ra_path (Unmarshal read_fields (p_args p) read_zero))) \<and> n_kind n = File data \<and>
    x_content (readExecute lib w p) = ProtectedProjectionDigest (Clean (ra_path (Unmarshal read_fields (p_args p) read_zero)))
      (int (length data)) (mode_text (n_mode n)) (sha256_hex lib data)"
proof -
  let ?path = "ra_path (Unmarshal read_fields (p_args p) read_zero)"
  have name: "clean = Clean ?path" if "open_at w 0 ?path = (Inr n, clean)" for n clean
    using that by (rule open_at_name)
  show ?thesis
    using assms name
    by (auto simp: readExecute_def Let_def hash_file_def toolError_def cancelled_def tool_failure_def
        tool_success_def tool_outcome_defs split: prod.splits sum.splits option.splits node_kind.splits if_splits)
qed

subsection \<open>Properties\<close>

text \<open>
  C14: The catalog has read-only authority: the broker accepts the three tools, and every call
  one of them prepares is its own, has the one effect of reading, on one path inside the
  workspace, and that is the path the arguments written for \<open>Execute\<close> name when they are read
  back.
\<close>

theorem catalog_read_only:
  assumes "tool \<in> set (NewCatalog lib w)" "tl_prepare tool stopped raw = Inr p"
  shows "is_ok (NewBroker (NewCatalog lib w)) \<and> p_tool p = td_name (tl_definition tool) \<and>
    p_effects p = [EffectRead] \<and>
    (\<exists>path. p_paths p = [path] \<and> inside path \<and> ws_clean (executed_path p) = Inr path)"
  using assms read_prepared [of raw p] list_prepared [of raw p] search_prepared [of w raw p]
  unfolding NewCatalog_def Let_def catalog_accepted [unfolded NewCatalog_def Let_def]
  by (auto simp: read_only_def list_definition_def read_definition_def search_definition_def)

definition empty_world :: tool_world where
  "empty_world = \<lparr>w_ctx = (\<lambda>_. None), w_snap = (\<lambda>_. sample_tree), w_stat = (\<lambda>_. None), w_fault = (\<lambda>_. False),
     w_tree = (\<lambda>_. Inl NotExist), w_regex = (\<lambda>_. None)\<rparr>"

theorem catalog_read_only_witness:
  "\<exists>p. readPrepare ''{\"path\":\"./a\"}'' = Inr p \<and> p_effects p = [EffectRead] \<and>
    (\<exists>path. p_paths p = [path] \<and> inside path \<and> ws_clean (executed_path p) = Inr path)"
proof -
  have "is_ok (readPrepare ''{\"path\":\"./a\"}'')" by code_simp
  then obtain p where p: "readPrepare ''{\"path\":\"./a\"}'' = Inr p" by auto
  show ?thesis
    using catalog_read_only [of "NewCatalog sample_lib empty_world ! 1" sample_lib empty_world False _ p] p
    by (simp add: NewCatalog_def Let_def)
qed

text \<open>A tree with one protected file, and the call that reads it.\<close>

lemma env_protected: "ProtectedPath ''.env''"
proof -
  have "trim_prefix ''./'' (Clean (map (\<lambda>c. if c = CHR 0x5C then slash else c) ''.env'')) = ''.env''"
    "lower_name (Base ''.env'') = ''.env''" "\<not> has_suffix ''.example'' ''.env''" "\<not> has_suffix ''.sample'' ''.env''" by code_simp+
  then show ?thesis unfolding ProtectedPath_def Let_def by (simp only:) simp
qed

definition secret_world :: tool_world where
  "secret_world = empty_world\<lparr>w_snap := \<lambda>_. let n = (\<lambda>p. if p = ''.env'' then Inr \<lparr>n_kind = File ''SECRET'', n_id = 1, n_mode = 384\<rparr> else Inl NotExist)
     in \<lparr>lstat = n, follow = n\<rparr>\<rparr>"

definition read_env :: prepared where
  "read_env = \<lparr>p_tool = ''read'', p_args = ''{\"path\":\".env\"}'', p_effects = [EffectRead], p_paths = [''.env'']\<rparr>"

lemma read_env: "ra_path (Unmarshal read_fields (p_args read_env) read_zero) = ''.env''" "Clean ''.env'' = ''.env''"
  by code_simp+

lemma env_read: "x_outcome (readExecute sample_lib secret_world read_env) = ToolResultSuccess"
proof -
  have "open_at secret_world 0 ''.env'' = (Inr \<lparr>n_kind = File ''SECRET'', n_id = 1, n_mode = 384\<rparr>, ''.env'')" by code_simp
  then show ?thesis
    by (simp add: readExecute_def read_env env_protected hash_file_def Let_def secret_world_def empty_world_def tool_success_def)
qed

text \<open>
  C15: The bytes of protected files stay out of what the tools return: a search and a listing
  are the same when those bytes are erased from the tree, wherever the tree changes meanwhile,
  and so is the read of a file that is not protected; a protected file that is read shows its
  path, size, mode and digest only.
\<close>

theorem protected_contents_unseen:
  "searchExecute (hidden_world w) p = searchExecute w p \<and> listExecute lib (hidden_world w) p = listExecute lib w p \<and>
   (let path = ra_path (Unmarshal read_fields (p_args p) read_zero) in
     if ProtectedPath (Clean path)
     then x_outcome (readExecute lib w p) \<noteq> ToolResultSuccess \<or>
       (\<exists>n data. open_at w 0 path = (Inr n, Clean path) \<and> n_kind n = File data \<and>
         x_content (readExecute lib w p) =
           ProtectedProjectionDigest (Clean path) (int (length data)) (mode_text (n_mode n)) (sha256_hex lib data))
     else readExecute lib (hidden_world w) p = readExecute lib w p)"
  using searchExecute_hidden listExecute_hidden readExecute_hidden [of p] read_protected [of p lib w]
  unfolding Let_def by auto

theorem protected_contents_unseen_witness:
  "searchExecute (hidden_world secret_world) read_env = searchExecute secret_world read_env \<and>
   (\<exists>n. x_content (readExecute sample_lib secret_world read_env) =
     ProtectedProjectionDigest ''.env'' 6 (mode_text n) (sha256_hex sample_lib ''SECRET''))"
proof -
  have "open_at secret_world 0 ''.env'' = (Inr \<lparr>n_kind = File ''SECRET'', n_id = 1, n_mode = 384\<rparr>, ''.env'')" by code_simp
  then show ?thesis
  using protected_contents_unseen [of secret_world read_env sample_lib] env_read
  by (auto simp: read_env env_protected Let_def)
qed

end
