(* ===== verification/Toolpages.thy ===== *)
theory Toolpages
  imports Toolsafe
begin

text \<open>
  Pages: a listing that is cut continues after the last entry it printed without repeating
  one, and a read that is cut continues at the line it names; both fit the result bound.
\<close>

subsection \<open>Listings\<close>

text \<open>
  The walk of a listing independent of \<open>after\<close>: the names it meets below the root and whether
  each is a directory.
\<close>

definition meet :: "tool_world \<Rightarrow> bytes \<Rightarrow> bool \<Rightarrow> (nat \<times> (bytes \<times> bool) list) visitor" where
  "meet w root recursive name0 entry err st =
    (let (k, met) = st in
     case w_ctx w k of
       Some e \<Rightarrow> (Some (Failed (CtxErr e)), (Suc k, met))
     | None \<Rightarrow>
        (case err of
           Some e \<Rightarrow> (Some (Failed (WsErr e)), (Suc k, met))
         | None \<Rightarrow>
            (let name = Clean name0; dir = is_dir (the entry)
             in (if dir \<and> name \<noteq> root \<and> (ProtectedPath name \<or> \<not> recursive) then Some SkipDir else None,
                 (Suc k, if name \<noteq> root then met @ [(name, dir)] else met)))))"

definition entries_after :: "bytes \<Rightarrow> (bytes \<times> bool) list \<Rightarrow> bytes list" where
  "entries_after after met = map (\<lambda>(n, d). list_entry n d) (filter (\<lambda>(n, d). listed after n) met)"

lemma list_visit_meet:
  "list_visit w root recursive after n t e (map_prod id (entries_after after) st) =
     map_prod id (map_prod id (entries_after after)) (meet w root recursive n t e st)"
  by (cases st) (auto simp: list_visit_def meet_def entries_after_def Let_def split: option.split)

lemma list_walk:
  "WalkDir (list_visit w root recursive after) root t (1, []) =
     map_prod id (map_prod id (entries_after after)) (WalkDir (meet w root recursive) root t (1, []))"
proof -
  have "(1, []) = map_prod id (entries_after after) (1, [] :: (bytes \<times> bool) list)"
    by (simp add: entries_after_def)
  then show ?thesis
    using WalkDir_sim [where f = "list_visit w root recursive after" and h = "map_prod id (entries_after after)"
        and g = "meet w root recursive", OF list_visit_meet] by metis
qed

definition page_lines :: "bytes list \<Rightarrow> bytes" where
  "page_lines es = concat (map (\<lambda>e. e @ newline) es)"

lemma list_page_whole: "list_page i out prev es = (out', None) \<Longrightarrow> out' = out @ page_lines es"
  by (induction i out prev es rule: list_page.induct) (auto simp: page_lines_def split: if_splits)

lemma list_page_cut:
  "list_page i out prev es = (out', Some nx) \<Longrightarrow>
   \<exists>j < length es. out' = out @ page_lines (take j es) \<and> nx = (if j = 0 then prev else Some (es ! (j - 1)))"
proof (induction i out prev es rule: list_page.induct)
  case (2 i out prev e es)
  show ?case
  proof (cases "i \<ge> 2000 \<or> length out + length (e @ newline) > maxResultBytes")
    case True
    with 2 show ?thesis by (intro exI [of _ 0]) (auto simp: page_lines_def)
  next
    case False
    with 2 obtain j where j: "j < length es" "out' = (out @ e @ newline) @ page_lines (take j es)"
      "nx = (if j = 0 then Some e else Some (es ! (j - 1)))" by auto
    then show ?thesis by (intro exI [of _ "Suc j"]) (auto simp: page_lines_def nth_Cons')
  qed
qed simp

lemma list_page_bound: "list_page i out prev es = (out', c) \<Longrightarrow> length out \<le> maxResultBytes \<Longrightarrow> length out' \<le> maxResultBytes"
  by (induction i out prev es rule: list_page.induct) (auto split: if_splits)

lemma set_entries_after:
  "e \<in> set (entries_after after met) \<longleftrightarrow> (\<exists>n d. (n, d) \<in> set met \<and> after < n \<and> e = list_entry n d)"
  by (auto simp: entries_after_def listed_def)

lemma list_prefix_le: "(n :: bytes) \<le> n @ m"
  by (induction n) auto

lemma entry_le: "n \<le> list_entry n d"
  by (simp add: list_entry_def list_prefix_le)

text \<open>The next page: nothing printed comes again, and only a directory named by a prefix is lost.\<close>

lemma next_page:
  assumes es: "es = sort (entries_after after met)" and j: "0 < j" "j < length es"
    and nx: "nx = es ! (j - 1)"
  shows "set (take j es) \<inter> set (entries_after nx met) = {}"
    and "set (entries_after nx met) \<subseteq> set (drop j es)"
    and "\<And>e. e \<in> set (drop j es) \<Longrightarrow> e \<in> set (entries_after nx met) \<or> e = nx \<or> (\<exists>n. e = n @ ''/'' \<and> n \<le> nx \<and> nx < e)"
proof -
  have so: "sorted es" using es by simp
  have before: "e \<le> nx" if "e \<in> set (take j es)" for e
  proof -
    from that obtain i where "i < j" "e = es ! i" by (auto simp: in_set_conv_nth)
    then show ?thesis using so j nx by (auto intro!: sorted_nth_mono)
  qed
  have later: "nx < e" if "e \<in> set (entries_after nx met)" for e
    using that entry_le less_le_trans unfolding set_entries_after by blast
  show "set (take j es) \<inter> set (entries_after nx met) = {}" using before later not_le by blast
  have "nx \<in> set es" using j nx by simp
  then have "after < nx" 
    unfolding es by (auto simp: entries_after_def listed_def intro: less_le_trans entry_le)
  then have sub: "e \<in> set es" if "e \<in> set (entries_after nx met)" for e
    using that less_trans unfolding es set_sort set_entries_after by blast
  have parts: "set es = set (take j es) \<union> set (drop j es)" by (metis append_take_drop_id set_append)
  show "set (entries_after nx met) \<subseteq> set (drop j es)" using sub parts before later not_le by blast
  fix e assume e: "e \<in> set (drop j es)"
  then have ge: "nx \<le> e" using so j nx by (auto simp: in_set_conv_nth intro!: sorted_nth_mono)
  from e parts have "e \<in> set es" by blast
  then obtain n d where nd: "(n, d) \<in> set met" "e = list_entry n d" "after < n"
    by (auto simp: es set_entries_after)
  show "e \<in> set (entries_after nx met) \<or> e = nx \<or> (\<exists>n. e = n @ ''/'' \<and> n \<le> nx \<and> nx < e)"
  proof (cases "nx < n")
    case True
    with nd show ?thesis by (auto simp: set_entries_after)
  next
    case False
    with nd ge show ?thesis by (cases d) (auto simp: list_entry_def)
  qed
qed

text \<open>
  C16: A listing that does not fit is cut at an entry: what is printed is the first entries in
  order, within 64 KiB, and the listing after the entry named as the continuation repeats
  none of them, adds none and leaves none out but a directory whose name sorts no later than
  that entry while the entry printed for it, with its slash, sorts after.
\<close>

theorem list_pages:
  assumes "WalkDir (list_visit w root recursive after) root t (1, []) = (None, (k, es))"
    and "list_page 0 [] None (sort es) = (out, Some (Some nx))"
  shows "\<exists>j es'. out = page_lines (take j (sort es)) \<and> length out \<le> 65536 \<and> nx = last (take j (sort es)) \<and>
    WalkDir (list_visit w root recursive nx) root t (1, []) = (None, (k, es')) \<and>
    set (take j (sort es)) \<inter> set es' = {} \<and> set es' \<subseteq> set (drop j (sort es)) \<and>
    (\<forall>e \<in> set (drop j (sort es)). e \<in> set es' \<or> e = nx \<or> (\<exists>n. e = n @ ''/'' \<and> n \<le> nx \<and> nx < e))"
proof -
  from assms(1) obtain met where met: "WalkDir (meet w root recursive) root t (1, []) = (None, (k, met))"
    and es: "es = entries_after after met"
    unfolding list_walk by (cases "WalkDir (meet w root recursive) root t (1, [])") auto
  from list_page_cut [OF assms(2)] obtain j where j: "0 < j" "j < length (sort es)"
    "out = page_lines (take j (sort es))" "nx = sort es ! (j - 1)" by (auto split: if_splits)
  have nx: "nx = last (take j (sort es))" using j(1,2) unfolding j(4)
    by (subst last_conv_nth) (auto simp: min_def dest: arg_cong [where f = length])
  have "WalkDir (list_visit w root recursive nx) root t (1, []) = (None, (k, entries_after nx met))"
    unfolding list_walk met by simp
  moreover have "length out \<le> 65536" using list_page_bound [OF assms(2)] by (simp add: maxResultBytes_def)
  moreover note next_page [OF arg_cong [where f = sort, OF es] j(1,2,4)]
  ultimately show ?thesis using j(3) nx by blast
qed

definition long_name :: bytes where "long_name = replicate 65536 (CHR ''b'')"

lemma long_name: "long_name = CHR ''b'' # replicate 65535 (CHR ''b'')" "length long_name = 65536"
  using replicate_Suc [of 65535 "CHR ''b''"] by (simp_all add: long_name_def del: replicate_Suc)

lemma long_name_order: "''a'' \<le> long_name" "[] < long_name" "long_name \<noteq> ''.''" "plain_comp long_name"
proof -
  show "''a'' \<le> long_name" "[] < long_name" "long_name \<noteq> ''.''" by (simp_all add: long_name(1))
  have "c = CHR ''b''" if "c \<in> set long_name" for c using that by (simp add: long_name_def)
  then show "plain_comp long_name" unfolding plain_comp_def using long_name(2) by (force simp: long_name(1))
qed

definition two_files :: tree where
  "two_files = Folder None [(''a'', Entry (Inr True)), (long_name, Entry (Inr True))]"

lemma Join_root: "plain_comp n \<Longrightarrow> Join [''.'', n] = n"
  by (simp add: Join_def Clean_def clean_comps_def push_comp_def plain_comp_def is_abs_def split_no_sep Let_def)

lemma Clean_plain: "plain_comp n \<Longrightarrow> Clean n = n"
  by (cases n) (auto simp: Clean_def clean_comps_def push_comp_def plain_comp_def is_abs_def split_no_sep Let_def)

lemma two_files_listed:
  "WalkDir (list_visit empty_world ''.'' True []) ''.'' (Inr two_files) (1, []) = (None, (4, [''a'', long_name]))"
proof -
  have p: "plain_comp ''a''" by (auto simp: plain_comp_def)
  then show ?thesis
    by (simp add: WalkDir_def two_files_def list_visit_def Join_root Clean_plain long_name_order empty_world_def listed_def
        list_entry_def Clean_def [of "''.''"] is_abs_def clean_comps_def push_comp_def)
qed

theorem list_pages_witness:
  "\<exists>out j es'. out = page_lines (take j (sort [''a'', long_name])) \<and> length out \<le> 65536 \<and>
    ''a'' = last (take j (sort [''a'', long_name])) \<and>
    WalkDir (list_visit empty_world ''.'' True ''a'') ''.'' (Inr two_files) (1, []) = (None, (4, es')) \<and>
    set es' \<subseteq> set (drop j (sort [''a'', long_name]))"
proof -
  have "sort [''a'', long_name] = [''a'', long_name]"
    using long_name_order(1) by simp
  then have "list_page 0 [] None (sort [''a'', long_name]) = (''a'' @ newline, Some (Some ''a''))"
    by (simp add: maxResultBytes_def newline_def long_name(2))
  from list_pages [OF two_files_listed this] show ?thesis by blast
qed

subsection \<open>Reads\<close>

text \<open>The numbered lines a read may show, and how many entries fit a result.\<close>

definition in_range :: "read_args \<Rightarrow> nat \<Rightarrow> bool" where
  "in_range a n \<longleftrightarrow> \<not> int n < ra_start a \<and> \<not> (ra_end a \<noteq> 0 \<and> int n > ra_end a)"

definition range_lines :: "read_args \<Rightarrow> nat \<Rightarrow> bytes list \<Rightarrow> (nat \<times> bytes) list" where
  "range_lines a n ls = filter (\<lambda>(m, l). in_range a m) (enumerate n ls)"

fun fitting :: "nat \<Rightarrow> nat \<Rightarrow> bytes list \<Rightarrow> nat" where
  "fitting written used [] = 0"
| "fitting written used (e # es) =
     (if written \<ge> 1000 \<or> used + length e > maxResultBytes then 0
      else Suc (fitting (Suc written) (used + length e) es))"

definition entries_of :: "(nat \<times> bytes) list \<Rightarrow> bytes list" where
  "entries_of W = map (\<lambda>(n, l). read_entry n l) W"

definition read_shows :: "(nat \<times> bytes) list \<Rightarrow> nat \<Rightarrow> bytes \<Rightarrow> execution" where
  "read_shows W j out =
    (if j < length W then read_finish False True (fst (W ! j)) (out @ concat (take j (entries_of W)))
     else read_finish False False 0 (out @ concat (entries_of W)))"

lemma range_lines_Cons:
  "range_lines a n (l # ls) = (if in_range a n then [(n, l)] else []) @ range_lines a (Suc n) ls"
  by (simp add: range_lines_def)

lemma range_lines_past: "ra_end a \<noteq> 0 \<Longrightarrow> int n > ra_end a \<Longrightarrow> range_lines a n ls = []"
  by (induction ls arbitrary: n) (auto simp: range_lines_Cons in_range_def range_lines_def [of _ _ "[]"])

lemma read_finish_whole: "read_finish False False n out = read_finish False False 0 out"
  by (simp add: read_finish_def)

lemma read_loop_shows:
  assumes "\<forall>k. ctx k = None" "\<forall>(l, f) \<in> set ts. IsText l"
  shows "\<forall>(l, f) \<in> set ts. \<not> f \<Longrightarrow> read_loop ctx a ts False n key out written =
    (let W = range_lines a (Suc n) (snd (lr_lines NewDetector key (map fst ts)))
     in read_shows W (fitting written (length out) (entries_of W)) out)"
  using assms(2)
proof (induction ts arbitrary: n key out written)
  case Nil
  then show ?case by (simp add: range_lines_def read_shows_def entries_of_def read_finish_whole [of n])
next
  case (Cons t ts)
  obtain line where t: "t = (line, False)" "IsText line" using Cons.prems by (cases t) auto
  obtain key' out' m' where r: "lr_redact NewDetector key line = (key', out', m')" by (metis prod.exhaust)
  define P where "P = snd (lr_lines NewDetector key' (map fst ts))"
  have P: "snd (lr_lines NewDetector key (map fst (t # ts))) = out' # P"
    by (simp add: t r P_def case_prod_beta)
  have IH: "read_loop ctx a ts False m key' o' k =
    (let W = range_lines a (Suc m) P in read_shows W (fitting k (length o') (entries_of W)) o')" for m o' k
    using Cons.IH Cons.prems unfolding P_def by simp
  let ?e = "read_entry (Suc n) out'"
  have c: "ctx n = None" using assms(1) by blast
  consider (before) "int (Suc n) < ra_start a" | (after) "\<not> int (Suc n) < ra_start a" "ra_end a \<noteq> 0 \<and> int (Suc n) > ra_end a"
    | (shown) "in_range a (Suc n)" by (auto simp: in_range_def)
  then show ?case
  proof cases
    case before
    then have "\<not> in_range a (Suc n)" by (simp add: in_range_def)
    with before show ?thesis unfolding P range_lines_Cons by (simp add: t r c IH)
  next
    case after
    then have "\<not> in_range a (Suc n)" "range_lines a (Suc (Suc n)) P = []"
      by (auto simp: in_range_def intro: range_lines_past)
    with after show ?thesis unfolding P range_lines_Cons
      by (simp add: t r c read_shows_def entries_of_def read_finish_whole [of "Suc n"])
  next
    case shown
    then have "\<not> int (Suc n) < ra_start a" "\<not> (ra_end a \<noteq> 0 \<and> int (Suc n) > ra_end a)" by (auto simp: in_range_def)
    then have "read_loop ctx a (t # ts) False n key out written =
      (if written \<ge> 1000 \<or> length out + length ?e > maxResultBytes then read_finish False True (Suc n) out
       else read_loop ctx a ts False (Suc n) key' (out @ ?e) (Suc written))"
      using t(2) by (auto simp: t(1) r c Let_def)
    with shown show ?thesis unfolding P range_lines_Cons
      by (auto simp: IH Let_def read_shows_def entries_of_def)
  qed
qed

lemma scan_tokens_flags: "scan_tokens limit False ls = (ts, e) \<Longrightarrow> (l, f) \<in> set ts \<Longrightarrow> \<not> f"
  by (induction limit "False" ls arbitrary: ts e rule: scan_tokens.induct)
     (auto simp: Let_def split: if_splits prod.splits)

lemma fitting_facts:
  assumes "fitting written used es = j" "used \<le> maxResultBytes" "written \<le> 1000"
  shows "j \<le> length es" "written + j \<le> 1000" "used + length (concat (take j es)) \<le> maxResultBytes"
    "j < length es \<Longrightarrow> written + j = 1000 \<or> used + length (concat (take (Suc j) es)) > maxResultBytes"
  using assms
  by (induction written used es arbitrary: j rule: fitting.induct) (auto split: if_splits)

text \<open>The lines from the one named on are the lines not shown.\<close>

lemma range_lines_sorted: "sorted_wrt (\<lambda>x y. fst x < fst y) (range_lines a n ls)"
proof (induction ls arbitrary: n)
  case (Cons l ls)
  have "\<forall>x \<in> set (range_lines a (Suc n) ls). n < fst x" by (auto simp: range_lines_def in_set_enumerate_eq)
  with Cons show ?case by (simp add: range_lines_Cons)
qed (simp add: range_lines_def)

lemma filter_from:
  assumes "sorted_wrt (\<lambda>x y. fst x < fst y) (W :: (nat \<times> 'a) list)" "j < length W"
  shows "filter (\<lambda>x. fst (W ! j) \<le> fst x) W = drop j W"
proof -
  have "filter (\<lambda>x. fst (W ! j) \<le> fst x) (take j W) = []"
  proof (rule filter_False, rule ballI)
    fix x assume "x \<in> set (take j W)"
    then obtain i where "x = W ! i" "i < j" by (auto simp: in_set_conv_nth)
    then have "fst x < fst (W ! j)" using assms unfolding sorted_wrt_iff_nth_less by blast
    then show "\<not> fst (W ! j) \<le> fst x" by simp
  qed
  moreover have "filter (\<lambda>x. fst (W ! j) \<le> fst x) (drop j W) = drop j W"
  proof (rule filter_True, rule ballI)
    fix x assume "x \<in> set (drop j W)"
    then obtain i where "x = W ! (j + i)" "j + i < length W" by (auto simp: in_set_conv_nth)
    then show "fst (W ! j) \<le> fst x"
      using assms by (cases i) (auto simp: sorted_wrt_iff_nth_less intro: less_imp_le)
  qed
  ultimately show ?thesis by (metis append_take_drop_id filter_append append_Nil)
qed

lemma range_lines_continue:
  assumes "j < length (range_lines a 1 ls)"
  shows "range_lines (a\<lparr>ra_start := int (fst (range_lines a 1 ls ! j))\<rparr>) 1 ls = drop j (range_lines a 1 ls)"
proof -
  let ?W = "range_lines a 1 ls"
  have "in_range a (fst (?W ! j))" using nth_mem [OF assms] by (auto simp: range_lines_def)
  then have "in_range (a\<lparr>ra_start := int (fst (?W ! j))\<rparr>) m \<longleftrightarrow> in_range a m \<and> fst (?W ! j) \<le> m" for m
    by (auto simp: in_range_def)
  then have "range_lines (a\<lparr>ra_start := int (fst (?W ! j))\<rparr>) 1 ls = filter (\<lambda>x. fst (?W ! j) \<le> fst x) ?W"
    by (simp add: range_lines_def case_prod_beta conj_commute cong: filter_cong)
  then show ?thesis using filter_from [OF range_lines_sorted assms] by simp
qed

definition projected_lines :: "bytes \<Rightarrow> bytes list" where
  "projected_lines data = snd (lr_lines NewDetector False (map fst (fst (scan False data))))"

text \<open>
  C17: Reading a text file shows its lines after projection, numbered from 1, in the range asked
  for: the longest beginning of them of at most 1000 lines and 64 KiB, and, when some are left,
  the number of the first of them as the line to continue with; asking for that line asks for
  exactly the lines left.
\<close>

theorem read_pages:
  fixes lib w p n data a
  assumes "open_at w 0 (ra_path a) = (Inr n, clean)" "n_kind n = File data" "\<not> ProtectedPath clean"
    and "w_stat w 0 = None" "\<not> w_fault w 0" "\<forall>k. w_ctx w k = None"
    and "a = Unmarshal read_fields (p_args p) read_zero"
    and "\<not> snd (scan False data)" "\<forall>(l, f) \<in> set (fst (scan False data)). IsText l"
  shows "\<exists>j W. W = range_lines a 1 (projected_lines data) \<and>
    readExecute lib w p = read_shows W j [] \<and> j \<le> length W \<and> j \<le> 1000 \<and>
    length (concat (take j (entries_of W))) \<le> 65536 \<and>
    (j < length W \<longrightarrow> (j = 1000 \<or> length (concat (take (Suc j) (entries_of W))) > 65536) \<and>
       range_lines (a\<lparr>ra_start := int (fst (W ! j))\<rparr>) 1 (projected_lines data) = drop j W)"
proof -
  define W where "W = range_lines a 1 (projected_lines data)"
  define j where "j = fitting 0 0 (entries_of W)"
  obtain ts where ts: "scan False data = (ts, False)" using assms(8) by (cases "scan False data") auto
  have "\<forall>(l, f) \<in> set ts. \<not> f" using scan_tokens_flags [OF ts [unfolded scan_def]] by auto
  moreover have "\<forall>(l, f) \<in> set ts. IsText l" using assms(9) ts by simp
  ultimately have "read_loop (w_ctx w) a ts False 0 False [] 0 = read_shows W j []"
    using read_loop_shows [OF assms(6), of ts a 0 False "[]" 0] ts by (simp add: W_def j_def projected_lines_def Let_def)
  then have "readExecute lib w p = read_shows W j []"
    using assms(1-5) ts unfolding readExecute_def assms(7) [symmetric] by simp
  moreover note fitting_facts [of 0 0 "entries_of W" j]
  moreover have "j < length W \<Longrightarrow> range_lines (a\<lparr>ra_start := int (fst (W ! j))\<rparr>) 1 (projected_lines data) = drop j W"
    unfolding W_def by (rule range_lines_continue)
  moreover have "length (entries_of W) = length W" by (simp add: entries_of_def)
  ultimately show ?thesis using W_def j_def by (simp add: maxResultBytes_def) blast
qed

definition sample_read :: read_args where
  "sample_read = \<lparr>ra_path = ''a'', ra_start = 1, ra_end = 0\<rparr>"

theorem read_pages_witness:
  "\<exists>j W. W = range_lines sample_read 1 (projected_lines ''x'') \<and>
    readExecute sample_lib empty_world \<lparr>p_tool = ''read'', p_args = wr (read_json sample_read), p_effects = [EffectRead],
      p_paths = [''a'']\<rparr> = read_shows W j [] \<and> j \<le> length W \<and> j \<le> 1000 \<and>
    length (concat (take j (entries_of W))) \<le> 65536"
proof -
  let ?n = "\<lparr>n_kind = File ''x'', n_id = 7, n_mode = 420\<rparr>"
  let ?p = "\<lparr>p_tool = ''read'', p_args = wr (read_json sample_read), p_effects = [EffectRead], p_paths = [''a'']\<rparr>"
  have open_a: "open_at empty_world 0 (ra_path sample_read) = (Inr ?n, ''a'')"
    by (simp add: open_at_def empty_world_def sample_read_def OpenFile_def ws_clean_def is_abs_def Clean_def
        clean_comps_def push_comp_def rejectSymlinkComponents_def sample_tree_def)
  have args: "sample_read = Unmarshal read_fields (p_args ?p) read_zero"
    by (simp add: read_round_trip read_args_ok_def sample_read_def i64_range_def)
  have free: "\<not> ProtectedPath ''a''"
    by (simp add: ProtectedPath_def Clean_plain plain_comp_def Base_def Ext_def equal_fold_def trim_prefix_def
        has_suffix_def lower_char_def Let_def take_Cons')
  have ok: "\<not> snd (scan False ''x'')" "\<forall>(l, f) \<in> set (fst (scan False ''x'')). IsText l"
    by (simp_all add: scan_def max_token_def drop_cr_def nl_def IsText_def)
  show ?thesis
    using read_pages [OF open_a _ free _ _ _ args, of "''x''" sample_lib] ok by (auto simp: empty_world_def)
qed

end
