(* ===== verification/Listing.thy ===== *)
theory Listing
  imports Durability "HOL-Library.Multiset"
begin

text \<open>
  \<open>List\<close> of \<open>internal/store/store.go\<close>: the order of the summaries as an instance of the library's
  preorders, and what a listing holds.
\<close>

text \<open>The newest first; equal times by identifier.\<close>

instantiation summary_ext :: (type) preorder
begin

definition less_eq_summary_ext :: "'a summary_ext \<Rightarrow> 'a summary_ext \<Rightarrow> bool" where
  "a \<le> b \<longleftrightarrow> su_activity b < su_activity a \<or> su_activity a = su_activity b \<and> su_session a \<le> su_session b"

definition less_summary_ext :: "'a summary_ext \<Rightarrow> 'a summary_ext \<Rightarrow> bool" where
  "a < b \<longleftrightarrow> su_activity b < su_activity a \<or> su_activity a = su_activity b \<and> su_session a < su_session b"

instance
  by intro_classes (auto simp: less_eq_summary_ext_def less_summary_ext_def)

end

lemma key_order: "(- su_activity a, su_session a) \<le> (- su_activity b, su_session b) \<longleftrightarrow> a \<le> (b :: summary)"
  by (auto simp: less_eq_summary_ext_def less_eq_prod_def)

definition listed_entries :: "stdlib \<Rightarrow> clock_text \<Rightarrow> (bytes \<times> entry) list \<Rightarrow> summary list" where
  "listed_entries lib ct es = concat (map (\<lambda>(i, e). case e of
     SessionDir d \<Rightarrow> (case Open lib ct i e of Inl _ \<Rightarrow> [] | Inr s \<Rightarrow> [summary_of s]) | _ \<Rightarrow> []) es)"

lemma Open_session: "Open lib ct i e = Inr s \<Longrightarrow> m_session (st_manifest s) = i"
  by (auto simp: Open_def manifest_identity_ok_def split: if_splits entry.splits option.splits manifest_file.splits)

lemma listed_set:
  "set (listed_entries lib ct es) = {summary_of s | s i d. (i, SessionDir d) \<in> set es \<and> Open lib ct i (SessionDir d) = Inr s}"
  by (force simp: listed_entries_def split: entry.splits sum.splits)

lemma listed_Cons: "listed_entries lib ct ((i, e) # es) =
    (case e of SessionDir d \<Rightarrow> (case Open lib ct i e of Inl _ \<Rightarrow> [] | Inr s \<Rightarrow> [summary_of s]) | _ \<Rightarrow> []) @ listed_entries lib ct es"
  by (simp add: listed_entries_def)

lemma listed_names: "u \<in> set (listed_entries lib ct es) \<Longrightarrow> su_session u \<in> fst ` set es"
  by (auto simp: listed_set summary_of_def Let_def image_iff dest!: Open_session) (metis fst_conv)

lemma listed_distinct:
  "distinct (map fst es) \<Longrightarrow> distinct (map su_session (listed_entries lib ct es))"
proof (induction es)
  case (Cons x es)
  obtain i e where x: "x = (i, e)" by (cases x)
  have new: "su_session u \<noteq> i" if "u \<in> set (listed_entries lib ct es)" for u
    using listed_names [OF that] Cons.prems x by auto
  have "su_session (summary_of s) = i" if "Open lib ct i e = Inr s" for s
    using Open_session [OF that] by (simp add: summary_of_def Let_def)
  with Cons new show ?case by (auto simp: x listed_Cons split: entry.splits sum.splits)
qed (simp add: listed_entries_def)

lemma strictly: "sorted_wrt (\<le>) us \<Longrightarrow> distinct (map su_session us) \<Longrightarrow> sorted_wrt (<) (us :: summary list)"
  by (induction us) (auto simp: less_eq_summary_ext_def less_summary_ext_def order_le_less image_iff)

subsection \<open>Properties\<close>

text \<open>
  C23: A listing of the store shows every session directory that opens, with the facts of its
  manifest, exactly once, and nothing else (a damaged or foreign entry hides no other), strictly
  ordered from the newest activity, equal times by identifier.
\<close>

theorem sessions_listed:
  assumes "distinct (map fst es)"
  shows "sorted_wrt (<) (List_sessions lib ct es) \<and> distinct (map su_session (List_sessions lib ct es)) \<and>
    set (List_sessions lib ct es) =
      {summary_of s | s i d. (i, SessionDir d) \<in> set es \<and> Open lib ct i (SessionDir d) = Inr s}"
proof -
  let ?l = "List_sessions lib ct es"
  have l: "?l = sort_key (\<lambda>s. (- su_activity s, su_session s)) (listed_entries lib ct es)"
    by (simp add: List_sessions_def listed_entries_def)
  have "mset (map su_session ?l) = mset (map su_session (listed_entries lib ct es))" by (simp add: l)
  then have d: "distinct (map su_session ?l)"
    using listed_distinct [OF assms] by (metis mset_eq_imp_distinct_iff)
  have "sorted_wrt (\<le>) ?l"
    using sorted_sort_key [of "\<lambda>s. (- su_activity s, su_session s)" "listed_entries lib ct es"]
    unfolding l sorted_map by (rule sorted_wrt_mono_rel [rotated]) (simp only: key_order)
  then have "sorted_wrt (<) ?l" using strictly d by blast
  with d show ?thesis by (simp add: l listed_set)
qed

theorem sessions_listed_witness:
  "set (List_sessions sample_lib sample_clock [(''s'', SessionDir (st_disk sample_begun)), (''x'', NotDirectory)]) =
    {summary_of sample_begun}"
proof -
  have "Open sample_lib sample_clock ''s'' (SessionDir (st_disk sample_begun)) = Inr sample_begun"
    using evolves_durable [OF sample_evolves sample_durable] Open_exact [of sample_lib sample_clock sample_begun]
    by (simp add: sample_begun_manifest sample_manifest_def)
  then show ?thesis
    using sessions_listed [of "[(''s'', SessionDir (st_disk sample_begun)), (''x'', NotDirectory)]" sample_lib sample_clock]
    by auto
qed

end
