(* ===== verification/Indent.thy ===== *)
theory Indent
  imports Json
begin

text \<open>
  \<open>json.MarshalIndent(v, "", "  ")\<close>: every element and member on a line of its own, two spaces per
  level, a space after the colon. The reader skips what the writer adds.
\<close>

definition pad :: "nat \<Rightarrow> bytes" where
  "pad d = CHR 0x0A # replicate (2 * d) (CHR 0x20)"

fun wr_in :: "nat \<Rightarrow> json \<Rightarrow> bytes" where
  "wr_in d (JArr vs) = (if vs = [] then ''[]'' else
     CHR ''['' # join_byte CHR '','' (map (\<lambda>v. pad (Suc d) @ wr_in (Suc d) v) vs) @ pad d @ [CHR '']''])"
| "wr_in d (JObj ms) = (if ms = [] then ''{}'' else
     CHR ''{'' # join_byte CHR '',''
       (map (\<lambda>(k, v). pad (Suc d) @ CHR 0x22 # k @ CHR 0x22 # CHR '':'' # CHR 0x20 # wr_in (Suc d) v) ms)
     @ pad d @ [CHR ''}''])"
| "wr_in d v = wr v"

definition MarshalIndent :: "json \<Rightarrow> bytes" where
  "MarshalIndent v = wr_in 0 v"

text \<open>A text that reads as a value wherever it stands.\<close>

definition reads :: "bytes \<Rightarrow> json \<Rightarrow> bool" where
  "reads x v \<longleftrightarrow> (\<forall>n t. num_stop t \<longrightarrow> 2 * length x < n \<longrightarrow> rd_val n (x @ t) = Some (v, t))"

lemma readsD: "reads x v \<Longrightarrow> num_stop t \<Longrightarrow> 2 * length x < n \<Longrightarrow> rd_val n (x @ t) = Some (v, t)"
  by (simp add: reads_def)

lemma reads_wr: "wf_json v \<Longrightarrow> reads (wr v) v"
  using wf_round_trips by (simp add: reads_def round_trips_def)

lemma skip_spaces: "\<forall>c \<in> set w. is_ws c \<Longrightarrow> skip_ws (w @ s) = skip_ws s"
  by (induction w) (simp_all add: skip_ws_def)

lemma skip_pad [simp]: "skip_ws (pad d @ s) = skip_ws s" "skip_ws (CHR 0x20 # s) = skip_ws s"
  using skip_spaces [of "pad d" s] skip_spaces [of "[CHR 0x20]" s] by (simp_all add: pad_def is_ws_def)

lemma rd_skip:
  assumes "skip_ws s = skip_ws s'"
  shows "rd_val n s = rd_val n s'" "rd_obj n s = rd_obj n s'"
  using assms by (cases n; simp add: rd_val.simps(2) rd_obj.simps(2))+

lemma reads_spaces: "reads x v \<Longrightarrow> reads (pad d @ x) v" "reads x v \<Longrightarrow> reads (CHR 0x20 # x) v"
  by (auto simp: reads_def rd_skip(1) [of "pad d @ x @ t" "x @ t" for t] rd_skip(1) [of "CHR 0x20 # x @ t" "x @ t" for t])

lemma num_stop_pad [simp]: "num_stop (pad d @ t)"
  by (simp add: num_stop_def pad_def is_digit_def byte_in_def)

lemma rd_arr_pieces:
  assumes "\<forall>p \<in> set (p # ps). reads (fst p) (snd p)"
    and "2 * length (join_byte CHR '','' (map fst (p # ps))) + 1 < n"
  shows "rd_arr n (join_byte CHR '','' (map fst (p # ps)) @ pad d @ CHR '']'' # t) = Some (map snd (p # ps), t)"
  using assms
proof (induction ps arbitrary: p n)
  case Nil
  then obtain m where n: "n = Suc m" by (cases n) auto
  with Nil have "rd_val m (fst p @ pad d @ CHR '']'' # t) = Some (snd p, pad d @ CHR '']'' # t)"
    by (intro readsD) auto
  with n show ?case by (simp add: rd_arr.simps(2))
next
  case (Cons q ps)
  then obtain m where n: "n = Suc m" by (cases n) auto
  let ?j = "join_byte CHR '','' (map fst (q # ps))"
  have j: "join_byte CHR '','' (map fst (p # q # ps)) = fst p @ CHR '','' # ?j" by simp
  have "rd_val m (fst p @ CHR '','' # ?j @ pad d @ CHR '']'' # t) = Some (snd p, CHR '','' # ?j @ pad d @ CHR '']'' # t)"
    using Cons.prems n j by (intro readsD) auto
  moreover have "rd_arr m (?j @ pad d @ CHR '']'' # t) = Some (map snd (q # ps), t)"
    using Cons.prems n j by (intro Cons.IH) auto
  ultimately show ?case using n j by (simp add: rd_arr.simps(2))
qed

definition piece :: "nat \<Rightarrow> bytes \<times> bytes \<times> json \<Rightarrow> bytes" where
  "piece d m = pad d @ CHR 0x22 # fst m @ CHR 0x22 # CHR '':'' # fst (snd m)"

lemma rd_obj_pieces:
  assumes "\<forall>m \<in> set (m # ms). str_ok (fst m) \<and> reads (fst (snd m)) (snd (snd m))"
    and "2 * length (join_byte CHR '','' (map (piece e) (m # ms))) + 1 < n"
  shows "rd_obj n (join_byte CHR '','' (map (piece e) (m # ms)) @ pad d @ CHR ''}'' # t) =
    Some (map (\<lambda>m. (fst m, snd (snd m))) (m # ms), t)"
  using assms
proof (induction ms arbitrary: m n)
  case Nil
  then obtain k where n: "n = Suc k" by (cases n) auto
  obtain a x v where m: "m = (a, x, v)" by (cases m)
  have "rd_val k (x @ pad d @ CHR ''}'' # t) = Some (v, pad d @ CHR ''}'' # t)"
    using Nil n m by (intro readsD) (auto simp: piece_def)
  with n m Nil show ?case by (simp add: rd_obj.simps(2) piece_def str_okD)
next
  case (Cons w ms)
  then obtain k where n: "n = Suc k" by (cases n) auto
  obtain a x v where m: "m = (a, x, v)" by (cases m)
  let ?j = "join_byte CHR '','' (map (piece e) (w # ms))"
  have j: "join_byte CHR '','' (map (piece e) (m # w # ms)) = piece e m @ CHR '','' # ?j" by simp
  have "rd_val k (x @ CHR '','' # ?j @ pad d @ CHR ''}'' # t) = Some (v, CHR '','' # ?j @ pad d @ CHR ''}'' # t)"
    using Cons.prems n j m by (intro readsD) (auto simp: piece_def)
  moreover have "rd_obj k (?j @ pad d @ CHR ''}'' # t) = Some (map (\<lambda>m. (fst m, snd (snd m))) (w # ms), t)"
    using Cons.prems n j by (intro Cons.IH) auto
  moreover have "piece e m = pad e @ CHR 0x22 # a @ CHR 0x22 # CHR '':'' # x"
    using m by (simp add: piece_def)
  moreover have "str_ok a" using Cons.prems(1) m by simp
  ultimately show ?case using n j m
    by (simp add: rd_obj.simps(2) str_okD del: join_byte.simps(3) list.map) simp
qed

lemma wr_in_hd: "wf_json v \<Longrightarrow> \<exists>c r. wr_in d v = c # r \<and> \<not> is_ws c \<and> c \<noteq> CHR '']''"
proof (cases v)
  case (JBool b)
  then show ?thesis by (cases b) (simp_all add: is_ws_def)
next
  case (JNum l)
  assume "wf_json v"
  with JNum show ?thesis by (metis wr_hd wr_in.simps(5))
next
  case (JArr vs)
  then show ?thesis by (cases "vs = []") simp_all
next
  case (JObj ms)
  then show ?thesis by (cases "ms = []") simp_all
qed (simp_all add: is_ws_def)

lemma rd_trim: "rd_arr n (skip_ws s) = rd_arr n s" "rd_obj n (skip_ws s) = rd_obj n s"
proof -
  have idem: "skip_ws (skip_ws s) = skip_ws s" by (simp add: skip_ws_def dropWhile_idem)
  show "rd_obj n (skip_ws s) = rd_obj n s" by (rule rd_skip(2) [OF idem])
  show "rd_arr n (skip_ws s) = rd_arr n s"
    by (cases n) (simp_all add: rd_arr.simps(2) rd_skip(1) [OF idem])
qed

text \<open>A bracket that is followed, after spaces, by the elements or members.\<close>

lemma rd_val_open:
  assumes "skip_ws s = c # r"
  shows "c \<noteq> CHR '']'' \<Longrightarrow> rd_val (Suc n) (CHR ''['' # s) = map_option (\<lambda>(vs, t). (JArr vs, t)) (rd_arr n s)"
    "c \<noteq> CHR ''}'' \<Longrightarrow> rd_val (Suc n) (CHR ''{'' # s) = map_option (\<lambda>(ms, t). (JObj ms, t)) (rd_obj n s)"
  using assms rd_trim [of n s] by (simp_all add: rd_val.simps(2))

lemma join_head: "\<exists>y. join_byte c (x # xs) @ t = x @ y"
  by (cases xs) auto

lemma reads_indented: "wf_json v \<Longrightarrow> reads (wr_in d v) v"
proof (induction v arbitrary: d)
  case (JArr vs)
  show ?case
  proof (cases vs)
    case Nil
    then show ?thesis using reads_wr [of "JArr []"] by simp
  next
    case (Cons v ws)
    define ps where "ps = map (\<lambda>v. (pad (Suc d) @ wr_in (Suc d) v, v)) ws"
    define p where "p = (pad (Suc d) @ wr_in (Suc d) v, v)"
    have all: "\<forall>p \<in> set (p # ps). reads (fst p) (snd p)"
      using JArr Cons by (auto simp: p_def ps_def list_all_iff intro: reads_spaces)
    have vals: "map snd (p # ps) = vs" by (simp add: Cons p_def ps_def o_def)
    let ?j = "join_byte CHR '','' (map fst (p # ps))"
    have w: "wr_in d (JArr vs) = CHR ''['' # ?j @ pad d @ [CHR '']'']"
      by (simp add: Cons p_def ps_def o_def)
    have "rd_val n (wr_in d (JArr vs) @ t) = Some (JArr vs, t)" if n: "2 * length (wr_in d (JArr vs)) < n" for n t
    proof -
      obtain m where m: "n = Suc m" using n by (cases n) auto
      obtain y where y: "?j @ pad d @ CHR '']'' # t = pad (Suc d) @ wr_in (Suc d) v @ y"
        using join_head [of "CHR '',''" "fst p" "map fst ps" "pad d @ CHR '']'' # t"] by (auto simp: p_def)
      obtain c r where c: "wr_in (Suc d) v = c # r" "\<not> is_ws c" "c \<noteq> CHR '']''"
        using wr_in_hd [of v "Suc d"] JArr.prems Cons by auto
      have "skip_ws (?j @ pad d @ CHR '']'' # t) = c # r @ y" unfolding y using c by simp
      from rd_val_open(1) [OF this c(3), of m] rd_arr_pieces [OF all, of m d t] n m
      show ?thesis unfolding w vals by simp
    qed
    then show ?thesis by (simp add: reads_def)
  qed
next
  case (JObj ms)
  show ?case
  proof (cases ms)
    case Nil
    then show ?thesis using reads_wr [of "JObj []"] by simp
  next
    case (Cons v ws)
    define f :: "bytes \<times> json \<Rightarrow> bytes \<times> bytes \<times> json" where "f = (\<lambda>(k, v). (k, CHR 0x20 # wr_in (Suc d) v, v))"
    have all: "\<forall>m \<in> set (f v # map f ws). str_ok (fst m) \<and> reads (fst (snd m)) (snd (snd m))"
    proof
      fix m assume "m \<in> set (f v # map f ws)"
      then have "m \<in> f ` set ms" by (auto simp: Cons)
      then obtain q where q: "q \<in> set ms" "m = f q" by blast
      obtain a w where "q = (a, w)" by (cases q)
      with q have aw: "(a, w) \<in> set ms" "m = (a, CHR 0x20 # wr_in (Suc d) w, w)" by (auto simp: f_def)
      from aw JObj.prems have "str_ok a" "wf_json w" by (auto simp: list_all_iff)
      have "reads (wr_in (Suc d) w) w" using JObj.IH [of "(a, w)" w "Suc d"] aw \<open>wf_json w\<close> by simp
      with aw \<open>str_ok a\<close> show "str_ok (fst m) \<and> reads (fst (snd m)) (snd (snd m))" by (auto intro: reads_spaces)
    qed
    have vals: "map (\<lambda>m. (fst m, snd (snd m))) (f v # map f ws) = ms" by (auto simp: Cons f_def o_def split_beta')
    let ?j = "join_byte CHR '','' (map (piece (Suc d)) (f v # map f ws))"
    have w: "wr_in d (JObj ms) = CHR ''{'' # ?j @ pad d @ [CHR ''}'']"
      by (simp add: Cons f_def o_def piece_def split_beta')
    have "rd_val n (wr_in d (JObj ms) @ t) = Some (JObj ms, t)" if n: "2 * length (wr_in d (JObj ms)) < n" for n t
    proof -
      obtain m where m: "n = Suc m" using n by (cases n) auto
      obtain y where "?j @ pad d @ CHR ''}'' # t = piece (Suc d) (f v) @ y"
        using join_head [of "CHR '',''" "piece (Suc d) (f v)" "map (piece (Suc d)) (map f ws)" "pad d @ CHR ''}'' # t"] by auto
      then have "\<exists>r. skip_ws (?j @ pad d @ CHR ''}'' # t) = CHR 0x22 # r" by (auto simp: piece_def)
      then obtain r where r: "skip_ws (?j @ pad d @ CHR ''}'' # t) = CHR 0x22 # r" ..
      have "rd_obj m (?j @ pad d @ CHR ''}'' # t) = Some (ms, t)"
        using rd_obj_pieces [OF all, of "Suc d" m d t] n m unfolding w vals by simp
      with rd_val_open(2) [OF r, of m] show ?thesis unfolding w m by simp
    qed
    then show ?thesis by (simp add: reads_def)
  qed
qed (use reads_wr in fastforce)+

lemma read_indented [simp]: "wf_json v \<Longrightarrow> read_doc (MarshalIndent v) = Some v"
  using readsD [OF reads_indented [of v 0], of "[]" "2 * length (wr_in 0 v) + 2"]
  by (simp add: read_doc_def read_first_def skip_ws_def MarshalIndent_def)

end
