(* ===== verification/Manifesttext.thy ===== *)
theory Manifesttext
  imports Durability Gofs Indent
begin

text \<open>
  \<open>manifest.json\<close>: what \<open>writeManifestLocked\<close> writes, \<open>json.MarshalIndent\<close> of the \<open>Manifest\<close>
  struct, and what \<open>Open\<close> makes of a file with \<open>decodeStrict\<close>. The store keeps the manifest file
  as the value it decodes to; here a directory holds its bytes, and the two views agree as long
  as the texts in the manifest are UTF-8 and its times and numbers are printable.
\<close>

subsection \<open>The text of a manifest\<close>

text \<open>A map is written with its keys in the order of their bytes.\<close>

definition map_json :: "('a \<Rightarrow> json) \<Rightarrow> (bytes \<Rightarrow> 'a option) \<Rightarrow> json" where
  "map_json enc m = JObj (map (\<lambda>k. (quote k, enc (the (m k)))) (sorted_list_of_set (dom m)))"

definition budget_json :: "run_budget \<Rightarrow> json" where
  "budget_json b = JObj [(''logical_model_calls'', u64_json (logical_calls b)),
     (''transport_attempts'', u64_json (attempts b)), (''retry_delay_ns'', jint (retry_delay b))]"

definition active_json :: "clock_text \<Rightarrow> bytes \<times> gotime \<Rightarrow> json" where
  "active_json ct r = JObj [(''id'', jstring (fst r)), (''started_at'', JStr (ct_show ct (snd r)))]"

definition manifest_json :: "clock_text \<Rightarrow> manifest \<Rightarrow> json" where
  "manifest_json ct m = JObj (
     [(''format_version'', jint (m_format m)), (''session_id'', jstring (m_session m)),
      (''workspace'', jstring (m_workspace m)), (''workspace_identity'', jstring (m_ws_identity m)),
      (''created_at'', JStr (ct_show ct (m_created m))), (''updated_at'', JStr (ct_show ct (m_updated m))),
      (''closed'', JBool (m_closed m)), (''projection_version'', jstring (m_projection m)),
      (''provider_binding'', binding_json (m_binding m)),
      (''authority'', JObj [(''workspace_read'', JBool (m_workspace_read m))]),
      (''transcript_seq'', u64_json (m_transcript_seq m)), (''event_cursor'', u64_json (m_event_cursor m)),
      (''next_run'', u64_json (m_next_run m)), (''seen_commands'', map_json JBool (m_seen m)),
      (''budgets'', map_json budget_json (m_budgets m))] @
     (case m_active m of None \<Rightarrow> [] | Some r \<Rightarrow> [(''active_run'', active_json ct r)]))"

definition manifest_text :: "clock_text \<Rightarrow> manifest \<Rightarrow> bytes" where
  "manifest_text ct m = MarshalIndent (manifest_json ct m)"

subsection \<open>Reading it\<close>

definition f_bool :: "(bool \<Rightarrow> 's \<Rightarrow> 's) \<Rightarrow> json \<Rightarrow> 's \<Rightarrow> 's option" where
  "f_bool upd v s = (case v of JBool b \<Rightarrow> Some (upd b s) | JNull \<Rightarrow> Some s | _ \<Rightarrow> None)"

text \<open>A map field: members are added to the map there is, the last of equal keys stays; null is no map.\<close>

fun decode_entries :: "(json \<Rightarrow> 'a option) \<Rightarrow> (bytes \<times> json) list \<Rightarrow> (bytes \<Rightarrow> 'a option) \<Rightarrow> (bytes \<Rightarrow> 'a option) option" where
  "decode_entries dec [] m = Some m"
| "decode_entries dec ((k, v) # ms) m =
     (case dec v of None \<Rightarrow> None | Some a \<Rightarrow> decode_entries dec ms (m(unquote k := Some a)))"

definition f_map :: "(json \<Rightarrow> 'a option) \<Rightarrow> ('s \<Rightarrow> bytes \<Rightarrow> 'a option) \<Rightarrow> ((bytes \<Rightarrow> 'a option) \<Rightarrow> 's \<Rightarrow> 's)
    \<Rightarrow> json \<Rightarrow> 's \<Rightarrow> 's option" where
  "f_map dec get upd v s = (case v of
     JNull \<Rightarrow> Some (upd (\<lambda>_. None) s)
   | JObj ms \<Rightarrow> map_option (\<lambda>m. upd m s) (decode_entries dec ms (get s))
   | _ \<Rightarrow> None)"

definition run_budget_fields :: "run_budget field list" where
  "run_budget_fields = [(''logical_model_calls'', f_u64 (\<lambda>n b. b\<lparr>logical_calls := n\<rparr>)),
     (''transport_attempts'', f_u64 (\<lambda>n b. b\<lparr>attempts := n\<rparr>)), (''retry_delay_ns'', f_int (\<lambda>n b. b\<lparr>retry_delay := n\<rparr>))]"

definition active_fields :: "clock_text \<Rightarrow> (bytes \<times> gotime) field list" where
  "active_fields ct = [(''id'', f_string (\<lambda>x (_, t). (x, t))), (''started_at'', f_time ct (\<lambda>t (x, _). (x, t)))]"

definition binding_fields :: "(bytes \<Rightarrow> bytes option) \<Rightarrow> provider_binding field list" where
  "binding_fields to_float = [
     (''digest'', f_string (\<lambda>x b. b\<lparr>pb_digest := x\<rparr>)), (''adapter'', f_string (\<lambda>x b. b\<lparr>pb_adapter := x\<rparr>)),
     (''wire_protocol'', f_string (\<lambda>x b. b\<lparr>pb_wire := x\<rparr>)),
     (''endpoint_sha256'', f_string (\<lambda>x b. b\<lparr>pb_endpoint_sha := x\<rparr>)),
     (''credential_source_sha256'', f_string (\<lambda>x b. b\<lparr>pb_credential_sha := x\<rparr>)),
     (''model'', f_string (\<lambda>x b. b\<lparr>pb_model := x\<rparr>)), (''context_window'', f_int (\<lambda>n b. b\<lparr>pb_window := n\<rparr>)),
     (''max_output_tokens'', f_int (\<lambda>n b. b\<lparr>pb_max_output := n\<rparr>)),
     (''temperature'', f_float_ptr to_float (\<lambda>t b. b\<lparr>pb_temperature := t\<rparr>)),
     (''seed'', f_int_ptr (\<lambda>n b. b\<lparr>pb_seed := n\<rparr>)),
     (''tool_choice'', f_string (\<lambda>x b. b\<lparr>pb_tool_choice := x\<rparr>)),
     (''user_preferences_sha256'', f_string (\<lambda>x b. b\<lparr>pb_preferences_sha := x\<rparr>)),
     (''prompt_version'', f_string (\<lambda>x b. b\<lparr>pb_prompt_version := x\<rparr>))]"

definition zero_binding :: provider_binding where
  "zero_binding = \<lparr>pb_digest = [], pb_adapter = [], pb_wire = [], pb_endpoint_sha = [], pb_credential_sha = [],
     pb_model = [], pb_window = 0, pb_max_output = 0, pb_temperature = None, pb_seed = None, pb_tool_choice = [],
     pb_preferences_sha = [], pb_prompt_version = []\<rparr>"

definition manifest_fields :: "clock_text \<Rightarrow> (bytes \<Rightarrow> bytes option) \<Rightarrow> manifest field list" where
  "manifest_fields ct to_float = [
     (''format_version'', f_int (\<lambda>n m. m\<lparr>m_format := n\<rparr>)), (''session_id'', f_string (\<lambda>x m. m\<lparr>m_session := x\<rparr>)),
     (''workspace'', f_string (\<lambda>x m. m\<lparr>m_workspace := x\<rparr>)),
     (''workspace_identity'', f_string (\<lambda>x m. m\<lparr>m_ws_identity := x\<rparr>)),
     (''created_at'', f_time ct (\<lambda>t m. m\<lparr>m_created := t\<rparr>)), (''updated_at'', f_time ct (\<lambda>t m. m\<lparr>m_updated := t\<rparr>)),
     (''closed'', f_bool (\<lambda>b m. m\<lparr>m_closed := b\<rparr>)), (''projection_version'', f_string (\<lambda>x m. m\<lparr>m_projection := x\<rparr>)),
     (''provider_binding'', f_nested (decode_struct (binding_fields to_float)) m_binding (\<lambda>b m. m\<lparr>m_binding := b\<rparr>)),
     (''authority'', f_nested (decode_struct [(''workspace_read'', f_bool (\<lambda>b _. b))]) m_workspace_read
        (\<lambda>b m. m\<lparr>m_workspace_read := b\<rparr>)),
     (''transcript_seq'', f_u64 (\<lambda>n m. m\<lparr>m_transcript_seq := n\<rparr>)),
     (''event_cursor'', f_u64 (\<lambda>n m. m\<lparr>m_event_cursor := n\<rparr>)), (''next_run'', f_u64 (\<lambda>n m. m\<lparr>m_next_run := n\<rparr>)),
     (''seen_commands'', f_map (\<lambda>v. f_bool (\<lambda>b _. b) v False) m_seen (\<lambda>x m. m\<lparr>m_seen := x\<rparr>)),
     (''budgets'', f_map (\<lambda>v. decode_struct run_budget_fields v zero_budget) m_budgets (\<lambda>x m. m\<lparr>m_budgets := x\<rparr>)),
     (''active_run'', f_nested_ptr (decode_struct (active_fields ct)) ([], 0) m_active (\<lambda>r m. m\<lparr>m_active := r\<rparr>))]"

definition zero_manifest :: manifest where
  "zero_manifest = \<lparr>m_format = 0, m_session = [], m_workspace = [], m_ws_identity = [], m_created = 0, m_updated = 0,
     m_closed = False, m_projection = [], m_binding = zero_binding, m_workspace_read = False, m_transcript_seq = 0,
     m_event_cursor = 0, m_next_run = 0, m_seen = (\<lambda>_. None), m_budgets = (\<lambda>_. None), m_active = None\<rparr>"

definition decodeStrict :: "'s field list \<Rightarrow> bytes \<Rightarrow> 's \<Rightarrow> 's option" where
  "decodeStrict fs raw s = (case read_doc raw of None \<Rightarrow> None | Some v \<Rightarrow> decode_struct fs v s)"

definition read_manifest :: "clock_text \<Rightarrow> (bytes \<Rightarrow> bytes option) \<Rightarrow> bytes option \<Rightarrow> manifest_file" where
  "read_manifest ct to_float file = (case file of
     None \<Rightarrow> NoManifest
   | Some raw \<Rightarrow> (case decodeStrict (manifest_fields ct to_float) raw zero_manifest of
        None \<Rightarrow> BadManifest | Some m \<Rightarrow> GoodManifest m))"

subsection \<open>What is written is what is read\<close>

text \<open>The manifests whose texts, times and numbers survive: JSON replaces bytes that are not UTF-8.\<close>

definition binding_prints :: "(bytes \<Rightarrow> bytes option) \<Rightarrow> provider_binding \<Rightarrow> bool" where
  "binding_prints to_float b \<longleftrightarrow>
     list_all utf8_valid [pb_digest b, pb_adapter b, pb_wire b, pb_endpoint_sha b, pb_credential_sha b, pb_model b,
       pb_tool_choice b, pb_preferences_sha b, pb_prompt_version b] \<and>
     i64_range (pb_window b) \<and> i64_range (pb_max_output b) \<and>
     (\<forall>t. pb_temperature b = Some t \<longrightarrow> num_ok t \<and> to_float t = Some t) \<and> (\<forall>n. pb_seed b = Some n \<longrightarrow> i64_range n)"

definition keys_print :: "(bytes \<Rightarrow> 'a option) \<Rightarrow> bool" where
  "keys_print m \<longleftrightarrow> finite (dom m) \<and> (\<forall>k \<in> dom m. utf8_valid k)"

definition prints :: "clock_text \<Rightarrow> (bytes \<Rightarrow> bytes option) \<Rightarrow> manifest \<Rightarrow> bool" where
  "prints ct to_float m \<longleftrightarrow>
     list_all utf8_valid [m_session m, m_workspace m, m_ws_identity m, m_projection m] \<and>
     i64_range (m_format m) \<and> clock_ok ct (m_created m) \<and> clock_ok ct (m_updated m) \<and>
     binding_prints to_float (m_binding m) \<and> keys_print (m_seen m) \<and> keys_print (m_budgets m) \<and>
     (\<forall>b \<in> ran (m_budgets m). i64_range (retry_delay b)) \<and>
     (\<forall>rid at. m_active m = Some (rid, at) \<longrightarrow> utf8_valid rid \<and> clock_ok ct at)"

lemma plain_manifest_names [simp]:
  "plain ''format_version''" "plain ''workspace''" "plain ''workspace_identity''"
  "plain ''created_at''" "plain ''updated_at''" "plain ''closed''" "plain ''projection_version''"
  "plain ''provider_binding''" "plain ''authority''" "plain ''workspace_read''" "plain ''transcript_seq''"
  "plain ''event_cursor''" "plain ''next_run''" "plain ''seen_commands''" "plain ''budgets''" "plain ''active_run''"
  "plain ''logical_model_calls''" "plain ''transport_attempts''" "plain ''retry_delay_ns''" "plain ''id''"
  "plain ''started_at''" "plain ''digest''" "plain ''adapter''" "plain ''wire_protocol''" "plain ''endpoint_sha256''"
  "plain ''credential_source_sha256''" "plain ''model''" "plain ''context_window''" "plain ''max_output_tokens''"
  "plain ''temperature''" "plain ''seed''" "plain ''tool_choice''" "plain ''user_preferences_sha256''"
  "plain ''prompt_version''"
  by (simp_all add: plain_def is_lower_def is_digit_def byte_in_def)

lemmas plain_manifest_names_ok [simp] = plain_manifest_names [THEN plain_str_ok]

lemma unquote_print: "utf8_valid s \<Longrightarrow> unquote (quote s) = s"
  by (simp add: unquote_quote to_valid_id)

lemma time_field:
  assumes "clock_ok ct t"
  shows "str_ok (ct_show ct t)" "f_time ct upd (JStr (ct_show ct t)) s = Some (upd t s)"
  using assms safe_text(2) by (auto simp: clock_ok_def f_time_def)

lemma budget_back:
  "i64_range (retry_delay b) \<Longrightarrow> decode_struct run_budget_fields (budget_json b) zero_budget = Some b"
  by (cases b) (simp add: run_budget_fields_def budget_json_def zero_budget_def)

lemma binding_back:
  "binding_prints to_float b \<Longrightarrow> decode_struct (binding_fields to_float) (binding_json b) zero_binding = Some b"
  by (cases b)
     (auto simp: binding_fields_def binding_json_def zero_binding_def binding_prints_def unquote_print
       f_float_ptr_def f_int_ptr_def split: option.splits)

lemma active_back:
  "utf8_valid rid \<Longrightarrow> clock_ok ct at \<Longrightarrow>
   decode_struct (active_fields ct) (active_json ct (rid, at)) ([], 0) = Some (rid, at)"
  by (simp add: active_fields_def active_json_def unquote_print time_field)

lemma entries_back:
  assumes "\<forall>k \<in> set ks. \<exists>a. m k = Some a \<and> utf8_valid k \<and> dec (enc a) = Some a"
  shows "decode_entries dec (map (\<lambda>k. (quote k, enc (the (m k)))) ks) m0 = Some (m0 ++ m |` set ks)"
  using assms
proof (induction ks arbitrary: m0)
  case (Cons k ks)
  then obtain a where "m k = Some a" "utf8_valid k" "dec (enc a) = Some a" by auto
  with Cons show ?case by (auto simp: unquote_print fun_eq_iff map_add_def restrict_map_def split: option.split)
qed (simp add: fun_eq_iff map_add_def)

lemma map_back:
  assumes "keys_print m" "\<forall>a \<in> ran m. dec (enc a) = Some a"
  shows "f_map dec get upd (map_json enc m) s = Some (upd (get s ++ m) s)"
proof -
  have "m |` dom m = m" by (rule ext) (auto simp: restrict_map_def domIff)
  with assms entries_back [of "sorted_list_of_set (dom m)" m dec enc "get s"] show ?thesis
    by (auto simp: f_map_def map_json_def keys_print_def ran_def)
qed

lemma json_parts_wf:
  "binding_prints to_float b \<Longrightarrow> wf_json (binding_json b)" "wf_json (budget_json c)"
  by (auto simp: binding_json_def binding_prints_def budget_json_def split: option.split)

lemma map_wf: "(\<And>a. wf_json (enc a)) \<Longrightarrow> wf_json (map_json enc m)"
  by (simp add: map_json_def list_all_iff)

text \<open>
  Only the workspace, a path of the file system, need not be UTF-8. Its text then holds the
  replacement character for what is not.
\<close>

definition read_back :: "manifest \<Rightarrow> manifest" where
  "read_back m = m\<lparr>m_workspace := to_valid (m_workspace m)\<rparr>"

lemma manifest_wf: "prints ct to_float (read_back m) \<Longrightarrow> wf_json (manifest_json ct m)"
  by (auto simp: read_back_def manifest_json_def prints_def keys_print_def active_json_def time_field json_parts_wf map_wf
      split: option.split)

lemma manifest_back:
  assumes "prints ct to_float (read_back m)"
  shows "decode_struct (manifest_fields ct to_float) (manifest_json ct m) zero_manifest = Some (read_back m)"
proof -
  note backs = binding_back budget_back active_back map_back time_field unquote_quote to_valid_id
  obtain fv sid ws wi cr up cl pv pb rd ts ec nr sc bd ar where m: "m = \<lparr>m_format = fv, m_session = sid,
      m_workspace = ws, m_ws_identity = wi, m_created = cr, m_updated = up, m_closed = cl, m_projection = pv,
      m_binding = pb, m_workspace_read = rd, m_transcript_seq = ts, m_event_cursor = ec, m_next_run = nr,
      m_seen = sc, m_budgets = bd, m_active = ar\<rparr>" by (cases m)
  have "active_json ct r \<noteq> JNull" for r by (simp add: active_json_def)
  with assms show ?thesis
    by (cases ar)
       (auto simp: m read_back_def prints_def manifest_fields_def manifest_json_def zero_manifest_def f_nested_def
          f_nested_ptr_def f_bool_def backs)
qed

lemma manifest_file_back:
  "prints ct to_float (read_back m) \<Longrightarrow> read_manifest ct to_float (Some (manifest_text ct m)) = GoodManifest (read_back m)"
  using manifest_wf manifest_back by (auto simp: read_manifest_def manifest_text_def decodeStrict_def)

lemma read_back_id [simp]: "prints ct to_float m \<Longrightarrow> read_back m = m"
  by (simp add: prints_def read_back_def to_valid_id)

text \<open>So a session made in a directory whose name is not UTF-8 comes back with another name.\<close>

lemma workspace_name_lost:
  assumes "prints ct to_float (read_back m)" "\<not> utf8_valid (m_workspace m)"
  shows "\<exists>m'. read_manifest ct to_float (Some (manifest_text ct m)) = GoodManifest m' \<and> m_workspace m' \<noteq> m_workspace m"
  using manifest_file_back [OF assms(1)] assms(2) utf8_valid_to_valid [of "m_workspace m"]
  by (auto simp: read_back_def simp del: utf8_valid_to_valid)

subsection \<open>The directory as files\<close>

record session_files =
  fl_manifest :: "bytes option"
  fl_transcript :: "bytes option"
  fl_events :: "bytes option"

definition disk_of :: "clock_text \<Rightarrow> (bytes \<Rightarrow> bytes option) \<Rightarrow> session_files \<Rightarrow> disk" where
  "disk_of ct to_float fl = \<lparr>d_manifest = read_manifest ct to_float (fl_manifest fl),
     d_transcript = fl_transcript fl, d_events = fl_events fl\<rparr>"

definition Open_files :: "stdlib \<Rightarrow> clock_text \<Rightarrow> (bytes \<Rightarrow> bytes option) \<Rightarrow> bytes \<Rightarrow> session_files \<Rightarrow> (store_error, store) result" where
  "Open_files lib ct to_float i fl = Open lib ct i (SessionDir (disk_of ct to_float fl))"

text \<open>\<open>writeManifestLocked\<close>: the text goes to a temporary file that is renamed over the old one.\<close>

definition writeManifestLocked :: "clock_text \<Rightarrow> manifest \<Rightarrow> io \<Rightarrow> session_files \<Rightarrow> bool \<times> session_files" where
  "writeManifestLocked ct m io fl = (let new = fl\<lparr>fl_manifest := Some (manifest_text ct m)\<rparr> in
     case io of IoManifest renamed \<Rightarrow> (False, if renamed then new else fl) | _ \<Rightarrow> (True, new))"

text \<open>The write of the store's model is this one, seen through \<open>disk_of\<close>.\<close>

lemma write_refines:
  assumes "prints ct to_float m"
  shows "map_prod id (disk_of ct to_float) (writeManifestLocked ct m io fl) = write_manifest m io (disk_of ct to_float fl)"
  using manifest_file_back [of ct to_float m] assms
  by (cases io) (auto simp: writeManifestLocked_def write_manifest_def disk_of_def Let_def)

text \<open>The files of a session object whose writes went well.\<close>

definition files_of :: "clock_text \<Rightarrow> store \<Rightarrow> session_files" where
  "files_of ct s = \<lparr>fl_manifest = Some (manifest_text ct (st_manifest s)),
     fl_transcript = d_transcript (st_disk s), fl_events = d_events (st_disk s)\<rparr>"

lemma disk_of_files:
  assumes "prints ct to_float (st_manifest s)" "d_manifest (st_disk s) = GoodManifest (st_manifest s)"
  shows "disk_of ct to_float (files_of ct s) = st_disk s"
  using assms manifest_file_back [of ct to_float "st_manifest s"] by (simp add: disk_of_def files_of_def)

subsection \<open>Operations keep the manifest printable\<close>

fun op_prints :: "clock_text \<Rightarrow> store_op \<Rightarrow> bool" where
  "op_prints ct (OpAppend rs) = (\<forall>r \<in> set rs. clock_ok ct (r_time r))"
| "op_prints ct (OpEvent e) = clock_ok ct (ev_time e)"
| "op_prints ct (OpBegin c t) = (utf8_valid c \<and> clock_ok ct t)"
| "op_prints ct (OpRecord c t) = (utf8_valid c \<and> clock_ok ct t)"
| "op_prints ct (OpFinish r t) = clock_ok ct t"
| "op_prints ct (OpReconcile r t) = clock_ok ct t"
| "op_prints ct (OpClose t) = clock_ok ct t"
| "op_prints ct (OpReserve r k n) = True"

lemma ascii_utf8: "list_all (\<lambda>c. ord_of c < 128) s \<Longrightarrow> utf8_valid s"
  by (induction s) simp_all

lemma run_name_utf8 [simp]: "utf8_valid (run_name n)"
proof -
  have "list_all (\<lambda>c. ord_of c < 128) (show_nat k)" for k
    using show_nat_digits [of _ k] by (fastforce simp: list_all_iff is_digit_def byte_in_def)
  then show ?thesis by (intro ascii_utf8) (simp add: run_name_def)
qed

lemma assign_seq_times: "assign_seq n rs = Inr as \<Longrightarrow> map r_time as = map r_time rs"
proof (induction rs arbitrary: n as)
  case (Cons a rs)
  then show ?case by (cases "assign_seq (n + 1) rs") (auto simp: Let_def split: sum.splits)
qed simp

lemma assigned_time:
  assumes "assign_seq n rs = Inr as" "as \<noteq> []" "\<forall>r \<in> set rs. P (r_time r)"
  shows "P (r_time (last as))"
proof -
  have "r_time (last as) \<in> r_time ` set rs"
    using assign_seq_times [OF assms(1)] last_in_set [OF assms(2)] by (metis image_eqI list.set_map)
  with assms(3) show ?thesis by auto
qed

lemma keys_print_upd: "keys_print m \<Longrightarrow> utf8_valid k \<Longrightarrow> keys_print (m(k := Some a))"
  by (auto simp: keys_print_def)

lemma reserved_in_range:
  "reserve_in k n b = Inr b' \<Longrightarrow> i64_range (retry_delay b) \<Longrightarrow> i64_range (retry_delay b')"
  by (auto simp: reserve_in_def split: budget_counter.splits if_splits)

lemma keys_print_ran: "b \<in> ran (m(k := Some a)) \<Longrightarrow> b = a \<or> b \<in> ran m"
  by (auto simp: ran_def split: if_splits)

lemma BeginRun_prints:
  assumes "prints ct to_float (st_manifest s)" "utf8_valid c" "clock_ok ct t"
  shows "prints ct to_float (st_manifest (snd (BeginRun c t io s)))"
  using assms
  by (auto simp: BeginRun_def prints_def keys_print_upd zero_budget_def i64_range_def persist_manifest Let_def
      dest!: keys_print_ran)

lemma ReserveBudget_prints:
  assumes "prints ct to_float (st_manifest s)"
  shows "prints ct to_float (st_manifest (snd (ReserveBudget rid k n io s)))"
proof (cases "m_budgets (st_manifest s) rid")
  case (Some b)
  with assms have b: "utf8_valid rid" "i64_range (retry_delay b)" by (auto simp: prints_def keys_print_def ran_def)
  show ?thesis
  proof (cases "reserve_in k n b")
    case (Inr b')
    from reserved_in_range [OF this b(2)] assms b(1) show ?thesis
      by (auto simp: ReserveBudget_def Some Inr prints_def keys_print_upd persist_manifest Let_def dest!: keys_print_ran)
  qed (simp add: ReserveBudget_def Some assms)
qed (simp add: ReserveBudget_def assms)

lemma Append_prints:
  assumes "prints ct to_float (st_manifest s)" "\<forall>r \<in> set rs. clock_ok ct (r_time r)"
  shows "prints ct to_float (st_manifest (snd (AppendTranscript ct rs io s)))"
proof (cases "assign_seq (m_transcript_seq (st_manifest s)) rs")
  case (Inr as)
  from assigned_time [OF this _ assms(2)] assms(1) show ?thesis
    by (auto simp: AppendTranscript_def Inr prints_def persist_manifest Let_def split: prod.split)
qed (simp add: AppendTranscript_def assms)

lemma small_ops_print:
  assumes "prints ct to_float (st_manifest s)" "clock_ok ct t"
  shows "utf8_valid c \<Longrightarrow> prints ct to_float (st_manifest (snd (RecordCommand c t io s)))"
    "prints ct to_float (st_manifest (snd (FinishRun rid t io s)))"
    "prints ct to_float (st_manifest (snd (ReconcileRun rid t io s)))"
    "prints ct to_float (st_manifest (snd (Close t io s)))"
    "ev_time e = t \<Longrightarrow> prints ct to_float (st_manifest (snd (AppendEvent ct e io s)))"
  using assms
  by (auto simp: RecordCommand_def FinishRun_def ReconcileRun_def Close_def AppendEvent_def prints_def keys_print_upd
      persist_manifest Let_def split: prod.split)

lemma run_op_prints:
  assumes "prints ct to_float (st_manifest s)" "op_prints ct op" "run_op ct op io s = (r, s')"
  shows "prints ct to_float (st_manifest s')"
proof -
  have "prints ct to_float (st_manifest (snd (run_op ct op io s)))"
    using assms(1,2)
    by (cases op) (simp_all add: drop_value_def BeginRun_prints ReserveBudget_prints Append_prints small_ops_print)
  with assms(3) show ?thesis by simp
qed

inductive written :: "clock_text \<Rightarrow> store \<Rightarrow> store \<Rightarrow> bool" for ct s where
  start: "written ct s s"
| op: "written ct s s1 \<Longrightarrow> op_ok ct op s1 \<Longrightarrow> op_prints ct op \<Longrightarrow> run_op ct op IoOk s1 = (r, s2) \<Longrightarrow> written ct s s2"

lemma written_evolves:
  assumes "written ct s s'" "prints ct to_float (st_manifest s)"
  shows "evolves ct s s' \<and> prints ct to_float (st_manifest s')"
  using assms by (induction rule: written.induct) (auto intro: evolves.intros run_op_prints)

lemma session_utf8: "validateSessionID i \<Longrightarrow> utf8_valid i"
  by (intro ascii_utf8) (fastforce simp: validateSessionID_def list_all_iff is_lower_def is_upper_def is_digit_def byte_in_def)

lemma Create_prints:
  assumes "Create lib resolve taken root i ws projection binding now IoOk = Inr s"
    and "resolve ws = Some (c, d)" "list_all utf8_valid [c, d, projection]" "binding_prints to_float binding" "clock_ok ct now"
  shows "prints ct to_float (st_manifest s)"
  using assms session_utf8 [of i]
  by (auto simp: Create_def persist_ok prints_def keys_print_def FormatVersion_def i64_range_def Let_def split: if_splits)

text \<open>The session of \<open>Durability\<close>, a run begun.\<close>

lemma sample_written: "written sample_clock sample_store sample_begun"
  using written.op [OF written.start, of sample_clock "OpBegin ''c1'' 5" sample_store, OF _ _ run_op_pair]
  by (simp add: sample_begun_def)

lemma sample_binding_prints: "binding_prints Some sample_binding"
proof -
  have "utf8_valid (replicate 64 (CHR ''a''))" by (intro ascii_utf8) (simp add: list_all_iff)
  then show ?thesis by (simp add: binding_prints_def sample_binding_def Let_def i64_range_def)
qed

text \<open>
  C4: Reopening is exact down to the bytes of the files: when the names a session is made with
  and the commands it is given are UTF-8 and its times printable, the manifest that is written,
  indented JSON with its maps, budgets and active run, is read back by the strict decoder as it
  was, and the directory opens as the very session object the process held.
\<close>

theorem reopen_files:
  assumes "Create lib resolve taken root i ws projection binding now IoOk = Inr s0"
    and "now \<noteq> 0" "projection \<noteq> []" "\<And>w c d. resolve w = Some (c, d) \<Longrightarrow> is_abs c \<and> d \<noteq> []"
    and "resolve ws = Some (c, d)" "list_all utf8_valid [c, d, projection]" "binding_prints to_float binding" "clock_ok ct now"
    and "written ct s0 s"
  shows "Open_files lib ct to_float i (files_of ct s) = Inr s"
proof -
  from written_evolves [OF assms(9) Create_prints [OF assms(1,5-8)]] have s: "evolves ct s0 s" "prints ct to_float (st_manifest s)"
    by simp_all
  from Create_durable [OF assms(1-4)] have "durable_ok lib ct s0" "m_session (st_manifest s0) = i" by simp_all
  with evolves_durable [OF s(1)] have d: "durable_ok lib ct s" "m_session (st_manifest s) = i" by simp_all
  with Open_exact [OF d(1)] disk_of_files [OF s(2)] show ?thesis by (simp add: Open_files_def durable_ok_def)
qed

theorem reopen_files_witness:
  "Open_files sample_lib sample_clock Some ''s'' (files_of sample_clock sample_begun) = Inr sample_begun"
  by (rule reopen_files [OF sample_Create _ _ _ _ _ sample_binding_prints _ sample_written, of "''/w''" "''dev:1''"])
     (auto simp: sample_resolve_def is_abs_def)

end
