(* ===== verification/Fileid.thy ===== *)
theory Fileid
  imports Workspace
begin

text \<open>
  \<open>internal/platform/fileid/fileid.go\<close> and the rest of \<open>internal/workspace/workspace.go\<close>. What
  \<open>FileInfo.Sys\<close> returns is seen as reflection does: the kinds of value the code tells apart.
  A \<open>host\<close> answers for the calls \<open>Open\<close> makes on the host's file system.
\<close>

datatype rvalue = RUint u64 | RInt int | RStruct "(bytes \<times> rvalue) list" | RPtr "rvalue option" | ROther

fun field_by_name :: "rvalue \<Rightarrow> bytes \<Rightarrow> rvalue option" where
  "field_by_name (RStruct fs) name = map_of fs name"
| "field_by_name _ name = None"

definition unsignedValue :: "rvalue option \<Rightarrow> nat option" where
  "unsignedValue v = (case v of
     Some (RUint u) \<Rightarrow> Some (unat u)
   | Some (RInt i) \<Rightarrow> if i < 0 then None else Some (nat i)
   | _ \<Rightarrow> None)"

definition birthTime :: "rvalue \<Rightarrow> (int \<times> int) option" where
  "birthTime v =
    (case field_by_name v ''Birthtimespec'' of
       None \<Rightarrow> None
     | Some b0 \<Rightarrow>
        (case (case b0 of RPtr p \<Rightarrow> p | _ \<Rightarrow> Some b0) of
           Some (RStruct fs) \<Rightarrow>
             (case (map_of fs ''Sec'', map_of fs ''Nsec'') of
                (Some (RInt s), Some (RInt n)) \<Rightarrow> Some (s, n)
              | _ \<Rightarrow> None)
         | _ \<Rightarrow> None))"

text \<open>The pointer \<open>Sys\<close> may return is followed once; None is a nil \<open>FileInfo\<close> or \<open>Sys\<close>.\<close>

definition sys_struct :: "rvalue option \<Rightarrow> rvalue option" where
  "sys_struct sys = (case sys of
     None \<Rightarrow> None
   | Some (RPtr p) \<Rightarrow> (case p of Some (RStruct fs) \<Rightarrow> Some (RStruct fs) | _ \<Rightarrow> None)
   | Some (RStruct fs) \<Rightarrow> Some (RStruct fs)
   | _ \<Rightarrow> None)"

definition FromInfo :: "bytes \<Rightarrow> rvalue option \<Rightarrow> bytes" where
  "FromInfo goos sys =
    (case sys_struct sys of
       None \<Rightarrow> goos @ '':unavailable''
     | Some v \<Rightarrow>
        (case (unsignedValue (field_by_name v ''Dev''), unsignedValue (field_by_name v ''Ino'')) of
           (Some d, Some i) \<Rightarrow>
             (case birthTime v of
                Some (s, n) \<Rightarrow> goos @ '':'' @ show_nat d @ '':'' @ show_nat i @ '':'' @ show_int s @ '':'' @ show_int n
              | None \<Rightarrow> goos @ '':'' @ show_nat d @ '':'' @ show_nat i)
         | _ \<Rightarrow> goos @ '':unavailable''))"

definition HasBirthTime :: "rvalue option \<Rightarrow> bool" where
  "HasBirthTime sys = (case sys of
     None \<Rightarrow> False
   | Some (RPtr None) \<Rightarrow> False
   | Some (RPtr (Some v)) \<Rightarrow> birthTime v \<noteq> None
   | Some v \<Rightarrow> birthTime v \<noteq> None)"

subsection \<open>Opening a workspace\<close>

record host =
  h_resolve :: "bytes \<Rightarrow> (ws_error, bytes) result"
  h_abs :: "bytes \<Rightarrow> (ws_error, bytes) result"
  h_is_dir :: "bytes \<Rightarrow> (ws_error, bool) result"
  h_root :: "bytes \<Rightarrow> (ws_error, unit) result"
  h_sys :: "bytes \<Rightarrow> (ws_error, rvalue option) result"

datatype open_error = RootRequired | RootHost ws_error | RootNotDirectory

definition ws_Open :: "host \<Rightarrow> bytes \<Rightarrow> (open_error, bytes) result" where
  "ws_Open h name =
    (if name = [] then Inl RootRequired
     else (case h_resolve h name of
       Inl e \<Rightarrow> Inl (RootHost e)
     | Inr resolved \<Rightarrow>
        (case h_abs h resolved of
           Inl e \<Rightarrow> Inl (RootHost e)
         | Inr resolved \<Rightarrow>
            (case h_is_dir h resolved of
               Inl e \<Rightarrow> Inl (RootHost e)
             | Inr dir \<Rightarrow>
                if \<not> dir then Inl RootNotDirectory
                else (case h_root h resolved of Inl e \<Rightarrow> Inl (RootHost e) | Inr _ \<Rightarrow> Inr resolved)))))"

definition ws_Identity :: "host \<Rightarrow> bytes \<Rightarrow> bytes \<Rightarrow> (ws_error, bytes) result" where
  "ws_Identity h goos root = (case h_sys h root of Inl e \<Rightarrow> Inl e | Inr sys \<Rightarrow> Inr (FromInfo goos sys))"

subsection \<open>Identity\<close>

lemma show_nat_no_colon: "CHR '':'' \<notin> set (show_nat n)"
  using show_nat_digits [of "CHR '':''" n] by (auto simp: is_digit_def byte_in_def)

lemma show_int_no_colon: "CHR '':'' \<notin> set (show_int n)"
  by (simp add: show_int_def show_nat_no_colon)

lemma show_nat_no_minus: "show_nat n \<noteq> CHR ''-'' # s"
proof
  assume "show_nat n = CHR ''-'' # s"
  then have "is_digit CHR ''-''" using show_nat_digits [of "CHR ''-''" n] by simp
  then show False by (simp add: is_digit_def byte_in_def)
qed

lemma show_int_inject: "show_int m = show_int n \<longleftrightarrow> m = n"
  using show_nat_no_minus [of "nat m"] show_nat_no_minus [of "nat n"] by (auto simp: show_int_def) metis+

lemma colon_cut:
  "c \<notin> set a \<Longrightarrow> c \<notin> set a' \<Longrightarrow> a @ c # r = a' @ c # r' \<longleftrightarrow> a = a' \<and> r = r'"
proof (induction a arbitrary: a')
  case Nil
  then show ?case by (cases a') auto
next
  case (Cons x a)
  then show ?case by (cases a') auto
qed

lemma no_colon_cut: "c \<notin> set a \<Longrightarrow> a \<noteq> b @ c # r" "c \<notin> set a \<Longrightarrow> b @ c # r \<noteq> a"
  by auto

text \<open>
  The identity of a file tells files apart: on one system, two values that are available and
  have the same text have the same device and inode number, and the same birth time if either
  has one.
\<close>

theorem identity_injective:
  assumes "FromInfo goos a = FromInfo goos b" "sys_struct a = Some v" "sys_struct b = Some w"
    and "unsignedValue (field_by_name v ''Dev'') = Some d" "unsignedValue (field_by_name v ''Ino'') = Some i"
    and "unsignedValue (field_by_name w ''Dev'') = Some d'" "unsignedValue (field_by_name w ''Ino'') = Some i'"
  shows "d = d' \<and> i = i' \<and> birthTime v = birthTime w"
  using assms
  by (auto simp: FromInfo_def colon_cut no_colon_cut show_nat_no_colon show_int_no_colon show_int_inject
      split: option.splits)

theorem identity_injective_witness:
  "FromInfo ''linux'' (Some (RPtr (Some (RStruct [(''Ino'', RUint 2), (''Dev'', RInt 1)])))) =
     FromInfo ''linux'' (Some (RStruct [(''Dev'', RUint 1), (''Ino'', RUint 2)])) \<and>
   birthTime (RStruct [(''Ino'', RUint 2), (''Dev'', RInt 1)]) = birthTime (RStruct [(''Dev'', RUint 1), (''Ino'', RUint 2)])"
proof -
  have "FromInfo ''linux'' (Some (RPtr (Some (RStruct [(''Ino'', RUint 2), (''Dev'', RInt 1)])))) =
     FromInfo ''linux'' (Some (RStruct [(''Dev'', RUint 1), (''Ino'', RUint 2)]))"
    by (simp add: FromInfo_def sys_struct_def unsignedValue_def birthTime_def)
  from this identity_injective [OF this, of "RStruct [(''Ino'', RUint 2), (''Dev'', RInt 1)]"
      "RStruct [(''Dev'', RUint 1), (''Ino'', RUint 2)]" 1 2 1 2]
  show ?thesis by (simp add: sys_struct_def unsignedValue_def)
qed

end
