(* ===== verification/Engine.thy ===== *)
theory Engine
  imports Recovery Toolsafe Fileid
begin

text \<open>
  \<open>internal/engine/engine.go\<close>: the process-wide engine and the operations on stored sessions. An
  \<open>engine_env\<close> answers for the rest: the directories below the store root, the host's file
  system, the tree of the workspace at each look, random session names (None: no randomness),
  the writes of \<open>Create\<close>, and the \<open>world\<close> the session runs in, whose broker, assembler and
  instruction source the engine supplies. The clock default, the logger, and closing the
  workspace handle are left out.
\<close>

record engine_config =
  ec_root :: bytes
  ec_provider :: "identity option option"
  ec_window :: int
  ec_max_output :: int
  ec_preferences :: bytes

record engine =
  eg_cfg :: engine_config
  eg_binding :: provider_binding

datatype eng_error =
    EngStoreRoot | EngProvider | EngLimits | EngNoIdentity | EngIncomplete | EngCapability | EngBinding
  | EngCtx | EngOpen open_error | EngMoved | EngFs ws_error | EngReplaced | EngProjection | EngBindingDiffers
  | EngPathSecret | EngPreferencesSecret | EngPrompt prompt_error | EngBroker broker_error
  | EngStore store_error | EngRandom | EngNoName | EngSession engine_error

record engine_env =
  ee_lib :: stdlib
  ee_clock :: clock_text
  ee_host :: host
  ee_goos :: bytes
  ee_root :: "bytes \<Rightarrow> entry"
  ee_tools :: tool_world
  ee_read :: "nat \<Rightarrow> bytes \<Rightarrow> (ws_error, bytes) result"
  ee_ids :: "nat \<Rightarrow> bytes option"
  ee_io :: "nat \<Rightarrow> io"
  ee_now :: gotime
  ee_world :: world

subsection \<open>New\<close>

definition engine_binding :: "stdlib \<Rightarrow> engine_config \<Rightarrow> identity \<Rightarrow> provider_binding" where
  "engine_binding lib cfg i =
    (let b = \<lparr>pb_digest = [], pb_adapter = id_adapter i, pb_wire = id_wire i, pb_endpoint_sha = id_endpoint_sha i,
              pb_credential_sha = id_credential_sha i, pb_model = id_model i, pb_window = ec_window cfg,
              pb_max_output = ec_max_output cfg, pb_temperature = id_temperature i, pb_seed = id_seed i,
              pb_tool_choice = id_tool_choice i, pb_preferences_sha = sha256_hex lib (ec_preferences cfg),
              pb_prompt_version = PromptVersion\<rparr>
     in b\<lparr>pb_digest := ComputeDigest lib b\<rparr>)"

definition New_engine :: "stdlib \<Rightarrow> engine_config \<Rightarrow> (eng_error, engine) result" where
  "New_engine lib cfg =
    (if ec_root cfg = [] then Inl EngStoreRoot
     else (case ec_provider cfg of
       None \<Rightarrow> Inl EngProvider
     | Some ip \<Rightarrow>
        if ec_window cfg \<le> 0 \<or> ec_max_output cfg \<le> 0 then Inl EngLimits
        else (case ip of
          None \<Rightarrow> Inl EngNoIdentity
        | Some i \<Rightarrow>
           if id_adapter i = [] \<or> id_wire i = [] \<or> id_endpoint_sha i = [] \<or> id_credential_sha i = [] \<or> id_model i = []
           then Inl EngIncomplete
           else if (id_context_window i \<noteq> 0 \<and> id_context_window i \<noteq> ec_window cfg) \<or>
                   (id_max_output i \<noteq> 0 \<and> id_max_output i \<noteq> ec_max_output cfg)
           then Inl EngCapability
           else (let b = engine_binding lib cfg i
             in if \<not> binding_valid lib b then Inl EngBinding else Inr \<lparr>eg_cfg = cfg, eg_binding = b\<rparr>))))"

subsection \<open>Create and Load\<close>

text \<open>What \<open>store.Create\<close> finds of a workspace, from the same calls as \<open>workspace.Open\<close>.\<close>

definition store_resolve :: "host \<Rightarrow> bytes \<Rightarrow> bytes \<Rightarrow> (bytes \<times> bytes) option" where
  "store_resolve h goos name =
    (case h_resolve h name of
       Inl _ \<Rightarrow> None
     | Inr r \<Rightarrow> (case h_abs h r of
         Inl _ \<Rightarrow> None
       | Inr clean \<Rightarrow> (case ws_Identity h goos clean of Inl _ \<Rightarrow> None | Inr i \<Rightarrow> Some (clean, i))))"

fun allocate :: "engine_env \<Rightarrow> engine \<Rightarrow> bytes \<Rightarrow> nat \<Rightarrow> nat \<Rightarrow> (eng_error, bytes \<times> store) result" where
  "allocate env e name k 0 = Inl EngNoName"
| "allocate env e name k (Suc n) =
    (case ee_ids env k of
       None \<Rightarrow> Inl EngRandom
     | Some hex \<Rightarrow>
        (let i = ''sess-'' @ hex in
         case Create (ee_lib env) (store_resolve (ee_host env) (ee_goos env)) (ee_root env i \<noteq> NoEntry)
                (ec_root (eg_cfg e)) i name ProjectionVersion (eg_binding e) (ee_now env) (ee_io env k) of
           Inr st \<Rightarrow> Inr (i, st)
         | Inl ErrExists \<Rightarrow> allocate env e name (Suc k) n
         | Inl err \<Rightarrow> Inl (EngStore err)))"

text \<open>A stored session is accepted only for the same workspace, projection and provider.\<close>

definition durable_matches :: "engine_env \<Rightarrow> engine \<Rightarrow> bytes \<Rightarrow> store \<Rightarrow> (eng_error, unit) result" where
  "durable_matches env e name st =
    (let m = st_manifest st in
     if name \<noteq> m_workspace m then Inl EngMoved
     else (case ws_Identity (ee_host env) (ee_goos env) name of
       Inl err \<Rightarrow> Inl (EngFs err)
     | Inr i \<Rightarrow>
        if i \<noteq> m_ws_identity m then Inl EngReplaced
        else if m_projection m \<noteq> ProjectionVersion then Inl EngProjection
        else if pb_digest (m_binding m) \<noteq> pb_digest (eg_binding e) then Inl EngBindingDiffers
        else Inr ()))"

definition discover :: "engine_env \<Rightarrow> nat \<Rightarrow> (prompt_error, instruction list) result" where
  "discover env k = DiscoverInstructions (ee_lib env) (w_snap (ee_tools env) k) (ee_read env k) ''.''"

text \<open>What the engine adds to the world of the sessions it makes.\<close>

definition engine_world :: "engine_env \<Rightarrow> broker \<Rightarrow> pconfig \<Rightarrow> world" where
  "engine_world env b a = (ee_world env)\<lparr>w_lib := ee_lib env, w_clock := ee_clock env, w_broker := b,
     w_assembler := Some a, w_docs := Some (discover env)\<rparr>"

definition createOrLoad :: "engine_env \<Rightarrow> bool \<Rightarrow> engine \<Rightarrow> bytes \<Rightarrow> bytes \<Rightarrow> store option
    \<Rightarrow> (eng_error, world \<times> session) result" where
  "createOrLoad env gone e path i0 durable0 =
    (let cfg = eg_cfg e in
     if gone then Inl EngCtx
     else (case ws_Open (ee_host env) path of
       Inl err \<Rightarrow> Inl (EngOpen err)
     | Inr name \<Rightarrow>
     (case (case durable0 of None \<Rightarrow> Inr () | Some st \<Rightarrow> durable_matches env e name st) of
       Inl err \<Rightarrow> Inl err
     | Inr _ \<Rightarrow>
        if ValidatePrompt name \<noteq> Inr () then Inl EngPathSecret
        else if ec_preferences cfg \<noteq> [] \<and> ValidatePrompt (ec_preferences cfg) \<noteq> Inr () then Inl EngPreferencesSecret
        else (case discover env 0 of
          Inl err \<Rightarrow> Inl (EngPrompt err)
        | Inr docs \<Rightarrow>
        (case NewBroker (NewCatalog (ee_lib env) (ee_tools env)) of
          Inl err \<Rightarrow> Inl (EngBroker err)
        | Inr b \<Rightarrow>
        (case NewAssembler \<lparr>pc_workspace = name, pc_active = ''.'', pc_window = ec_window cfg,
                pc_max_output = ec_max_output cfg, pc_preferences = ec_preferences cfg\<rparr> of
          Inl err \<Rightarrow> Inl (EngPrompt err)
        | Inr a \<Rightarrow>
        (case (case durable0 of Some st \<Rightarrow> Inr (i0, st) | None \<Rightarrow> allocate env e name 0 8) of
          Inl err \<Rightarrow> Inl err
        | Inr (i, st) \<Rightarrow>
           (let w = engine_world env b a in
            case NewSession w i docs (Some st) of
              (Inl err, _) \<Rightarrow> Inl (EngSession err)
            | (Inr _, s) \<Rightarrow> Inr (w, s)))))))))"

definition Create_session :: "engine_env \<Rightarrow> bool \<Rightarrow> engine \<Rightarrow> bytes \<Rightarrow> (eng_error, world \<times> session) result" where
  "Create_session env gone e path = createOrLoad env gone e path [] None"

definition Load_session :: "engine_env \<Rightarrow> bool \<Rightarrow> engine \<Rightarrow> bytes \<Rightarrow> (eng_error, world \<times> session) result" where
  "Load_session env gone e i =
    (case Open (ee_lib env) (ee_clock env) i (ee_root env i) of
       Inl err \<Rightarrow> Inl (EngStore err)
     | Inr st \<Rightarrow> createOrLoad env gone e (m_workspace (st_manifest st)) i (Some st))"

definition CloseSession :: "engine_env \<Rightarrow> bool \<Rightarrow> engine \<Rightarrow> bytes \<Rightarrow> bytes \<Rightarrow> (eng_error, session) result" where
  "CloseSession env gone e i c =
    (case Load_session env gone e i of
       Inl err \<Rightarrow> Inl err
     | Inr (w, s) \<Rightarrow>
        (case Apply w gone (ForSession (NewClose c) i) s of
           (Inl err, _) \<Rightarrow> Inl (EngSession err)
         | (Inr _, s') \<Rightarrow> Inr s'))"

subsection \<open>Stored sessions\<close>

record stored_session =
  ss_session :: bytes
  ss_workspace :: bytes
  ss_activity :: gotime
  ss_closed :: bool

definition InspectStoredSession :: "engine_env \<Rightarrow> bytes \<Rightarrow> (store_error, stored_session) result" where
  "InspectStoredSession env i = map_sum id (\<lambda>st. let m = st_manifest st in
     \<lparr>ss_session = m_session m, ss_workspace = m_workspace m, ss_activity = m_updated m, ss_closed = m_closed m\<rparr>)
     (Open (ee_lib env) (ee_clock env) i (ee_root env i))"

definition LoadStoredTranscript :: "engine_env \<Rightarrow> bytes \<Rightarrow> (store_error, trecord list) result" where
  "LoadStoredTranscript env i = map_sum id st_transcript (Open (ee_lib env) (ee_clock env) i (ee_root env i))"

definition ListStoredSessions :: "engine_env \<Rightarrow> bytes list \<Rightarrow> stored_session list" where
  "ListStoredSessions env names = map (\<lambda>s. \<lparr>ss_session = su_session s, ss_workspace = su_workspace s,
       ss_activity = su_activity s, ss_closed = su_closed s\<rparr>)
     (List_sessions (ee_lib env) (ee_clock env) (map (\<lambda>i. (i, ee_root env i)) names))"

text \<open>
  \<open>CloseStoredSession\<close>: the store it leaves behind. The session has no broker, and its provider
  is a scripted one without turns.
\<close>

definition scripted_call :: "request \<Rightarrow> attempt" where
  "scripted_call req = (case play (\<lambda>_. False) (Some collect) req (NewScripted []) [] of
     (r, _, ds) \<Rightarrow> (ds, case (r :: (unit call_error, response) result) of
        Inl (call_error.Failed f) \<Rightarrow> Inl (Some f) | Inl _ \<Rightarrow> Inl None | Inr resp \<Rightarrow> Inr resp))"

lemma scripted_call_fails [simp]: "scripted_call req \<noteq> (ds, Inr resp)"
  by (simp add: scripted_call_def play_def NewScripted_def)

definition CloseStoredSession :: "engine_env \<Rightarrow> bool \<Rightarrow> bytes \<Rightarrow> bytes \<Rightarrow> (eng_error, store) result" where
  "CloseStoredSession env gone i c =
    (case Open (ee_lib env) (ee_clock env) i (ee_root env i) of
       Inl err \<Rightarrow> Inl (EngStore err)
     | Inr st \<Rightarrow>
        if m_closed (st_manifest st) then Inr st
        else (let w = (ee_world env)\<lparr>w_lib := ee_lib env, w_clock := ee_clock env, w_broker := [],
                     w_assembler := None, w_docs := None, w_call := \<lambda>_. scripted_call\<rparr> in
          case NewSession w i [] (Some st) of
            (Inl err, _) \<Rightarrow> Inl (EngSession err)
          | (Inr _, s) \<Rightarrow>
             (case Apply w gone (ForSession (NewClose c) i) s of
                (Inl err, _) \<Rightarrow> Inl (EngSession err)
              | (Inr _, s') \<Rightarrow> Inr (the (s_durable s')))))"

subsection \<open>A durable close is final\<close>

definition durably_closed :: "session \<Rightarrow> bool" where
  "durably_closed s \<longleftrightarrow> (\<exists>st. s_durable s = Some st \<and> m_closed (st_manifest st))"

lemma store_keeps_closed:
  "m_closed (st_manifest (snd (AppendTranscript ct rs io st))) = m_closed (st_manifest st)"
  "m_closed (st_manifest (snd (AppendEvent ct ev io st))) = m_closed (st_manifest st)"
  "m_closed (st_manifest (snd (BeginRun c t io st))) = m_closed (st_manifest st)"
  "m_closed (st_manifest (snd (RecordCommand c t io st))) = m_closed (st_manifest st)"
  "m_closed (st_manifest (snd (FinishRun rid t io st))) = m_closed (st_manifest st)"
  "m_closed (st_manifest (snd (ReserveBudget rid k n io st))) = m_closed (st_manifest st)"
  "m_closed (st_manifest st) \<Longrightarrow> m_closed (st_manifest (snd (Close t io st)))"
  by (auto simp: step_defs Let_def split: sum.split option.split io.split prod.split)

lemma closed_ops:
  assumes "durably_closed s"
  shows "durably_closed (snd (appendPayload w rid p s))" "durably_closed (snd (appendToolCalls w rid cs s))"
    "durably_closed (snd (persistEvent w rid ev s))" "durably_closed (publishEvent e s)"
    "durably_closed (snd (reserve w rid k n s))" "durably_closed (snd (recordCommand w c s))"
    "durably_closed (snd (beginRun w c s))" "durably_closed (snd (closeDurable w s))"
    "durably_closed (snd (finishDurable w rid s))"
proof -
  from assms obtain st where st: "s_durable s = Some st" "m_closed (st_manifest st)" by (auto simp: durably_closed_def)
  then show "durably_closed (snd (appendPayload w rid p s))" "durably_closed (snd (appendToolCalls w rid cs s))"
    "durably_closed (snd (persistEvent w rid ev s))" "durably_closed (publishEvent e s)"
    "durably_closed (snd (reserve w rid k n s))" "durably_closed (snd (recordCommand w c s))"
    "durably_closed (snd (beginRun w c s))" "durably_closed (snd (closeDurable w s))"
    "durably_closed (snd (finishDurable w rid s))"
    by (auto simp: durably_closed_def effect_defs on_store_pair publishEvent_def Let_def store_keeps_closed
        split: sum.split option.split store_error.split)
qed

interpretation final: session_invariant w durably_closed for w
proof unfold_locales
  fix s t assume "durably_closed s" "aside s t"
  then show "durably_closed t" by (auto simp: durably_closed_def aside_def)
qed (blast intro: closed_ops)+

text \<open>What opening does leaves a store, the command identities and, before the close facts are read, the state.\<close>

definition kept_in :: "sess_state \<Rightarrow> (bytes \<Rightarrow> bool) \<Rightarrow> (bytes \<rightharpoonup> bool) \<Rightarrow> session \<Rightarrow> bool" where
  "kept_in x q f s \<longleftrightarrow> s_state s = x \<and> s_seen s = q \<and> (\<exists>st. s_durable s = Some st \<and> m_seen (st_manifest st) = f)"

lemma store_seen:
  "m_seen (st_manifest (snd (AppendTranscript ct rs io st))) = m_seen (st_manifest st)"
  "m_seen (st_manifest (snd (AppendEvent ct ev io st))) = m_seen (st_manifest st)"
  "m_seen (st_manifest (snd (ReconcileRun rid t io st))) = m_seen (st_manifest st)"
  "m_seen (st_manifest (snd (Close t io st))) = m_seen (st_manifest st)"
  by (auto simp: step_defs ReconcileRun_def Let_def split: sum.split option.split io.split prod.split)

lemma stored_ops:
  assumes "kept_in x q f s"
  shows "kept_in x q f (snd (appendPayload w rid p s))" "kept_in x q f (snd (persistEvent w rid ev s))" "kept_in x q f (publishEvent e s)"
    "kept_in x q f (snd (closeDurable w s))" "kept_in x q f (snd (reconcileDurable w rid s))"
    "kept_in x q f (snd (emit w rid ev s))"
proof -
  from assms obtain st where st: "s_durable s = Some st" "s_state s = x" "s_seen s = q" "m_seen (st_manifest st) = f"
    by (auto simp: kept_in_def)
  show "kept_in x q f (snd (appendPayload w rid p s))" "kept_in x q f (publishEvent e s)"
    "kept_in x q f (snd (closeDurable w s))" "kept_in x q f (snd (reconcileDurable w rid s))"
    and p: "kept_in x q f (snd (persistEvent w rid ev s))"
    using st by (auto simp: kept_in_def effect_defs on_store_pair publishEvent_def Let_def store_seen split: sum.split)
  show "kept_in x q f (snd (emit w rid ev s))"
    unfolding emit_def by (rule seqE [where P = "kept_in x q f"]) (use p in \<open>auto simp: kept_in_def publishEvent_def\<close>)
qed

lemma stored_reconcile: "kept_in x q f s \<Longrightarrow> kept_in x q f (snd (reconcileInterrupted w rid s))"
proof -
  have calls: "kept_in x q f t \<Longrightarrow> kept_in x q f (snd (complete_calls w rid cs t))" for cs t
    by (induction cs arbitrary: t) (auto intro!: seqE [where P = "kept_in x q f"] stored_ops)
  have "kept_in x q f t \<Longrightarrow> kept_in x q f (snd (closeOpenRecords w rid t))" for t
    by (auto simp: closeOpenRecords_def intro!: seqE [where P = "kept_in x q f"] calls stored_ops split: sum.split)
  moreover have "kept_in x q f t \<Longrightarrow> kept_in x q f (snd (closeOpenEvents w rid t))" for t
    by (simp add: closeOpenEvents_def stored_ops)
  ultimately show "kept_in x q f s \<Longrightarrow> kept_in x q f (snd (reconcileInterrupted w rid s))"
    unfolding reconcileInterrupted_def by (intro seqE [where P = "kept_in x q f"] stored_ops) auto
qed

lemma closeDurable_closes:
  "closeDurable w s = (Inr (), t) \<Longrightarrow> s_durable s \<noteq> None \<Longrightarrow> durably_closed t"
  by (auto simp: durably_closed_def closeDurable_def on_store_pair Close_def persist_def Let_def
      split: if_splits prod.splits)

lemma seq_ok:
  assumes "seq p f = (Inr a, t)"
  obtains b s where "p = (Inr b, s)" "f b s = (Inr a, t)"
  using assms by (cases rule: seq_cases) auto

lemma emit_closed: "emit w rid p s = (r, t) \<Longrightarrow> durably_closed s \<Longrightarrow> durably_closed t"
  using final.emit [of s w rid p] by simp

lemma NewSession_closed:
  assumes "NewSession w i docs (Some st) = (Inr (), s)"
  shows "kept_in (s_state s) (\<lambda>c. m_seen (st_manifest st) c \<noteq> None) (m_seen (st_manifest st)) s \<and>
    (s_state s = StateClosed \<longrightarrow> durably_closed s)"
proof -
  let ?stored = "\<lambda>x. kept_in x (\<lambda>c. m_seen (st_manifest st) c \<noteq> None) (m_seen (st_manifest st))"
  define j where "j = (if i = [] then m_session (st_manifest st) else i)"
  define s0 where "s0 = load_session st (fresh_session j docs)"
  define rs es where "rs = close_records (s_records s0)" and "es = close_events (s_history s0)"
  have s0: "?stored StateIdle s0" "s_durable s0 = Some st"
    by (simp_all add: s0_def kept_in_def load_session_def fresh_session_def Let_def)
  from assms have ok: "\<not> close_facts_bad (st_manifest st) rs es"
    and chain: "seq (case m_active (st_manifest st) of None \<Rightarrow> (Inr (), s0) | Some (rid, _) \<Rightarrow> reconcileInterrupted w rid s0)
      (\<lambda>_ s. if rs \<noteq> 1 then (Inr (), s)
         else seq (if m_closed (st_manifest st) then (Inr (), s) else closeDurable w s) (\<lambda>_ s.
           if es = 0 then emit w [] SessionClosedPayload (s\<lparr>s_state := StateClosed\<rparr>)
           else (Inr (), s\<lparr>s_state := StateClosed\<rparr>))) = (Inr (), s)"
    unfolding NewSession_def Let_def option.case j_def [symmetric] s0_def [symmetric] rs_def [symmetric] es_def [symmetric]
    by (simp_all split: if_splits)
  from chain obtain b s1 where
    s1: "(case m_active (st_manifest st) of None \<Rightarrow> (Inr (), s0) | Some (rid, _) \<Rightarrow> reconcileInterrupted w rid s0) = (Inr b, s1)"
    and rest: "(if rs \<noteq> 1 then (Inr (), s1)
         else seq (if m_closed (st_manifest st) then (Inr (), s1) else closeDurable w s1) (\<lambda>_ s.
           if es = 0 then emit w [] SessionClosedPayload (s\<lparr>s_state := StateClosed\<rparr>)
           else (Inr (), s\<lparr>s_state := StateClosed\<rparr>))) = (Inr (), s)" by (rule seq_ok)
  have st1: "?stored StateIdle s1"
    using s1 stored_reconcile [OF s0(1), of w] s0(1) by (cases "m_active (st_manifest st)") (auto, metis snd_conv)
  show ?thesis
  proof (cases "rs = 1")
    case False
    with rest st1 show ?thesis by (auto simp: kept_in_def)
  next
    case True
    with ok have "m_active (st_manifest st) = None"
      by (cases "m_active (st_manifest st)") (auto simp: close_facts_bad_def)
    with s1 have "s1 = s0" by simp
    from rest True obtain c s2 where s2: "(if m_closed (st_manifest st) then (Inr (), s1) else closeDurable w s1) = (Inr c, s2)"
      and last: "(if es = 0 then emit w [] SessionClosedPayload (s2\<lparr>s_state := StateClosed\<rparr>)
        else (Inr (), s2\<lparr>s_state := StateClosed\<rparr>)) = (Inr (), s)"
      by (auto simp: Let_def elim: seq_ok)
    have "durably_closed s2"
      using s2 s0(2) \<open>s1 = s0\<close> closeDurable_closes [of w s1 s2] by (auto simp: durably_closed_def split: if_splits)
    then have "durably_closed (s2\<lparr>s_state := StateClosed\<rparr>)" by (simp add: durably_closed_def)
    with last have "durably_closed s" by (auto split: if_splits dest: emit_closed)
    moreover have "?stored StateIdle s2"
      using s2 st1 stored_ops(4) [OF st1, of w] by (auto split: if_splits)
    then have "?stored StateClosed (s2\<lparr>s_state := StateClosed\<rparr>)" by (auto simp: kept_in_def)
    from stored_ops(6) [OF this, of w "[]" SessionClosedPayload] this last have "?stored StateClosed s" by (auto split: if_splits)
    ultimately show ?thesis by (auto simp: kept_in_def)
  qed
qed

lemma or_fault_Inr: "or_fault p = (Inr a, t) \<longleftrightarrow> p = (Inr a, t)"
  by (cases p; cases "fst p") (auto simp: or_fault_def)

text \<open>An accepted close command leaves a durable close behind.\<close>

lemma close_command_closes:
  assumes "Apply w gone cmd s = (Inr (), t)" "cmd_kind cmd = KindClose" "s_durable s \<noteq> None"
    and "s_state s = StateClosed \<longrightarrow> durably_closed s"
  shows "durably_closed t"
proof -
  from assms(1,2) have "applyClose w cmd s = (Inr (), t)"
    by (auto simp: Apply_def split: if_splits sum.splits)
  then have "seq (recordCommand w (cmd_id cmd) s) (\<lambda>_ s.
       if s_state s = StateClosed then (Inr (), s)
       else seq (or_fault (appendPayload w [] ClosedPayload s)) (\<lambda>_ s.
            seq (or_fault (closeDurable w s)) (\<lambda>_ s.
            or_fault (emit w [] SessionClosedPayload (s\<lparr>s_state := StateClosed\<rparr>))))) = (Inr (), t)"
    by (auto simp: applyClose_def split: if_splits)
  then obtain b s1 where s1: "recordCommand w (cmd_id cmd) s = (Inr b, s1)"
    and rest: "(if s_state s1 = StateClosed then (Inr (), s1)
       else seq (or_fault (appendPayload w [] ClosedPayload s1)) (\<lambda>_ s.
            seq (or_fault (closeDurable w s)) (\<lambda>_ s.
            or_fault (emit w [] SessionClosedPayload (s\<lparr>s_state := StateClosed\<rparr>))))) = (Inr (), t)" by (rule seq_ok)
  have rec: "s_state (snd (recordCommand w x s)) = s_state s \<and> s_durable (snd (recordCommand w x s)) \<noteq> None" for x
    using assms(3) by (auto simp: recordCommand_def on_store_pair split: sum.split store_error.split option.split)
  from rec [of "cmd_id cmd"] s1 have st1: "s_state s1 = s_state s" "s_durable s1 \<noteq> None" by simp_all
  show ?thesis
  proof (cases "s_state s1 = StateClosed")
    case True
    then have "durably_closed s" using assms(4) st1 by simp
    from closed_ops(6) [OF this, of w "cmd_id cmd"] s1 True rest show ?thesis by simp
  next
    case False
    with rest obtain c d s2 s3 where s2: "appendPayload w [] ClosedPayload s1 = (Inr c, s2)"
      and s3: "closeDurable w s2 = (Inr d, s3)"
      and e: "emit w [] SessionClosedPayload (s3\<lparr>s_state := StateClosed\<rparr>) = (Inr (), t)"
      by (auto simp: or_fault_Inr elim!: seq_ok)
    from st1 have "kept_in (s_state s1) (s_seen s1) (m_seen (st_manifest (the (s_durable s1)))) s1" by (auto simp: kept_in_def)
    from stored_ops(1) [OF this, of w "[]" ClosedPayload] s2 have "s_durable s2 \<noteq> None" by (auto simp: kept_in_def)
    with s3 have "durably_closed s3" using closeDurable_closes by simp
    then have "durably_closed (s3\<lparr>s_state := StateClosed\<rparr>)" by (simp add: durably_closed_def)
    with e show ?thesis by (rule emit_closed)
  qed
qed

text \<open>And it is accepted by an idle session whose writes do not fail, unless its identity was used before.\<close>

lemma close_valid [simp]: "c \<noteq> [] \<Longrightarrow> cmd_validate (NewClose c) = Inr ()"
proof -
  have "wr (JObj []) = ''{}''" by code_simp
  moreover have "read_doc ''{}'' = Some (JObj [])" by code_simp
  moreover have "dec0 () (JObj []) = Some ()" by code_simp
  ultimately show "c \<noteq> [] \<Longrightarrow> ?thesis" by (simp add: cmd_validate_def cmd_decode_defs cmd_new_defs)
qed

lemma record_succeeds:
  assumes "reliable w" "s_durable s = Some st" "\<not> seen_command (st_manifest st) c"
  obtains t where "recordCommand w c s = (Inr (), t)" "s_state t = s_state s" "s_history t = s_history s" "s_id t = s_id s"
    "s_cursor t = s_cursor s" "\<exists>st'. s_durable t = Some st' \<and> m_active (st_manifest st') = m_active (st_manifest st) \<and>
      m_closed (st_manifest st') = m_closed (st_manifest st) \<and> m_event_cursor (st_manifest st') = m_event_cursor (st_manifest st) \<and>
      m_session (st_manifest st') = m_session (st_manifest st)"
proof -
  have "fst (recordCommand w c s) = Inr ()" "s_state (snd (recordCommand w c s)) = s_state s"
    "s_history (snd (recordCommand w c s)) = s_history s" "s_id (snd (recordCommand w c s)) = s_id s"
    "s_cursor (snd (recordCommand w c s)) = s_cursor s"
    "\<exists>st'. s_durable (snd (recordCommand w c s)) = Some st' \<and> m_active (st_manifest st') = m_active (st_manifest st) \<and>
      m_closed (st_manifest st') = m_closed (st_manifest st) \<and> m_event_cursor (st_manifest st') = m_event_cursor (st_manifest st) \<and>
      m_session (st_manifest st') = m_session (st_manifest st)"
    using assms reliable_now(2) [OF assms(1)]
    by (simp_all add: recordCommand_def on_store_pair RecordCommand_def persist_ok Let_def)
  then show thesis using that [of "snd (recordCommand w c s)"] by (metis prod.collapse)
qed

lemma shut_succeeds:
  assumes w: "reliable w" and s: "cursor_sync s" "s_cursor s + 1 \<noteq> 0" "s_id s \<noteq> []"
    and st: "s_durable s = Some st" "m_active (st_manifest st) = None"
  obtains s2 s3 t where "appendPayload w [] ClosedPayload s = (Inr (), s2)" "closeDurable w s2 = (Inr (), s3)"
    "emit w [] SessionClosedPayload (s3\<lparr>s_state := StateClosed\<rparr>) = (Inr (), t)"
proof -
  from New_ok [of ClosedPayload _ "now w s" "[]"] reliable_now(1) [OF w, of s] obtain r where
    "New [] (now w s) (kind_of ClosedPayload) ClosedPayload = Inr r" by (auto simp: marshal_payload_def run_id_ok_def)
  from append_succeeds [OF w this] obtain s2 where s2: "appendPayload w [] ClosedPayload s = (Inr (), s2)"
    by (metis prod.collapse)
  have c2: "cursor_sync s2" using cursor_append [OF s(1), of w "[]" ClosedPayload] s2 by simp
  have keep: "s_cursor s2 = s_cursor s" "s_id s2 = s_id s"
    "\<exists>st'. s_durable s2 = Some st' \<and> m_active (st_manifest st') = None"
    using s2 st by (auto simp: appendPayload_def add_records_def on_store_pair AppendTranscript_def persist_def Let_def
        split: sum.splits prod.splits if_splits)
  from keep(3) obtain st2 where st2: "s_durable s2 = Some st2" "m_active (st_manifest st2) = None" by blast
  let ?s3 = "snd (closeDurable w s2)"
  have s3: "fst (closeDurable w s2) = Inr ()" "cursor_sync ?s3" "s_cursor ?s3 = s_cursor s2" "s_id ?s3 = s_id s2"
    using st2 c2 reliable_now(2) [OF w, of s2]
    by (auto simp: closeDurable_def on_store_pair Close_def persist_ok cursor_sync_def Let_def)
  let ?s4 = "?s3\<lparr>s_state := StateClosed\<rparr>"
  have "\<exists>e. ev_new (s_id ?s4) [] (s_cursor ?s4 + 1) (now w ?s4) (ev_kind_of SessionClosedPayload) SessionClosedPayload = Inr e"
    using ev_new_ok [of SessionClosedPayload "s_id ?s4" "[]" "s_cursor ?s4 + 1" "now w ?s4"]
      s(2,3) keep(1,2) s3(3,4) reliable_now(1) [OF w, of ?s4] by (auto simp: envelope_ok_def runFact_def)
  then obtain e u where "persistEvent w [] SessionClosedPayload ?s4 = (Inr e, u)"
    using event_succeeds [OF w] s3(2) by (fastforce simp: cursor_sync_def)
  then have "emit w [] SessionClosedPayload ?s4 = (Inr (), publishEvent e u)" by (simp add: emit_def)
  with that s2 s3(1) show thesis by (metis prod.collapse)
qed

lemma emit_keeps_state: "emit w rid p s = (r, t) \<Longrightarrow> s_state t = s_state s"
  using core_frames(3) [of s w rid p]
  by (auto simp: emit_def seq_def same_core_def publishEvent_def split: prod.splits sum.splits)

lemma close_accepted:
  assumes w: "reliable w" and c: "c \<noteq> []" and s: "cursor_sync s" "s_cursor s + 1 \<noteq> 0" "s_id s \<noteq> []" "s_state s = StateIdle" "\<not> s_seen s c"
    and st: "s_durable s = Some st" "m_active (st_manifest st) = None" "m_seen (st_manifest st) c = None"
  shows "\<exists>t. Apply w False (ForSession (NewClose c) (s_id s)) s = (Inr (), t) \<and> s_state t = StateClosed"
proof -
  let ?c = "ForSession (NewClose c) (s_id s)"
  have c': "cmd_id ?c = c" "cmd_session ?c = s_id s" "cmd_kind ?c = KindClose" by (simp_all add: ForSession_def NewClose_def)
  from st(3) have "\<not> seen_command (st_manifest st) c" by (simp add: seen_command_def)
  from record_succeeds [where s = s, OF w st(1) this] obtain s1 st1 where
    s1: "recordCommand w c s = (Inr (), s1)" "s_state s1 = s_state s" "s_id s1 = s_id s" "s_cursor s1 = s_cursor s"
    and st1: "s_durable s1 = Some st1" "m_active (st_manifest st1) = m_active (st_manifest st)"
      "m_event_cursor (st_manifest st1) = m_event_cursor (st_manifest st)"
      "m_session (st_manifest st1) = m_session (st_manifest st)" by metis
  then have sync: "cursor_sync s1" and act: "m_active (st_manifest st1) = None" using s(1) st(1,2) by (auto simp: cursor_sync_def)
  from shut_succeeds [OF w sync _ _ st1(1) act] s(2,3) s1(3,4) obtain s2 s3 t where
    "appendPayload w [] ClosedPayload s1 = (Inr (), s2)" "closeDurable w s2 = (Inr (), s3)"
    "emit w [] SessionClosedPayload (s3\<lparr>s_state := StateClosed\<rparr>) = (Inr (), t)" by auto
  moreover from this(3) have "s_state t = StateClosed"
    by (simp add: emit_keeps_state)
  ultimately show ?thesis using s1(1,2) c c' s(4,5)
    by (simp add: Apply_def applyClose_def seq_def or_fault_def)
qed

text \<open>Whatever the writes do, a reported close is durable.\<close>

lemma CloseStored_closed:
  assumes "CloseStoredSession env gone i c = Inr st'"
  shows "m_closed (st_manifest st')"
proof -
  from assms obtain st where st: "Open (ee_lib env) (ee_clock env) i (ee_root env i) = Inr st"
    by (auto simp: CloseStoredSession_def split: sum.splits)
  show ?thesis
  proof (cases "m_closed (st_manifest st)")
    case True
    with assms st show ?thesis by (simp add: CloseStoredSession_def)
  next
    case False
    define w where "w = (ee_world env)\<lparr>w_lib := ee_lib env, w_clock := ee_clock env, w_broker := [],
      w_assembler := None, w_docs := None, w_call := \<lambda>_. scripted_call\<rparr>"
    from assms st False obtain s t where s: "NewSession w i [] (Some st) = (Inr (), s)"
      and t: "Apply w gone (ForSession (NewClose c) i) s = (Inr (), t)" "st' = the (s_durable t)"
      by (auto simp: CloseStoredSession_def Let_def w_def split: prod.splits sum.splits)
    from NewSession_closed [OF s] have "s_durable s \<noteq> None" "s_state s = StateClosed \<longrightarrow> durably_closed s"
      by (auto simp: kept_in_def)
    then have "durably_closed t" by (intro close_command_closes [OF t(1)]) (auto simp: ForSession_def NewClose_def)
    then show ?thesis by (auto simp: durably_closed_def t(2))
  qed
qed

subsection \<open>Closing a stored session\<close>

lemma close_succeeds:
  assumes "lived (ee_lib env) (ee_clock env) st" "reliable (ee_world env)"
    and dir: "ee_root env (m_session (st_manifest st)) = SessionDir (st_disk st)"
    and c: "\<not> m_closed (st_manifest st)" "c \<noteq> []" "m_seen (st_manifest st) c = None"
    and room: "length (st_events st) + 2 < 2 ^ 64"
  shows "\<exists>st'. CloseStoredSession env False (m_session (st_manifest st)) c = Inr st' \<and>
    m_closed (st_manifest st') \<and> prefix (st_transcript st) (st_transcript st') \<and>
    ValidateTranscript (st_transcript st') = Inr () \<and>
    (readable (ee_clock env) st' \<longrightarrow>
      Open (ee_lib env) (ee_clock env) (m_session (st_manifest st)) (SessionDir (st_disk st')) = Inr st')"
proof -
  let ?i = "m_session (st_manifest st)" and ?own = "\<lambda>_::bytes. 0 :: nat"
  define w where "w = (ee_world env)\<lparr>w_lib := ee_lib env, w_clock := ee_clock env, w_broker := [],
    w_assembler := None, w_docs := None, w_call := \<lambda>_. scripted_call\<rparr>"
  have w: "reliable w" "w_clock w = ee_clock env" "provider_fresh w ?own"
    using assms(2) by (simp_all add: w_def reliable_def timely_def provider_fresh_def)
  from assms(1) w(2) have sound: "sound (ee_lib env) (w_clock w) st" by (simp add: lived_sound)
  then have open_st: "Open (ee_lib env) (ee_clock env) ?i (SessionDir (st_disk st)) = Inr st"
    using Open_exact [of "ee_lib env" "w_clock w" st] durable_raw [of "ee_lib env" "w_clock w" st] w(2) by (simp add: sound_def)
  have id: "?i \<noteq> []" and cur: "m_event_cursor (st_manifest st) = of_nat (length (st_events st))"
    using sound by (auto simp: sound_def raw_ok_def manifest_ok_def counted_def validateSessionID_def)
  have space: "(of_nat n :: u64) + 1 \<noteq> 0" if "n \<le> Suc (length (st_events st))" for n
  proof -
    from that room have "unat (of_nat (Suc n) :: u64) = Suc n" by (simp only: unat_of_nat) simp
    then show ?thesis by (metis unat_0 nat.distinct(1) of_nat_Suc add.commute)
  qed
  obtain s where s: "NewSession w ?i [] (Some st) = (Inr (), s)" "rested (ee_lib env) w ?own st s"
    using NewSession_recovers [OF sound _ w(1), of ?own ?i "[]"] space [of "length (st_events st)"] cur by (auto simp: unclaimed_def)
  note new = NewSession_closed [OF s(1)]
  then obtain st1 where st1: "s_durable s = Some st1" "m_seen (st_manifest st1) c = None" "\<not> s_seen s c"
    using c(3) by (auto simp: kept_in_def)
  have idle: "s_state s = StateIdle" "cursor_sync s" "m_active (st_manifest st1) = None" "s_cursor s + 1 \<noteq> 0" "s_id s = ?i"
    using s(2) c(1) st1(1) space [of "length (s_history s)"] w(1)
    by (auto simp: rested_def live_def marks_def store_marks_def)
  from close_accepted [OF w(1) c(2) idle(2,4) _ idle(1) st1(3,1) idle(3) st1(2)] id idle(5) obtain t where
    t: "Apply w False (ForSession (NewClose c) ?i) s = (Inr (), t)" "s_state t = StateClosed" by auto
  have "durably_closed t"
    by (rule close_command_closes [OF t(1)]) (use new st1(1) in \<open>auto simp: ForSession_def NewClose_def\<close>)
  then obtain st' where st': "s_durable t = Some st'" "m_closed (st_manifest st')" by (auto simp: durably_closed_def)
  have reach: "reach w s t" using t(1) by (metis other_step.command reach.simps sess_step.other snd_conv)
  have "lawful w ?own t" using reach_lawful [OF reach _ _ w(3)] s(2) by (simp add: rested_def)
  then have logs: "valid_log (s_records t)" "st_transcript st' = s_records t" "open_facts (s_records t) = []"
    using t(2) reliable_calm [OF w(1), of t] st'(1) by (auto simp: lawful_def logs_def matches_def)
  have "shelved (ee_lib env) w t" using shelf.reach_inv [OF reach] s(2) by (simp add: rested_def)
  then have shelf: "m_session (st_manifest st') = s_id t" "readable (ee_clock env) st' \<Longrightarrow> raw_ok (ee_lib env) (ee_clock env) st'"
    using reliable_calm [OF w(1), of t] w st'(1) by (auto simp: shelved_def reliable_def)
  have grown: "grown s t" using growth.reach_inv [OF reach grown_refl] .
  with s(2) logs(2) have "prefix (st_transcript st) (st_transcript st')"
    by (auto simp: rested_def grown_def intro: prefix_order.trans)
  moreover have "CloseStoredSession env False ?i c = Inr st'"
    using c(1) s(1) t(1) st'(1) by (simp add: CloseStoredSession_def dir open_st Let_def flip: w_def)
  moreover have "readable (ee_clock env) st' \<longrightarrow> Open (ee_lib env) (ee_clock env) ?i (SessionDir (st_disk st')) = Inr st'"
    using shelf grown idle(5) logs Open_exact [of "ee_lib env" "ee_clock env" st'] by (auto simp: durable_raw grown_def)
  ultimately show ?thesis using st'(2) logs by (auto simp: ValidateTranscript_iff)
qed

subsection \<open>Properties\<close>

text \<open>
  C21: An open stored session can be closed from outside, also one with an interrupted run: take a
  store that earlier processes left under the conditions of \<open>lived\<close> (they stopped between two
  moves and not faulted, none of their writes failed, the provider never reused a call identity,
  their log lines can be read back). If it is not closed yet, fewer than 2^64 - 2 events are
  stored, and the writes of this process succeed too, then closing it under a non-empty command
  identity that the session has not seen succeeds; the store is then durably closed, extends
  the transcript it had, has a complete transcript, and opens again as the very same store if the
  lines the closing added can be read back as well.
\<close>

theorem close_stored:
  assumes "lived (ee_lib env) (ee_clock env) st" "reliable (ee_world env)"
    and dir: "ee_root env (m_session (st_manifest st)) = SessionDir (st_disk st)"
    and c: "\<not> m_closed (st_manifest st)" "c \<noteq> []" "m_seen (st_manifest st) c = None"
    and room: "length (st_events st) + 2 < 2 ^ 64"
  shows "\<exists>st'. CloseStoredSession env False (m_session (st_manifest st)) c = Inr st' \<and>
    m_closed (st_manifest st') \<and> prefix (st_transcript st) (st_transcript st') \<and>
    ValidateTranscript (st_transcript st') = Inr () \<and>
    (readable (ee_clock env) st' \<longrightarrow>
      Open (ee_lib env) (ee_clock env) (m_session (st_manifest st)) (SessionDir (st_disk st')) = Inr st')"
  using assms by (rule close_succeeds)

text \<open>A session just created for the workspace \<open>/w\<close>, and an engine on its store.\<close>

definition empty_host :: host where
  "empty_host = \<lparr>h_resolve = Inr, h_abs = (\<lambda>_. Inr ''/w''), h_is_dir = (\<lambda>_. Inr True), h_root = (\<lambda>_. Inr ()), h_sys = (\<lambda>_. Inr None)\<rparr>"

definition root_tree :: snapshot where
  "root_tree = (let n = Inr \<lparr>n_kind = Directory, n_id = 1, n_mode = 493\<rparr> in \<lparr>lstat = (\<lambda>_. n), follow = (\<lambda>_. n)\<rparr>)"

definition stored_manifest :: manifest where
  "stored_manifest = sample_manifest\<lparr>m_ws_identity := ''linux:unavailable'', m_projection := ProjectionVersion\<rparr>"

definition stored_sample :: store where
  "stored_sample = \<lparr>st_manifest = stored_manifest, st_transcript = [], st_events = [],
     st_disk = \<lparr>d_manifest = GoodManifest stored_manifest, d_transcript = None, d_events = None\<rparr>\<rparr>"

definition sample_env :: engine_env where
  "sample_env = \<lparr>ee_lib = sample_lib, ee_clock = sample_clock, ee_host = empty_host, ee_goos = ''linux'',
     ee_root = (\<lambda>_. SessionDir (st_disk stored_sample)), ee_tools = empty_world\<lparr>w_snap := \<lambda>_. root_tree\<rparr>, ee_read = (\<lambda>_ _. Inl NotExist),
     ee_ids = (\<lambda>_. None), ee_io = (\<lambda>_. IoOk), ee_now = 1, ee_world = sample_world\<rparr>"

definition sample_engine :: engine where
  "sample_engine = \<lparr>eg_cfg = \<lparr>ec_root = ''/r'', ec_provider = None, ec_window = 1000, ec_max_output = 100, ec_preferences = []\<rparr>,
     eg_binding = sample_binding\<rparr>"

lemma stored_Create:
  "Create sample_lib (store_resolve empty_host ''linux'') False ''/r'' ''s'' ''/w'' ProjectionVersion sample_binding 1 IoOk = Inr stored_sample"
  using sample_binding_valid sample_session
  by (simp add: Create_def store_resolve_def ws_Identity_def FromInfo_def sys_struct_def empty_host_def persist_ok
      stored_sample_def stored_manifest_def sample_manifest_def Let_def)

lemma stored_lived: "lived sample_lib ct stored_sample"
  by (rule lived.born [OF stored_Create])
     (auto simp: store_resolve_def empty_host_def ws_Identity_def FromInfo_def sys_struct_def is_abs_def ProjectionVersion_def
       split: sum.splits if_splits)

lemma stored_sound: "sound sample_lib sample_clock stored_sample"
  using lived_sound [OF stored_lived] .

lemma stored_opened: "Open sample_lib sample_clock ''s'' (SessionDir (st_disk stored_sample)) = Inr stored_sample"
proof -
  have "m_session (st_manifest stored_sample) = ''s''" by (simp add: stored_sample_def stored_manifest_def sample_manifest_def)
  with stored_sound show ?thesis
    using Open_exact [of sample_lib sample_clock stored_sample] durable_raw [of sample_lib sample_clock stored_sample]
    by (simp add: sound_def)
qed

lemma sample_closes: "c \<noteq> [] \<Longrightarrow> \<exists>st'. CloseStoredSession sample_env False ''s'' c = Inr st'"
  using close_succeeds [of sample_env stored_sample c] stored_lived [of sample_clock] sample_reliable
  by (auto simp: sample_env_def stored_sample_def stored_manifest_def sample_manifest_def)

text \<open>An engine on the store of an interrupted run.\<close>

definition cut_env :: engine_env where
  "cut_env = sample_env\<lparr>ee_root := \<lambda>_. SessionDir (st_disk (interrupted stored_manifest))\<rparr>"

theorem close_stored_witness:
  "m_active (st_manifest (interrupted stored_manifest)) = Some (run_name 1, 1) \<and>
   (\<exists>st'. CloseStoredSession cut_env False ''s'' ''c'' = Inr st' \<and> m_closed (st_manifest st') \<and>
     prefix [cut_record] (st_transcript st') \<and> ValidateTranscript (st_transcript st') = Inr ())"
proof -
  have b: "blank stored_manifest" and n: "new_store stored_manifest = stored_sample"
    by (simp_all add: blank_def new_store_def stored_manifest_def stored_sample_def sample_manifest_def)
  have m: "m_session (st_manifest (interrupted stored_manifest)) = ''s''" "\<not> m_closed (st_manifest (interrupted stored_manifest))"
    "m_seen (st_manifest (interrupted stored_manifest)) ''c'' = None"
    using b by (simp_all add: cut_steps) (simp_all add: stored_manifest_def sample_manifest_def)
  have env: "ee_lib cut_env = sample_lib" "ee_clock cut_env = sample_clock" "ee_world cut_env = sample_world"
    "ee_root cut_env ''s'' = SessionDir (st_disk (interrupted stored_manifest))" by (simp_all add: cut_env_def sample_env_def)
  have "lived sample_lib sample_clock (interrupted stored_manifest)"
    using interrupted_lived [of sample_lib stored_manifest] stored_lived b by (simp add: n)
  with close_stored [of cut_env "interrupted stored_manifest" "''c''"] sample_reliable m show ?thesis
    using cut_steps [OF b] by (auto simp: env)
qed

text \<open>
  C22: A stored session is loaded only in the place it was made for: \<open>Load\<close> succeeds only when
  the directory opens, the workspace resolves to the recorded name with the recorded file
  identity, and the projection and the provider binding are the engine's; neither the
  workspace path nor the preferences hold a credential; and what it returns is what
  \<open>NewSession\<close> makes of that store, with the three read-only tools.
\<close>

theorem load_guarded:
  assumes "Load_session env gone e i = Inr (w, s)"
  shows "\<exists>st docs. Open (ee_lib env) (ee_clock env) i (ee_root env i) = Inr st \<and> \<not> gone \<and>
    ws_Open (ee_host env) (m_workspace (st_manifest st)) = Inr (m_workspace (st_manifest st)) \<and>
    ws_Identity (ee_host env) (ee_goos env) (m_workspace (st_manifest st)) = Inr (m_ws_identity (st_manifest st)) \<and>
    m_projection (st_manifest st) = ProjectionVersion \<and> pb_digest (m_binding (st_manifest st)) = pb_digest (eg_binding e) \<and>
    ValidatePrompt (m_workspace (st_manifest st)) = Inr () \<and>
    (ec_preferences (eg_cfg e) = [] \<or> ValidatePrompt (ec_preferences (eg_cfg e)) = Inr ()) \<and>
    map fst (w_broker w) = [''list'', ''read'', ''search''] \<and>
    NewSession w i docs (Some st) = (Inr (), s)"
proof -
  from assms obtain st where st: "Open (ee_lib env) (ee_clock env) i (ee_root env i) = Inr st"
    and made: "createOrLoad env gone e (m_workspace (st_manifest st)) i (Some st) = Inr (w, s)"
    by (auto simp: Load_session_def split: sum.splits)
  from made obtain name where name: "\<not> gone" "ws_Open (ee_host env) (m_workspace (st_manifest st)) = Inr name"
    "durable_matches env e name st = Inr ()" "ValidatePrompt name = Inr ()"
    "ec_preferences (eg_cfg e) = [] \<or> ValidatePrompt (ec_preferences (eg_cfg e)) = Inr ()"
    by (auto simp: createOrLoad_def Let_def split: if_splits sum.splits)
  from made name obtain docs b a where "NewBroker (NewCatalog (ee_lib env) (ee_tools env)) = Inr b"
    "w = engine_world env b a" "NewSession w i docs (Some st) = (Inr (), s)"
    by (auto simp: createOrLoad_def Let_def split: if_splits sum.splits prod.splits)
  moreover from name(3) have "name = m_workspace (st_manifest st)"
    "ws_Identity (ee_host env) (ee_goos env) name = Inr (m_ws_identity (st_manifest st))"
    "m_projection (st_manifest st) = ProjectionVersion" "pb_digest (m_binding (st_manifest st)) = pb_digest (eg_binding e)"
    by (auto simp: durable_matches_def Let_def split: if_splits sum.splits)
  ultimately show ?thesis using st name
    by (intro exI [of _ st] exI [of _ docs]) (auto simp: engine_world_def catalog_accepted catalog_names [unfolded comp_def] comp_def)
qed

theorem load_guarded_witness:
  "(\<exists>w s. Load_session sample_env False sample_engine ''s'' = Inr (w, s) \<and> map fst (w_broker w) = [''list'', ''read'', ''search'']) \<and>
   ws_Open empty_host ''/w'' = Inr ''/w''"
proof -
  have st: "m_workspace (st_manifest stored_sample) = ''/w''" "m_session (st_manifest stored_sample) = ''s''"
    "m_active (st_manifest stored_sample) = None" "m_ws_identity (st_manifest stored_sample) = ''linux:unavailable''"
    "m_projection (st_manifest stored_sample) = ProjectionVersion" "m_binding (st_manifest stored_sample) = sample_binding"
    by (simp_all add: stored_sample_def stored_manifest_def sample_manifest_def)
  note opened = stored_opened
  have name: "ws_Open empty_host ''/w'' = Inr ''/w''" by (simp add: ws_Open_def empty_host_def)
  have safe: "ValidatePrompt ''/w'' = Inr ()"
  proof -
    have "\<not> Contains NewDetector ''/w''" by code_simp
    then show ?thesis by (simp add: ValidatePrompt_def)
  qed
  have docs: "\<exists>docs. discover sample_env 0 = Inr docs"
  proof -
    have "is_ok (DiscoverInstructions sample_lib root_tree (\<lambda>_. Inl NotExist) ''.'')" by code_simp
    then show ?thesis by (auto simp: discover_def sample_env_def empty_world_def)
  qed
  have env: "ee_lib sample_env = sample_lib" "ee_clock sample_env = sample_clock" "ee_host sample_env = empty_host"
    "ee_goos sample_env = ''linux''" "ee_root sample_env ''s'' = SessionDir (st_disk stored_sample)"
    "ec_preferences (eg_cfg sample_engine) = []" "ec_window (eg_cfg sample_engine) = 1000"
    "ec_max_output (eg_cfg sample_engine) = 100" "eg_binding sample_engine = sample_binding"
    by (simp_all add: sample_env_def sample_engine_def)
  have ident: "ws_Identity empty_host ''linux'' ''/w'' = Inr ''linux:unavailable''"
    by (simp add: ws_Identity_def empty_host_def FromInfo_def sys_struct_def)
  have at_rest: "\<not> NewSession w ''s'' docs (Some stored_sample) = (Inl x, y)" for w docs x y
    using NewSession_at_rest [OF stored_sound _ st(3), of "''s''" w docs] st(2) by auto
  from docs obtain docs where docs: "discover sample_env 0 = Inr docs" ..
  have "\<exists>w s. Load_session sample_env False sample_engine ''s'' = Inr (w, s)"
    using at_rest by (auto simp: Load_session_def createOrLoad_def durable_matches_def opened safe name catalog_accepted
        NewAssembler_def env ident docs st Let_def split: prod.splits sum.splits)
  then obtain w s where load: "Load_session sample_env False sample_engine ''s'' = Inr (w, s)" by blast
  from load_guarded [OF load] opened st show ?thesis
    using load name by (auto simp: sample_env_def)
qed

end
