(* ===== verification/Credential.thy ===== *)
theory Credential
  imports Gofs
begin

text \<open>
  \<open>internal/credential/source.go\<close>: where a provider credential comes from. The environment is a
  function from names to values; the context is its error, if it has one.
\<close>

datatype credential_source = EnvSource bytes | Static bytes

datatype credential_error = ErrLoad ctx_error | ErrUnavailable

definition SourceIdentity :: "credential_source \<Rightarrow> bytes" where
  "SourceIdentity s = (case s of EnvSource name \<Rightarrow> ''environment:'' @ name | Static v \<Rightarrow> ''static-test-source'')"

definition Credential :: "(bytes \<Rightarrow> bytes option) \<Rightarrow> ctx_error option \<Rightarrow> credential_source
    \<Rightarrow> (credential_error, bytes) result" where
  "Credential env ctx s =
    (case ctx of
       Some e \<Rightarrow> Inl (ErrLoad e)
     | None \<Rightarrow>
        (case s of
           EnvSource name \<Rightarrow>
             if name = [] then Inl ErrUnavailable
             else (case env name of
               None \<Rightarrow> Inl ErrUnavailable
             | Some v \<Rightarrow> if v = [] then Inl ErrUnavailable else Inr v)
         | Static v \<Rightarrow> if v = [] then Inl ErrUnavailable else Inr v))"

end
