(* ===== verification/Openai.thy ===== *)
theory Openai
  imports Gofs Credential Provider "HOL-Library.AList"
begin

text \<open>
  \<open>internal/provider/openai/adapter.go\<close>: the OpenAI-compatible streaming adapter. \<open>net_lib\<close> holds
  what it uses of the packages \<open>net/url\<close>, \<open>net\<close>, \<open>net/http\<close> and \<open>crypto/sha256\<close>; a float is its decimal
  text. The transport answers a request with an \<open>exchange\<close>. The context is \<open>ctx k\<close> at the
  \<open>k\<close>-th look; the callback is a function on the caller's state, as in \<open>Provider\<close>. A JSON
  object that has the same array twice is read as if only the last were there.
\<close>

record url =
  u_scheme :: bytes
  u_host :: bytes
  u_hostname :: bytes
  u_user :: bool

record net_lib =
  nl_parse_url :: "bytes \<Rightarrow> url option"
  nl_loopback_ip :: "bytes \<Rightarrow> bool"
  nl_parse_time :: "bytes \<Rightarrow> gotime option"
  nl_sha :: "bytes \<Rightarrow> bytes"

definition WireProtocolVersion :: bytes where "WireProtocolVersion = ''openai-chat-completions-sse-v1''"

definition maxStreamBytes :: int where "maxStreamBytes = 32 * 2 ^ 20"
definition maxToolCalls :: nat where "maxToolCalls = 128"
definition maxToolCallID :: nat where "maxToolCallID = 1024"
definition maxToolName :: nat where "maxToolName = 256"

subsection \<open>Configuration\<close>

record oconfig =
  oc_endpoint :: bytes
  oc_model :: bytes
  oc_window :: int
  oc_max_output :: int
  oc_temperature :: "bytes option"
  oc_seed :: "int option"
  oc_tool_choice :: bytes
  oc_credential :: "credential_source option"

record adapter =
  ad_endpoint :: bytes
  ad_model :: bytes
  ad_window :: int
  ad_max_output :: int
  ad_temperature :: "bytes option"
  ad_seed :: "int option"
  ad_tool_choice :: bytes
  ad_credential :: credential_source
  ad_credential_sha :: bytes

datatype openai_error = ErrNoWindow | ErrNoOutput | ErrNoSource | ErrEndpoint | ErrPlaintext

definition loopbackHost :: "net_lib \<Rightarrow> bytes \<Rightarrow> bool" where
  "loopbackHost lib host = (equal_fold host ''localhost'' \<or> nl_loopback_ip lib host)"

definition New_adapter :: "net_lib \<Rightarrow> oconfig \<Rightarrow> (openai_error, adapter) result" where
  "New_adapter lib cfg =
    (if oc_window cfg \<le> 0 then Inl ErrNoWindow
     else if oc_max_output cfg \<le> 0 then Inl ErrNoOutput
     else (case oc_credential cfg of
       None \<Rightarrow> Inl ErrNoSource
     | Some src \<Rightarrow>
        if oc_model cfg = [] \<or> oc_endpoint cfg = [] then Inl ErrNoSource
        else (case nl_parse_url lib (oc_endpoint cfg) of
          None \<Rightarrow> Inl ErrEndpoint
        | Some u \<Rightarrow>
           if (u_scheme u \<noteq> ''http'' \<and> u_scheme u \<noteq> ''https'') \<or> u_host u = [] \<or> u_user u then Inl ErrEndpoint
           else if u_scheme u = ''http'' \<and> \<not> loopbackHost lib (u_hostname u) then Inl ErrPlaintext
           else Inr \<lparr>ad_endpoint = oc_endpoint cfg, ad_model = oc_model cfg, ad_window = oc_window cfg,
                     ad_max_output = oc_max_output cfg, ad_temperature = oc_temperature cfg, ad_seed = oc_seed cfg,
                     ad_tool_choice = (if oc_tool_choice cfg = [] then ''auto'' else oc_tool_choice cfg),
                     ad_credential = src, ad_credential_sha = nl_sha lib (SourceIdentity src)\<rparr>)))"

definition adapter_Identity :: "net_lib \<Rightarrow> adapter \<Rightarrow> identity" where
  "adapter_Identity lib a =
     \<lparr>id_adapter = ''openai-chat-completions'', id_wire = WireProtocolVersion,
      id_endpoint_sha = nl_sha lib (ad_endpoint a), id_credential_sha = ad_credential_sha a,
      id_model = ad_model a, id_context_window = ad_window a, id_max_output = ad_max_output a,
      id_temperature = ad_temperature a, id_seed = ad_seed a, id_tool_choice = ad_tool_choice a\<rparr>"

subsection \<open>The request\<close>

record wire_call =
  wc_id :: bytes
  wc_name :: bytes
  wc_args :: bytes

record wire_message =
  wm_role :: bytes
  wm_content :: bytes
  wm_call_id :: bytes
  wm_calls :: "wire_call list"

record wire_tool =
  wt_name :: bytes
  wt_description :: bytes
  wt_parameters :: bytes

record wire_request =
  wr_model :: bytes
  wr_messages :: "wire_message list"
  wr_tools :: "wire_tool list"
  wr_tool_choice :: bytes
  wr_max_tokens :: int
  wr_temperature :: "bytes option"
  wr_seed :: "int option"

definition role_text :: "role \<Rightarrow> bytes" where
  "role_text r = (case r of RoleUser \<Rightarrow> ''user'' | RoleAssistant \<Rightarrow> ''assistant'' | RoleTool \<Rightarrow> ''tool'')"

definition text_message :: "bytes \<Rightarrow> bytes \<Rightarrow> wire_message" where
  "text_message role content = \<lparr>wm_role = role, wm_content = content, wm_call_id = [], wm_calls = []\<rparr>"

definition wire_call_of :: "tool_call \<Rightarrow> wire_message \<Rightarrow> (unit, wire_message) result" where
  "wire_call_of c wm =
    (if tc_id c = [] \<or> tc_name c = [] \<or> \<not> json_valid (tc_args c) then Inl ()
     else Inr (wm\<lparr>wm_calls := wm_calls wm @ [\<lparr>wc_id = tc_id c, wc_name = tc_name c, wc_args = tc_args c\<rparr>]\<rparr>))"

definition wire_message_of :: "message \<Rightarrow> wire_request \<Rightarrow> (unit, wire_request) result" where
  "wire_message_of msg w =
    (case forM wire_call_of (msg_calls msg)
            \<lparr>wm_role = role_text (msg_role msg), wm_content = msg_content msg, wm_call_id = msg_call_id msg, wm_calls = []\<rparr> of
       Inl e \<Rightarrow> Inl e
     | Inr wm \<Rightarrow> Inr (w\<lparr>wr_messages := wr_messages w @ [wm]\<rparr>))"

definition wire_tool_of :: "tool_definition \<Rightarrow> wire_request \<Rightarrow> (unit, wire_request) result" where
  "wire_tool_of t w =
    (if td_name t = [] \<or> \<not> json_valid (td_schema t) then Inl ()
     else Inr (w\<lparr>wr_tools := wr_tools w @
       [\<lparr>wt_name = td_name t, wt_description = td_description t, wt_parameters = td_schema t\<rparr>]\<rparr>))"

definition wire_start :: "adapter \<Rightarrow> request \<Rightarrow> wire_request" where
  "wire_start a req =
    \<lparr>wr_model = ad_model a,
     wr_messages =
       (if req_stable req \<noteq> [] then [text_message ''system'' (req_stable req)] else []) @
       (if req_dynamic req \<noteq> [] then [text_message ''system'' (req_dynamic req)] else []) @
       (if req_messages req = [] \<and> req_prompt req \<noteq> [] then [text_message ''user'' (req_prompt req)] else []),
     wr_tools = [], wr_tool_choice = [],
     wr_max_tokens = (if req_max_output req > 0 \<and> req_max_output req < ad_max_output a then req_max_output req
                      else ad_max_output a),
     wr_temperature = ad_temperature a, wr_seed = ad_seed a\<rparr>"

definition adapter_buildRequest :: "adapter \<Rightarrow> request \<Rightarrow> (unit, wire_request) result" where
  "adapter_buildRequest a req =
    (case forM wire_message_of (req_messages req) (wire_start a req) of
       Inl e \<Rightarrow> Inl e
     | Inr w \<Rightarrow>
        (case forM wire_tool_of (req_tools req) w of
           Inl e \<Rightarrow> Inl e
         | Inr w \<Rightarrow>
            (let w = (if wr_tools w \<noteq> [] then w\<lparr>wr_tool_choice := ad_tool_choice a\<rparr> else w)
             in if wr_messages w = [] then Inl () else Inr w)))"

text \<open>\<open>json.Marshal\<close> of the wire request; None when a schema is not one JSON value.\<close>

definition wire_call_json :: "wire_call \<Rightarrow> json" where
  "wire_call_json c = JObj [(''id'', jstring (wc_id c)), (''type'', jstring ''function''),
     (''function'', JObj [(''name'', jstring (wc_name c)), (''arguments'', jstring (wc_args c))])]"

definition wire_message_json :: "wire_message \<Rightarrow> json" where
  "wire_message_json m = JObj ([(''role'', jstring (wm_role m)), (''content'', jstring (wm_content m))] @
     (if wm_call_id m \<noteq> [] then [(''tool_call_id'', jstring (wm_call_id m))] else []) @
     (if wm_calls m \<noteq> [] then [(''tool_calls'', JArr (map wire_call_json (wm_calls m)))] else []))"

definition wire_tool_json :: "wire_tool \<Rightarrow> json option" where
  "wire_tool_json t = map_option (\<lambda>schema. JObj [(''type'', jstring ''function''),
     (''function'', JObj [(''name'', jstring (wt_name t)), (''description'', jstring (wt_description t)),
        (''parameters'', schema)])]) (marshal_raw (wt_parameters t))"

definition wire_json :: "wire_request \<Rightarrow> json option" where
  "wire_json w = map_option (\<lambda>ts. JObj
     ([(''model'', jstring (wr_model w)), (''messages'', JArr (map wire_message_json (wr_messages w)))] @
      (if ts \<noteq> [] then [(''tools'', JArr ts)] else []) @
      (if wr_tool_choice w \<noteq> [] then [(''tool_choice'', jstring (wr_tool_choice w))] else []) @
      [(''stream'', JBool True), (''stream_options'', JObj [(''include_usage'', JBool True)]),
       (''max_tokens'', jint (wr_max_tokens w))] @
      (case wr_temperature w of None \<Rightarrow> [] | Some t \<Rightarrow> [(''temperature'', JNum t)]) @
      (case wr_seed w of None \<Rightarrow> [] | Some n \<Rightarrow> [(''seed'', jint n)])))
     (those (map wire_tool_json (wr_tools w)))"

subsection \<open>The stream\<close>

record wire_part =
  wp_index :: int
  wp_id :: bytes
  wp_name :: bytes
  wp_args :: bytes

record wire_choice =
  wch_content :: bytes
  wch_parts :: "wire_part list"
  wch_finish :: "bytes option"

record wire_chunk =
  wk_choices :: "wire_choice list"
  wk_usage :: "usage option"

definition function_fields :: "wire_part field list" where
  "function_fields = [(''name'', f_string (\<lambda>s p. p\<lparr>wp_name := s\<rparr>)), (''arguments'', f_string (\<lambda>s p. p\<lparr>wp_args := s\<rparr>))]"

definition part_fields :: "wire_part field list" where
  "part_fields = [(''index'', f_int (\<lambda>i p. p\<lparr>wp_index := i\<rparr>)), (''id'', f_string (\<lambda>s p. p\<lparr>wp_id := s\<rparr>)),
     (''function'', decode_loose function_fields)]"

definition decode_part :: "json \<Rightarrow> wire_part option" where
  "decode_part v = decode_loose part_fields v \<lparr>wp_index = 0, wp_id = [], wp_name = [], wp_args = []\<rparr>"

definition delta_fields :: "wire_choice field list" where
  "delta_fields = [(''content'', f_string (\<lambda>s c. c\<lparr>wch_content := s\<rparr>)),
     (''tool_calls'', f_list decode_part (\<lambda>ps c. c\<lparr>wch_parts := ps\<rparr>))]"

definition choice_fields :: "wire_choice field list" where
  "choice_fields = [(''delta'', decode_loose delta_fields),
     (''finish_reason'', f_string_ptr (\<lambda>r c. c\<lparr>wch_finish := r\<rparr>))]"

definition decode_choice :: "json \<Rightarrow> wire_choice option" where
  "decode_choice v = decode_loose choice_fields v \<lparr>wch_content = [], wch_parts = [], wch_finish = None\<rparr>"

definition usage_fields :: "usage field list" where
  "usage_fields = [(''prompt_tokens'', f_uint (\<lambda>n u. u\<lparr>input_tokens := n\<rparr>)),
     (''completion_tokens'', f_uint (\<lambda>n u. u\<lparr>output_tokens := n\<rparr>))]"

definition chunk_fields :: "wire_chunk field list" where
  "chunk_fields = [(''choices'', f_list decode_choice (\<lambda>cs k. k\<lparr>wk_choices := cs\<rparr>)),
     (''usage'', f_nested_ptr (decode_loose usage_fields) no_usage wk_usage (\<lambda>u k. k\<lparr>wk_usage := u\<rparr>))]"

definition decode_chunk :: "bytes \<Rightarrow> wire_chunk option" where
  "decode_chunk data = (case read_first data of
     None \<Rightarrow> None
   | Some (v, _) \<Rightarrow> decode_loose chunk_fields v \<lparr>wk_choices = [], wk_usage = None\<rparr>)"

record builder =
  cb_id :: bytes
  cb_name :: bytes
  cb_args :: bytes

record stream_state =
  ss_text :: bytes
  ss_usage :: usage
  ss_reason :: reason
  ss_builders :: "(int \<times> builder) list"
  ss_saw :: bool
  ss_total :: int

definition stream_start :: stream_state where
  "stream_start = \<lparr>ss_text = [], ss_usage = no_usage, ss_reason = ReasonNone, ss_builders = [], ss_saw = False,
     ss_total = 0\<rparr>"

definition failing :: "failure_class \<Rightarrow> bytes \<Rightarrow> failure" where
  "failing c m = \<lparr>f_class = c, f_message = m, f_retry_after = 0\<rparr>"

definition responseByteLimit :: "int \<Rightarrow> int" where
  "responseByteLimit maxOutputTokens =
    (if maxOutputTokens > maxStreamBytes div 8 then maxStreamBytes else i64 (maxOutputTokens * 8))"

definition streamByteLimit :: "int \<Rightarrow> int" where
  "streamByteLimit outputLimit = (let limit = i64 (outputLimit * 4 + 2 ^ 20) in
     if limit > maxStreamBytes \<or> limit < outputLimit then maxStreamBytes else limit)"

definition mapReason :: "bytes \<Rightarrow> reason" where
  "mapReason r = (if r = ''stop'' then ReasonStop else if r = ''tool_calls'' \<or> r = ''function_call'' then ReasonToolCalls
     else if r = ''length'' then ReasonLength else ReasonOther)"

text \<open>One part of a tool call.\<close>

definition take_part :: "int \<Rightarrow> wire_part \<Rightarrow> (int \<times> builder) list \<Rightarrow> (failure, (int \<times> builder) list) result" where
  "take_part limit p bs =
    (if wp_index p < 0 \<or> wp_index p \<ge> int maxToolCalls
     then Inl (failing ClassProtocol ''tool call index exceeded the bounded call count'')
     else if map_of bs (wp_index p) = None \<and> length bs \<ge> maxToolCalls
     then Inl (failing ClassOutputLimit ''provider emitted too many tool calls'')
     else (let b = (case map_of bs (wp_index p) of None \<Rightarrow> \<lparr>cb_id = [], cb_name = [], cb_args = []\<rparr> | Some b \<Rightarrow> b)
       in if wp_id p \<noteq> [] \<and> cb_id b \<noteq> [] \<and> cb_id b \<noteq> wp_id p
          then Inl (failing ClassProtocol ''tool call ID changed during stream'')
          else (let b = (if wp_id p \<noteq> [] then b\<lparr>cb_id := wp_id p\<rparr> else b)
            in if length (cb_id b) > maxToolCallID \<or> length (cb_name b) + length (wp_name p) > maxToolName \<or>
                  int (length (cb_args b) + length (wp_args p)) > limit
               then Inl (failing ClassOutputLimit ''provider tool call exceeded the bounded output size'')
               else Inr (AList.update (wp_index p)
                      (b\<lparr>cb_name := cb_name b @ wp_name p, cb_args := cb_args b @ wp_args p\<rparr>) bs))))"

text \<open>The choices of one chunk; the callback sees each piece of text as it is added.\<close>

fun take_choices :: "(bytes \<Rightarrow> 's \<Rightarrow> ('e option \<times> 's)) option \<Rightarrow> int \<Rightarrow> wire_choice list \<Rightarrow> stream_state \<Rightarrow> 's
    \<Rightarrow> ('e call_error, stream_state) result \<times> 's" where
  "take_choices onText limit [] ss s = (Inr ss, s)"
| "take_choices onText limit (c # cs) ss s =
    (if wch_content c \<noteq> [] \<and> int (length (ss_text ss) + length (wch_content c)) > limit
     then (Inl (call_error.Failed (failing ClassOutputLimit ''provider text exceeded the bounded output size'')), s)
     else (let ss1 = ss\<lparr>ss_text := ss_text ss @ wch_content c\<rparr>;
               (e, s1) = (case onText of
                  Some f \<Rightarrow> if wch_content c \<noteq> [] then f (wch_content c) s else (None, s)
                | None \<Rightarrow> (None, s))
       in case e of
            Some err \<Rightarrow> (Inl (Callback err), s1)
          | None \<Rightarrow>
             (case forM (take_part limit) (wch_parts c) (ss_builders ss1) of
                Inl f \<Rightarrow> (Inl (call_error.Failed f), s1)
              | Inr bs \<Rightarrow>
                 (let ss2 = ss1\<lparr>ss_builders := bs\<rparr>;
                      ss3 = (case wch_finish c of None \<Rightarrow> ss2 | Some r \<Rightarrow> ss2\<lparr>ss_reason := mapReason r\<rparr>)
                  in take_choices onText limit cs ss3 s1))))"

definition finish_call :: "(int \<times> builder) list \<Rightarrow> nat \<Rightarrow> tool_call option" where
  "finish_call bs i = (case map_of bs (int i) of
     None \<Rightarrow> None
   | Some b \<Rightarrow> if cb_id b = [] \<or> cb_name b = [] \<or> \<not> json_valid (cb_args b) then None
       else Some \<lparr>tc_id = cb_id b, tc_name = cb_name b, tc_args = cb_args b\<rparr>)"

definition stream_end :: "bool \<Rightarrow> bool \<Rightarrow> stream_state \<Rightarrow> ('e call_error, response) result" where
  "stream_end ctx_done failed ss =
    (if failed then (if ctx_done then Inl CtxDone else Inl (call_error.Failed (failing ClassProtocol ''stream read failed'')))
     else if \<not> ss_saw ss then Inl (call_error.Failed (failing ClassProtocol ''empty provider stream''))
     else (case those (map (finish_call (ss_builders ss)) [0 ..< length (ss_builders ss)]) of
        None \<Rightarrow> Inl (call_error.Failed (failing ClassProtocol ''incomplete tool call''))
      | Some calls \<Rightarrow> Inr \<lparr>resp_text = ss_text ss, resp_calls = calls, resp_usage = ss_usage ss,
                         resp_reason = ss_reason ss\<rparr>))"

fun stream_loop :: "(nat \<Rightarrow> bool) \<Rightarrow> (bytes \<Rightarrow> 's \<Rightarrow> ('e option \<times> 's)) option \<Rightarrow> int \<Rightarrow> (bytes \<times> bool) list \<Rightarrow> bool
    \<Rightarrow> nat \<Rightarrow> stream_state \<Rightarrow> 's \<Rightarrow> ('e call_error, response) result \<times> 's" where
  "stream_loop ctx onText limit [] failed k ss s = (stream_end (ctx k) failed ss, s)"
| "stream_loop ctx onText limit ((line, now_failed) # ts) failed k ss s =
    (if ctx k then (Inl CtxDone, s)
     else (let ss1 = ss\<lparr>ss_total := ss_total ss + int (length line) + 1\<rparr> in
       if ss_total ss1 > streamByteLimit limit
       then (Inl (call_error.Failed (failing ClassOutputLimit ''provider stream exceeded the bounded response size'')), s)
       else if line = [] \<or> has_prefix '':'' line then stream_loop ctx onText limit ts failed (Suc k) ss1 s
       else if \<not> has_prefix ''data:'' line
       then (Inl (call_error.Failed (failing ClassProtocol ''malformed SSE field'')), s)
       else (let data = TrimSpace (trim_prefix ''data:'' line) in
         if data = ''[DONE]'' then (stream_end (ctx (Suc k)) now_failed (ss1\<lparr>ss_saw := True\<rparr>), s)
         else (case decode_chunk data of
           None \<Rightarrow> (Inl (call_error.Failed (failing ClassProtocol ''malformed stream JSON'')), s)
         | Some chunk \<Rightarrow>
            (let ss2 = ss1\<lparr>ss_saw := True\<rparr>;
                 ss3 = (case wk_usage chunk of None \<Rightarrow> ss2 | Some u \<Rightarrow> ss2\<lparr>ss_usage := u\<rparr>)
             in case take_choices onText limit (wk_choices chunk) ss3 s of
                  (Inl e, s1) \<Rightarrow> (Inl e, s1)
                | (Inr ss4, s1) \<Rightarrow> stream_loop ctx onText limit ts failed (Suc k) ss4 s1)))))"

definition decodeStream :: "(nat \<Rightarrow> bool) \<Rightarrow> bytes \<Rightarrow> bool \<Rightarrow> (bytes \<Rightarrow> 's \<Rightarrow> ('e option \<times> 's)) option \<Rightarrow> int \<Rightarrow> 's
    \<Rightarrow> ('e call_error, response) result \<times> 's" where
  "decodeStream ctx body fault onText limit s =
    (if limit \<le> 0 then (Inl (call_error.Failed (failing ClassProtocol ''invalid response limit'')), s)
     else (let (ts, failed) = scan_tokens (2 * 1024 * 1024) fault (split_byte nl body)
       in stream_loop ctx onText limit ts failed 0 stream_start s))"

subsection \<open>HTTP\<close>

record error_body =
  eb_code :: bytes
  eb_type :: bytes

definition error_fields :: "error_body field list" where
  "error_fields = [(''code'', f_string (\<lambda>s e. e\<lparr>eb_code := s\<rparr>)), (''type'', f_string (\<lambda>s e. e\<lparr>eb_type := s\<rparr>))]"

definition contextLimitError :: "bytes \<Rightarrow> bool" where
  "contextLimitError body =
    (case read_doc body of
       None \<Rightarrow> False
     | Some v \<Rightarrow>
        (case decode_loose [(''error'', decode_loose error_fields)] v \<lparr>eb_code = [], eb_type = []\<rparr> of
           None \<Rightarrow> False
         | Some e \<Rightarrow> (let code = lower_name (eb_code e @ '' '' @ eb_type e) in
             str_contains ''context_length'' code \<or> str_contains ''context_window'' code)))"

text \<open>Nanoseconds; \<open>time.Time.Sub\<close> saturates, the product of seconds does not.\<close>

definition parseRetryAfter :: "net_lib \<Rightarrow> bytes \<Rightarrow> gotime \<Rightarrow> int" where
  "parseRetryAfter lib value now =
    (let value = TrimSpace value; by_date = (case nl_parse_time lib value of
           Some at \<Rightarrow> if at > now then min (at - now) (2 ^ 63 - 1) else 0 | None \<Rightarrow> 0)
     in if value = [] then 0
        else (case parse_int64 value of
          Some seconds \<Rightarrow> if seconds \<ge> 0 then i64 (seconds * 10 ^ 9) else by_date
        | None \<Rightarrow> by_date))"

definition status_class :: "int \<Rightarrow> failure_class" where
  "status_class status =
    (if status \<in> {401, 403, 400, 404, 422} then ClassPermanent
     else if status = 429 then ClassRateLimit
     else if status = 503 then ClassOverloaded
     else if status \<ge> 500 then ClassTransient else ClassPermanent)"

definition classifyHTTP :: "net_lib \<Rightarrow> int \<Rightarrow> bytes \<Rightarrow> gotime \<Rightarrow> bytes \<Rightarrow> failure" where
  "classifyHTTP lib status retryAfter now body =
    (let f = failing (status_class status) (''provider HTTP status '' @ show_int status)
     in if status = 400 \<and> contextLimitError body then f\<lparr>f_class := ClassContextOverflow\<rparr>
        else f\<lparr>f_retry_after := parseRetryAfter lib retryAfter now\<rparr>)"

record exchange =
  ex_status :: int
  ex_retry :: bytes
  ex_type :: bytes
  ex_body :: bytes
  ex_fault :: bool
  ex_close_ok :: bool

text \<open>
  \<open>Stream\<close>: the transport is given the endpoint, the token and the body, and answers or fails.
  \<open>ctx 0\<close> is the context at the credential, \<open>ctx 1\<close> after a failed exchange, the rest in
  the stream. \<open>Complete\<close> is \<open>Stream\<close> without a callback.
\<close>

definition Stream :: "net_lib \<Rightarrow> (bytes \<Rightarrow> bytes option) \<Rightarrow> (bytes \<Rightarrow> bytes \<Rightarrow> bytes \<Rightarrow> exchange option) \<Rightarrow> (nat \<Rightarrow> bool)
    \<Rightarrow> gotime \<Rightarrow> adapter \<Rightarrow> request \<Rightarrow> (bytes \<Rightarrow> 's \<Rightarrow> ('e option \<times> 's)) option \<Rightarrow> 's
    \<Rightarrow> ('e call_error, response) result \<times> 's" where
  "Stream lib env transport ctx now a req onText s =
    (let fail = (\<lambda>c m. (Inl (call_error.Failed (failing c m)), s)) in
     case adapter_buildRequest a req of
       Inl _ \<Rightarrow> fail ClassPermanent ''invalid internal request''
     | Inr wreq \<Rightarrow>
        (case wire_json wreq of
           None \<Rightarrow> fail ClassProtocol ''encode request''
         | Some body \<Rightarrow>
            (case Credential env (if ctx 0 then Some Canceled else None) (ad_credential a) of
               Inl _ \<Rightarrow> fail ClassPermanent ''provider credential unavailable''
             | Inr bearer \<Rightarrow>
                if nl_parse_url lib (ad_endpoint a) = None then fail ClassPermanent ''build transport request''
                else (case transport (ad_endpoint a) bearer (wr body) of
                  None \<Rightarrow> if ctx 1 then (Inl CtxDone, s) else fail ClassTransient ''transport request failed''
                | Some ex \<Rightarrow>
                   if ex_status ex < 200 \<or> ex_status ex \<ge> 300
                   then (Inl (call_error.Failed (classifyHTTP lib (ex_status ex) (ex_retry ex) now (take 65536 (ex_body ex)))), s)
                   else if ex_type ex \<noteq> [] \<and> \<not> str_contains ''text/event-stream'' (lower_name (ex_type ex))
                   then fail ClassProtocol ''unexpected response content type''
                   else (case decodeStream (\<lambda>k. ctx (k + 2)) (ex_body ex) (ex_fault ex) onText
                                (responseByteLimit (ad_max_output a)) s of
                      (Inl e, s1) \<Rightarrow> (Inl e, s1)
                    | (Inr response, s1) \<Rightarrow>
                        if \<not> ex_close_ok ex
                        then (Inl (call_error.Failed (failing ClassProtocol ''close provider response'')), s1)
                        else (Inr response, s1))))))"

definition Complete :: "net_lib \<Rightarrow> (bytes \<Rightarrow> bytes option) \<Rightarrow> (bytes \<Rightarrow> bytes \<Rightarrow> bytes \<Rightarrow> exchange option) \<Rightarrow> (nat \<Rightarrow> bool)
    \<Rightarrow> gotime \<Rightarrow> adapter \<Rightarrow> request \<Rightarrow> (unit call_error, response) result" where
  "Complete lib env transport ctx now a req = fst (Stream lib env transport ctx now a req None ())"

subsection \<open>What a decoded response keeps to\<close>

definition builders_ok :: "int \<Rightarrow> (int \<times> builder) list \<Rightarrow> bool" where
  "builders_ok limit bs \<longleftrightarrow> length bs \<le> maxToolCalls \<and>
     (\<forall>(i, b) \<in> set bs. length (cb_id b) \<le> maxToolCallID \<and> length (cb_name b) \<le> maxToolName \<and>
        int (length (cb_args b)) \<le> limit)"

lemma update_new: "map_of bs k = None \<Longrightarrow> AList.update k v bs = bs @ [(k, v)]"
  by (induction bs) auto

lemma update_old: "map_of bs k \<noteq> None \<Longrightarrow> length (AList.update k v bs) = length bs"
  by (induction bs) auto

lemma set_update: "set (AList.update k v bs) \<subseteq> insert (k, v) (set bs)"
  by (induction bs) auto

lemma take_part_ok:
  assumes "take_part limit p bs = Inr bs'" "builders_ok limit bs" "0 < limit"
  shows "builders_ok limit bs'"
proof -
  from assms(1) obtain b where b: "bs' = AList.update (wp_index p) b bs"
    "length (cb_id b) \<le> maxToolCallID" "length (cb_name b) \<le> maxToolName" "int (length (cb_args b)) \<le> limit"
    "map_of bs (wp_index p) = None \<longrightarrow> length bs < maxToolCalls"
    by (auto simp: take_part_def Let_def split: if_splits)
  have "length bs' \<le> maxToolCalls"
    using b(1,5) assms(2) update_old [of bs "wp_index p" b] update_new [of bs "wp_index p" b]
    by (cases "map_of bs (wp_index p)") (auto simp: builders_ok_def)
  moreover have "\<forall>(i, b) \<in> set bs'. length (cb_id b) \<le> maxToolCallID \<and> length (cb_name b) \<le> maxToolName \<and>
        int (length (cb_args b)) \<le> limit"
    using b set_update [of "wp_index p" b bs] assms(2) by (fastforce simp: builders_ok_def)
  ultimately show ?thesis by (simp add: builders_ok_def)
qed

text \<open>
  The invariant of the stream: the text within the limit and equal to what the callback has
  been told, the calls within theirs.
\<close>

definition stream_ok :: "int \<Rightarrow> stream_state \<Rightarrow> bool" where
  "stream_ok limit ss \<longleftrightarrow> int (length (ss_text ss)) \<le> limit \<and> builders_ok limit (ss_builders ss)"

lemma forM_parts_ok:
  "forM (take_part limit) ps bs = Inr bs' \<Longrightarrow> builders_ok limit bs \<Longrightarrow> 0 < limit \<Longrightarrow> builders_ok limit bs'"
  by (erule forM_invariant) (auto intro: take_part_ok)

definition told :: "(bytes \<Rightarrow> 's \<Rightarrow> ('e option \<times> 's)) option \<Rightarrow> bytes \<Rightarrow> 's \<Rightarrow> 's" where
  "told onText d s = (case onText of Some f \<Rightarrow> if d = [] then s else snd (f d s) | None \<Rightarrow> s)"

lemma take_choices_step:
  assumes "take_choices onText limit (c # cs) ss s = (Inr ss', s')"
  obtains bs r where "forM (take_part limit) (wch_parts c) (ss_builders ss) = Inr bs"
    "wch_content c = [] \<or> int (length (ss_text ss @ wch_content c)) \<le> limit"
    "take_choices onText limit cs (ss\<lparr>ss_text := ss_text ss @ wch_content c, ss_builders := bs, ss_reason := r\<rparr>)
       (told onText (wch_content c) s) = (Inr ss', s')"
proof -
  from assms have fit: "wch_content c = [] \<or> int (length (ss_text ss @ wch_content c)) \<le> limit"
    by (auto split: if_splits)
  obtain e s1 where d: "(case onText of Some f \<Rightarrow> if wch_content c \<noteq> [] then f (wch_content c) s else (None, s)
                | None \<Rightarrow> (None, s)) = (e, s1)" by fastforce
  then have s1: "s1 = told onText (wch_content c) s"
    by (auto simp: told_def split: option.splits if_splits)
  show thesis
    using assms fit d s1 that [of _ "ss_reason ss"] that
    by (auto simp: Let_def split: if_splits option.splits sum.splits)
qed

lemma take_choices_ok:
  "take_choices onText limit cs ss s = (Inr ss', s') \<Longrightarrow> stream_ok limit ss \<Longrightarrow> 0 < limit \<Longrightarrow> stream_ok limit ss'"
proof (induction cs arbitrary: ss s)
  case (Cons c cs)
  from Cons.prems(1) obtain bs r where
    bs: "forM (take_part limit) (wch_parts c) (ss_builders ss) = Inr bs"
    and fit: "wch_content c = [] \<or> int (length (ss_text ss @ wch_content c)) \<le> limit"
    and rest: "take_choices onText limit cs (ss\<lparr>ss_text := ss_text ss @ wch_content c, ss_builders := bs, ss_reason := r\<rparr>)
       (told onText (wch_content c) s) = (Inr ss', s')" by (rule take_choices_step)
  have "builders_ok limit bs" using forM_parts_ok [OF bs] Cons.prems(2,3) by (simp add: stream_ok_def)
  with fit Cons.prems show ?case by (intro Cons.IH [OF rest]) (auto simp: stream_ok_def)
qed simp

text \<open>With a callback that writes down what it is told, the text of the state is what was told.\<close>

lemma take_choices_told:
  "take_choices onText limit cs ss s = (Inr ss', s') \<Longrightarrow> onText = Some collect \<Longrightarrow> concat s = ss_text ss \<Longrightarrow>
   concat s' = ss_text ss'"
proof (induction cs arbitrary: ss s)
  case (Cons c cs)
  from Cons.prems(1) obtain bs r where
    "take_choices onText limit cs (ss\<lparr>ss_text := ss_text ss @ wch_content c, ss_builders := bs, ss_reason := r\<rparr>)
       (told onText (wch_content c) s) = (Inr ss', s')" by (rule take_choices_step)
  from Cons.IH [OF this] Cons.prems(2,3) show ?case by (simp add: told_def collect_def)
qed simp

lemma those_map: "those (map f xs) = Some ys \<Longrightarrow> length ys = length xs \<and> (\<forall>i < length xs. f (xs ! i) = Some (ys ! i))"
proof (induction xs arbitrary: ys)
  case (Cons x xs)
  then obtain y zs where "f x = Some y" "those (map f xs) = Some zs" "ys = y # zs"
    by (auto split: option.splits)
  with Cons.IH [of zs] show ?case by (auto simp: nth_Cons split: nat.splits)
qed simp

definition call_ok :: "int \<Rightarrow> tool_call \<Rightarrow> bool" where
  "call_ok limit c \<longleftrightarrow> tc_id c \<noteq> [] \<and> tc_name c \<noteq> [] \<and> json_valid (tc_args c) \<and>
     length (tc_id c) \<le> 1024 \<and> length (tc_name c) \<le> 256 \<and> int (length (tc_args c)) \<le> limit"

definition response_ok :: "int \<Rightarrow> response \<Rightarrow> bool" where
  "response_ok limit r \<longleftrightarrow> int (length (resp_text r)) \<le> limit \<and> length (resp_calls r) \<le> 128 \<and>
     list_all (call_ok limit) (resp_calls r)"

lemma stream_end_ok:
  assumes "stream_end d failed ss = Inr r" "stream_ok limit ss"
  shows "response_ok limit r \<and> resp_text r = ss_text ss"
proof -
  from assms(1) obtain calls where c: "those (map (finish_call (ss_builders ss)) [0 ..< length (ss_builders ss)]) = Some calls"
    and r: "resp_text r = ss_text ss" "resp_calls r = calls"
    by (auto simp: stream_end_def split: if_splits option.splits)
  have "call_ok limit x" if "x \<in> set calls" for x
  proof -
    from that obtain i where "i < length calls" "x = calls ! i" by (auto simp: in_set_conv_nth)
    then have "finish_call (ss_builders ss) i = Some x" using those_map [OF c] by auto
    then obtain b where "map_of (ss_builders ss) (int i) = Some b" "cb_id b \<noteq> []" "cb_name b \<noteq> []" "json_valid (cb_args b)"
      "x = \<lparr>tc_id = cb_id b, tc_name = cb_name b, tc_args = cb_args b\<rparr>"
      by (auto simp: finish_call_def split: option.splits if_splits)
    moreover from this(1) have "(int i, b) \<in> set (ss_builders ss)" by (rule map_of_SomeD)
    ultimately show ?thesis using assms(2)
      by (auto simp: stream_ok_def builders_ok_def call_ok_def maxToolCallID_def maxToolName_def)
  qed
  moreover have "length calls \<le> 128"
    using those_map [OF c] assms(2) by (simp add: stream_ok_def builders_ok_def maxToolCalls_def)
  ultimately show ?thesis using r assms(2) by (simp add: response_ok_def stream_ok_def list_all_iff)
qed

text \<open>One line that does not end the stream.\<close>

lemma stream_line:
  fixes onText :: "(bytes \<Rightarrow> 's \<Rightarrow> ('e option \<times> 's)) option"
  assumes "stream_loop ctx onText limit ((line, f) # ts) failed k ss s = (Inr resp, s')"
  obtains (skip) n where "stream_loop ctx onText limit ts failed (Suc k) (ss\<lparr>ss_total := n\<rparr>) s = (Inr resp, s')"
  | (stop) n d where "stream_end d f (ss\<lparr>ss_total := n, ss_saw := True\<rparr>) = (Inr resp :: ('e call_error, response) result)" "s' = s"
  | (data) wk n u ss' s1 where
      "take_choices onText limit (wk_choices (wk :: wire_chunk)) (ss\<lparr>ss_total := n, ss_saw := True, ss_usage := u\<rparr>) s = (Inr ss', s1)"
      "stream_loop ctx onText limit ts failed (Suc k) ss' s1 = (Inr resp, s')"
proof -
  let ?n = "ss_total ss + int (length line) + 1"
  from assms have go: "\<not> ctx k" "\<not> ?n > streamByteLimit limit"
    by (auto simp: Let_def split: if_splits)
  consider "line = [] \<or> has_prefix '':'' line" | "\<not> (line = [] \<or> has_prefix '':'' line)" "has_prefix ''data:'' line"
      "TrimSpace (trim_prefix ''data:'' line) = ''[DONE]''"
    | "\<not> (line = [] \<or> has_prefix '':'' line)" "has_prefix ''data:'' line"
      "TrimSpace (trim_prefix ''data:'' line) \<noteq> ''[DONE]''"
    using assms go by (auto simp: Let_def split: if_splits)
  then show thesis
  proof cases
    case 1
    with assms go show thesis by (intro skip [of ?n]) (simp add: Let_def)
  next
    case 2
    with assms go show thesis by (intro stop [of "ctx (Suc k)" ?n]) (simp_all add: Let_def)
  next
    case 3
    from assms go 3 obtain chunk where c: "decode_chunk (TrimSpace (trim_prefix ''data:'' line)) = Some chunk"
      by (cases "decode_chunk (TrimSpace (trim_prefix ''data:'' line))") (simp_all add: Let_def)
    define u where "u = (case wk_usage chunk of None \<Rightarrow> ss_usage ss | Some u \<Rightarrow> u)"
    have "(case wk_usage chunk of None \<Rightarrow> ss\<lparr>ss_total := ?n, ss_saw := True\<rparr>
        | Some u \<Rightarrow> ss\<lparr>ss_total := ?n, ss_saw := True\<rparr>\<lparr>ss_usage := u\<rparr>) = ss\<lparr>ss_total := ?n, ss_saw := True, ss_usage := u\<rparr>"
      by (simp add: u_def split: option.split)
    with assms go 3 c have
      *: "(case take_choices onText limit (wk_choices chunk) (ss\<lparr>ss_total := ?n, ss_saw := True, ss_usage := u\<rparr>) s of
           (Inl e, s1) \<Rightarrow> (Inl e, s1) | (Inr ss4, s1) \<Rightarrow> stream_loop ctx onText limit ts failed (Suc k) ss4 s1)
        = (Inr resp, s')" by (simp add: Let_def)
    then show thesis
      by (auto split: prod.splits sum.splits intro: data)
  qed
qed

lemma stream_loop_ok:
  "stream_loop ctx onText limit ts failed k ss s = (Inr resp, s') \<Longrightarrow> 0 < limit \<Longrightarrow> stream_ok limit ss \<Longrightarrow>
   response_ok limit resp \<and> (onText = Some collect \<longrightarrow> concat s = ss_text ss \<longrightarrow> concat s' = resp_text resp)"
proof (induction ts arbitrary: k ss s)
  case Nil
  then show ?case using stream_end_ok [of "ctx k" failed ss resp limit] by auto
next
  case (Cons t ts)
  obtain line f where t: "t = (line, f)" by (cases t)
  from Cons.prems(1) [unfolded t] show ?case
  proof (cases rule: stream_line)
    case (skip n)
    from Cons.IH [OF skip Cons.prems(2)] Cons.prems(3) show ?thesis by (simp add: stream_ok_def)
  next
    case (stop n d)
    then show ?thesis
      using stream_end_ok [OF stop(1), of limit] Cons.prems(3) by (simp add: stream_ok_def)
  next
    case (data wk n u ss' s1)
    have "stream_ok limit ss'"
      using take_choices_ok [OF data(1)] Cons.prems(2,3) by (simp add: stream_ok_def)
    from Cons.IH [OF data(2) Cons.prems(2) this] take_choices_told [OF data(1)] show ?thesis by auto
  qed
qed

lemma responseByteLimit_pos: "0 < m \<Longrightarrow> 0 < responseByteLimit m \<and> responseByteLimit m \<le> 32 * 2 ^ 20"
  by (simp add: responseByteLimit_def maxStreamBytes_def i64_id i64_range_def)

subsection \<open>Properties\<close>

text \<open>
  C18: A response decoded from a stream keeps to the bounds whatever bytes the service sends:
  at most eight bytes of text per output token and 32 MiB in all, at most 128 tool calls, each
  with an identity and a name of bounded length and arguments that are one JSON value; and its
  text is exactly what the callback was told, piece by piece.
\<close>

theorem response_bounded:
  fixes onText :: "(bytes \<Rightarrow> bytes list \<Rightarrow> 'e option \<times> bytes list) option"
  assumes "decodeStream ctx body fault onText (responseByteLimit m) [] = (Inr resp, told_all)" "onText = Some collect" "0 < m"
  shows "length (resp_text resp) \<le> 32 * 2 ^ 20 \<and> length (resp_calls resp) \<le> 128 \<and>
    list_all (call_ok (responseByteLimit m)) (resp_calls resp) \<and> concat told_all = resp_text resp"
proof -
  note lim = responseByteLimit_pos [OF assms(3)]
  from assms(1) lim obtain ts failed where
    l: "stream_loop ctx onText (responseByteLimit m) ts failed 0 stream_start [] = (Inr resp, told_all)"
    by (auto simp: decodeStream_def split: prod.splits)
  have "stream_ok (responseByteLimit m) stream_start"
    using lim by (simp add: stream_ok_def stream_start_def builders_ok_def)
  from stream_loop_ok [OF l _ this] lim assms(2) show ?thesis
    by (auto simp: response_ok_def stream_start_def)
qed

definition sample_stream :: bytes where
  "sample_stream = ''data: {\"choices\":[{\"delta\":{\"content\":\"hi\"}}]}'' @ [nl] @ ''data: [DONE]''"

lemma plain_wire_names [simp]:
  "plain ''choices''" "plain ''delta''" "plain ''usage''" "plain ''tool_calls''" "plain ''finish_reason''"
  by (simp_all add: plain_def is_lower_def is_digit_def byte_in_def)

definition sample_chunk :: bytes where
  "sample_chunk = ''{\"choices\":[{\"delta\":{\"content\":\"hi\"}}]}''"

lemma sample_stream_read:
  "decodeStream (\<lambda>_. False) sample_stream False
      (Some (collect :: bytes \<Rightarrow> bytes list \<Rightarrow> unit option \<times> bytes list)) (responseByteLimit 10) [] =
   (Inr (empty_response\<lparr>resp_text := ''hi''\<rparr>), [''hi''])"
proof -
  have lines: "split_byte nl sample_stream = [''data: '' @ sample_chunk, ''data: [DONE]'']"
    by (simp add: sample_stream_def sample_chunk_def nl_def)
  have d: "TrimSpace (CHR '' '' # sample_chunk) = sample_chunk" "TrimSpace ('' [DONE]'') = ''[DONE]''"
    by (simp_all add: TrimSpace_def space_rune_def rune_size_def sample_chunk_def)
  have c: "decode_chunk sample_chunk = Some \<lparr>wk_choices = [\<lparr>wch_content = ''hi'', wch_parts = [], wch_finish = None\<rparr>],
      wk_usage = None\<rparr>"
  proof -
    have "read_first sample_chunk = Some (JObj [(''choices'', JArr [JObj [(''delta'', JObj [(''content'', JStr ''hi'')])]])], [])"
      by code_simp
    then show ?thesis
      by (simp add: decode_chunk_def decode_loose_def chunk_fields_def choice_fields_def delta_fields_def decode_choice_def)
  qed
  have shape: "length sample_chunk = 40" "last sample_chunk = CHR ''}''" "sample_chunk \<noteq> []" "sample_chunk \<noteq> ''[DONE]''"
    by (simp_all add: sample_chunk_def)
  show ?thesis
    unfolding decodeStream_def lines
    by (simp add: shape responseByteLimit_def maxStreamBytes_def i64_def drop_cr_def trim_prefix_def d c Let_def
        stream_start_def streamByteLimit_def collect_def stream_end_def empty_response_def)
qed

theorem response_bounded_witness:
  "\<exists>resp t. decodeStream (\<lambda>_. False) sample_stream False
      (Some (collect :: bytes \<Rightarrow> bytes list \<Rightarrow> unit option \<times> bytes list)) (responseByteLimit 10) [] = (Inr resp, t) \<and>
    length (resp_text resp) \<le> 32 * 2 ^ 20 \<and> concat t = resp_text resp"
  using response_bounded [OF sample_stream_read refl] sample_stream_read by auto

text \<open>
  C19: The credential never travels in the clear to another host: an adapter exists only for an
  endpoint that parses, carries no user information and is https, or http to a loopback host.
\<close>

theorem endpoint_guarded:
  assumes "New_adapter lib cfg = Inr a"
  shows "\<exists>u. nl_parse_url lib (ad_endpoint a) = Some u \<and> \<not> u_user u \<and> u_host u \<noteq> [] \<and>
    (u_scheme u = ''https'' \<or> u_scheme u = ''http'' \<and> loopbackHost lib (u_hostname u)) \<and>
    0 < ad_window a \<and> 0 < ad_max_output a \<and> ad_model a \<noteq> []"
  using assms by (auto simp: New_adapter_def split: if_splits option.splits)

definition sample_net :: net_lib where
  "sample_net = \<lparr>nl_parse_url = (\<lambda>u. if u = ''http://localhost/v1'' then
       Some \<lparr>u_scheme = ''http'', u_host = ''localhost'', u_hostname = ''localhost'', u_user = False\<rparr> else None),
     nl_loopback_ip = (\<lambda>h. h = ''127.0.0.1''), nl_parse_time = (\<lambda>t. None), nl_sha = (\<lambda>s. replicate 64 (CHR ''a''))\<rparr>"

definition sample_oconfig :: oconfig where
  "sample_oconfig = \<lparr>oc_endpoint = ''http://localhost/v1'', oc_model = ''m'', oc_window = 1000, oc_max_output = 10,
     oc_temperature = None, oc_seed = None, oc_tool_choice = [], oc_credential = Some (Static ''k'')\<rparr>"

theorem endpoint_guarded_witness:
  "\<exists>a u. New_adapter sample_net sample_oconfig = Inr a \<and> nl_parse_url sample_net (ad_endpoint a) = Some u \<and> \<not> u_user u \<and>
    (u_scheme u = ''https'' \<or> u_scheme u = ''http'' \<and> loopbackHost sample_net (u_hostname u))"
proof -
  have "is_ok (New_adapter sample_net sample_oconfig)"
    by (simp add: New_adapter_def sample_oconfig_def sample_net_def loopbackHost_def equal_fold_def)
  then obtain a where "New_adapter sample_net sample_oconfig = Inr a" by auto
  with endpoint_guarded [OF this] show ?thesis by blast
qed

text \<open>
  A provider that asks for a long pause in seconds is given a negative one: the product of
  seconds and nanoseconds wraps in 64 bits.
\<close>

theorem retry_after_wraps: "parseRetryAfter lib ''9300000000'' now < 0"
proof -
  have "TrimSpace ''9300000000'' = ''9300000000''"
    by (simp add: TrimSpace_def space_rune_def rune_size_def)
  moreover have "parse_int64 ''9300000000'' = Some 9300000000"
    by (simp add: parse_int64_def is_digit_def byte_in_def read_nat_def digit_val_def i64_range_def)
  ultimately show ?thesis by (simp add: parseRetryAfter_def i64_def Let_def)
qed

end
