(* ===== verification/Settings.thy ===== *)
theory Settings
  imports Gofs
begin

text \<open>
  \<open>internal/settings/settings.go\<close>: the home and the project settings and their merge. A file is
  missing, unreadable or its bytes; \<open>to_float\<close> gives the shortest text of a decimal number, or
  None when it is out of range.
\<close>

record provider_settings =
  ps_endpoint :: bytes
  ps_model :: bytes
  ps_window :: int
  ps_max_output :: int
  ps_key_env :: bytes
  ps_temperature :: "bytes option"
  ps_seed :: "int option"
  ps_tool_choice :: bytes

record settings =
  set_provider :: provider_settings
  set_preferences :: bytes

datatype settings_error = ErrHome | ErrRead | ErrDecode | ErrTrailing | ErrOverride | ErrRequired | ErrPositive

datatype file_read = Missing | Unreadable | Contents bytes

definition zero_provider :: provider_settings where
  "zero_provider = \<lparr>ps_endpoint = [], ps_model = [], ps_window = 0, ps_max_output = 0, ps_key_env = [],
     ps_temperature = None, ps_seed = None, ps_tool_choice = []\<rparr>"

definition zero_settings :: settings where
  "zero_settings = \<lparr>set_provider = zero_provider, set_preferences = []\<rparr>"

definition provider_fields :: "(bytes \<Rightarrow> bytes option) \<Rightarrow> provider_settings field list" where
  "provider_fields to_float =
    [(''endpoint'', f_string (\<lambda>s p. p\<lparr>ps_endpoint := s\<rparr>)),
     (''model'', f_string (\<lambda>s p. p\<lparr>ps_model := s\<rparr>)),
     (''context_window'', f_int (\<lambda>i p. p\<lparr>ps_window := i\<rparr>)),
     (''max_output_tokens'', f_int (\<lambda>i p. p\<lparr>ps_max_output := i\<rparr>)),
     (''api_key_env'', f_string (\<lambda>s p. p\<lparr>ps_key_env := s\<rparr>)),
     (''temperature'', f_float_ptr to_float (\<lambda>t p. p\<lparr>ps_temperature := t\<rparr>)),
     (''seed'', f_int_ptr (\<lambda>n p. p\<lparr>ps_seed := n\<rparr>)),
     (''tool_choice'', f_string (\<lambda>s p. p\<lparr>ps_tool_choice := s\<rparr>))]"

definition settings_fields :: "(bytes \<Rightarrow> bytes option) \<Rightarrow> settings field list" where
  "settings_fields to_float =
    [(''provider'', f_nested (decode_struct (provider_fields to_float)) set_provider (\<lambda>p s. s\<lparr>set_provider := p\<rparr>)),
     (''user_preferences'', f_string (\<lambda>t s. s\<lparr>set_preferences := t\<rparr>))]"

definition loadOne :: "(bytes \<Rightarrow> bytes option) \<Rightarrow> file_read \<Rightarrow> (settings_error, settings) result" where
  "loadOne to_float fl =
    (case fl of
       Missing \<Rightarrow> Inr zero_settings
     | Unreadable \<Rightarrow> Inl ErrRead
     | Contents data \<Rightarrow>
        (case read_first data of
           None \<Rightarrow> Inl ErrDecode
         | Some (v, rest) \<Rightarrow>
            (case decode_struct (settings_fields to_float) v zero_settings of
               None \<Rightarrow> Inl ErrDecode
             | Some out \<Rightarrow> if skip_ws rest = [] then Inr out else Inl ErrTrailing)))"

definition merge :: "settings \<Rightarrow> settings \<Rightarrow> settings" where
  "merge base override =
    (let b = set_provider base; p = set_provider override in
     \<lparr>set_provider = b
        \<lparr>ps_model := (if ps_model p \<noteq> [] then ps_model p else ps_model b),
         ps_window := (if ps_window p \<noteq> 0 then ps_window p else ps_window b),
         ps_max_output := (if ps_max_output p \<noteq> 0 then ps_max_output p else ps_max_output b),
         ps_temperature := (if ps_temperature p \<noteq> None then ps_temperature p else ps_temperature b),
         ps_seed := (if ps_seed p \<noteq> None then ps_seed p else ps_seed b),
         ps_tool_choice := (if ps_tool_choice p \<noteq> [] then ps_tool_choice p else ps_tool_choice b)\<rparr>,
      set_preferences = (if set_preferences override \<noteq> [] then set_preferences override else set_preferences base)\<rparr>)"

definition LoadFiles :: "(bytes \<Rightarrow> bytes option) \<Rightarrow> (bytes \<Rightarrow> file_read) \<Rightarrow> bytes \<Rightarrow> bytes
    \<Rightarrow> (settings_error, settings) result" where
  "LoadFiles to_float read homePath projectPath =
    (case loadOne to_float (read homePath) of
       Inl e \<Rightarrow> Inl e
     | Inr home \<Rightarrow>
        (case loadOne to_float (read projectPath) of
           Inl e \<Rightarrow> Inl e
         | Inr project \<Rightarrow>
            if ps_endpoint (set_provider project) \<noteq> [] \<or> ps_key_env (set_provider project) \<noteq> []
            then Inl ErrOverride else Inr (merge home project)))"

definition Load_settings :: "(bytes \<Rightarrow> bytes option) \<Rightarrow> (bytes \<Rightarrow> file_read) \<Rightarrow> bytes option \<Rightarrow> bytes
    \<Rightarrow> (settings_error, settings) result" where
  "Load_settings to_float read userHome workspace =
    (case userHome of
       None \<Rightarrow> Inl ErrHome
     | Some home \<Rightarrow> LoadFiles to_float read (Join [home, ''.coragent'', ''settings.json''])
                      (Join [workspace, ''.coragent'', ''settings.json'']))"

definition Validate_settings :: "settings \<Rightarrow> (settings_error, unit) result" where
  "Validate_settings s = (let p = set_provider s in
     if ps_endpoint p = [] \<or> ps_model p = [] \<or> ps_key_env p = [] then Inl ErrRequired
     else if ps_window p \<le> 0 \<or> ps_max_output p \<le> 0 then Inl ErrPositive
     else Inr ())"

subsection \<open>Properties\<close>

text \<open>
  C20: A project cannot redirect a credential: whatever its settings file holds, the endpoint
  and the name of the credential's environment variable of the settings in force are those of
  the home file, and what the project leaves unset is the home file's too.
\<close>

theorem project_cannot_redirect:
  assumes "Load_settings to_float read (Some home) workspace = Inr s"
  shows "\<exists>h p. loadOne to_float (read (Join [home, ''.coragent'', ''settings.json''])) = Inr h \<and>
    loadOne to_float (read (Join [workspace, ''.coragent'', ''settings.json''])) = Inr p \<and>
    ps_endpoint (set_provider s) = ps_endpoint (set_provider h) \<and>
    ps_key_env (set_provider s) = ps_key_env (set_provider h) \<and>
    ps_endpoint (set_provider p) = [] \<and> ps_key_env (set_provider p) = [] \<and> (p = zero_settings \<longrightarrow> s = h)"
proof -
  from assms obtain h p where hp: "loadOne to_float (read (Join [home, ''.coragent'', ''settings.json''])) = Inr h"
    "loadOne to_float (read (Join [workspace, ''.coragent'', ''settings.json''])) = Inr p"
    "ps_endpoint (set_provider p) = []" "ps_key_env (set_provider p) = []" "s = merge h p"
    unfolding Load_settings_def LoadFiles_def by (simp split: sum.splits if_splits)
  have "ps_endpoint (set_provider s) = ps_endpoint (set_provider h)" "ps_key_env (set_provider s) = ps_key_env (set_provider h)"
    unfolding hp(5) by (simp_all add: merge_def Let_def)
  moreover have "p = zero_settings \<longrightarrow> s = h"
    unfolding hp(5) by (simp add: merge_def Let_def zero_settings_def zero_provider_def)
  ultimately show ?thesis using hp by blast
qed

lemma plain_setting_names [simp]:
  "plain ''provider''" "plain ''user_preferences''" "plain ''endpoint''" "plain ''model''" "plain ''context_window''"
  "plain ''max_output_tokens''" "plain ''api_key_env''" "plain ''temperature''" "plain ''seed''" "plain ''tool_choice''"
  by (simp_all add: plain_def is_lower_def is_digit_def byte_in_def)

definition home_text :: bytes where
  "home_text = ''{\"provider\":{\"endpoint\":\"https://e\",\"api_key_env\":\"K\"}}''"

definition project_text :: bytes where
  "project_text = ''{\"provider\":{\"model\":\"m\"}}''"

lemma sample_texts:
  "read_first home_text = Some (JObj [(''provider'', JObj [(''endpoint'', JStr ''https://e''), (''api_key_env'', JStr ''K'')])], [])"
  "read_first project_text = Some (JObj [(''provider'', JObj [(''model'', JStr ''m'')])], [])"
  by code_simp+

definition sample_files :: "bytes \<Rightarrow> file_read" where
  "sample_files p = (if p = Join [''/h'', ''.coragent'', ''settings.json''] then Contents home_text
     else if p = Join [''/w'', ''.coragent'', ''settings.json''] then Contents project_text else Missing)"

lemma sample_paths: "Join [''/w'', ''.coragent'', ''settings.json''] \<noteq> Join [''/h'', ''.coragent'', ''settings.json'']"
  by (simp add: Join_def Clean_def is_abs_def clean_comps_def push_comp_def)

theorem project_cannot_redirect_witness:
  "\<exists>s h. Load_settings (\<lambda>_. None) sample_files (Some ''/h'') ''/w'' = Inr s \<and>
    loadOne (\<lambda>_. None) (sample_files (Join [''/h'', ''.coragent'', ''settings.json''])) = Inr h \<and>
    ps_endpoint (set_provider s) = ps_endpoint (set_provider h) \<and> ps_key_env (set_provider s) = ps_key_env (set_provider h)"
proof -
  have "is_ok (Load_settings (\<lambda>_. None) sample_files (Some ''/h'') ''/w'')"
    using sample_paths
    by (simp add: Load_settings_def LoadFiles_def sample_files_def loadOne_def sample_texts settings_fields_def
        f_nested_def provider_fields_def zero_settings_def zero_provider_def skip_ws_def)
  then obtain s where "Load_settings (\<lambda>_. None) sample_files (Some ''/h'') ''/w'' = Inr s" by auto
  with project_cannot_redirect [OF this] show ?thesis by blast
qed

end
