(* ===== verification/Cli.thy ===== *)
theory Cli
  imports Engine Openai Settings
begin

text \<open>
  \<open>cmd/coragent/main.go\<close>: the line-oriented front end. Its output is a list of writes, to standard
  output or to standard error (there an error is kept as a value, its message is not modelled).
  What the process meets is in \<open>cli_env\<close>: the home and the store directory, the settings files,
  random bytes, and, for each turn, what the loop of \<open>runTurn\<close> receives and the state it finds
  the session in afterwards.
\<close>

subsection \<open>Terminal text\<close>

definition rune_value :: "bytes \<Rightarrow> nat" where
  "rune_value r = (case map ord_of r of
     [a] \<Rightarrow> a
   | [a, b] \<Rightarrow> a mod 32 * 64 + b mod 64
   | [a, b, c] \<Rightarrow> a mod 16 * 4096 + b mod 64 * 64 + c mod 64
   | [a, b, c, d] \<Rightarrow> a mod 8 * 262144 + b mod 64 * 4096 + c mod 64 * 64 + d mod 64
   | _ \<Rightarrow> 65533)"

text \<open>\<open>unicode.IsControl\<close> and the marks that change the direction of text.\<close>

definition control_rune :: "nat \<Rightarrow> bool" where
  "control_rune v \<longleftrightarrow> v < 32 \<or> 127 \<le> v \<and> v < 160"

definition bidi_rune :: "nat \<Rightarrow> bool" where
  "bidi_rune v \<longleftrightarrow> v = 1564 \<or> v = 8206 \<or> v = 8207 \<or> 8234 \<le> v \<and> v \<le> 8238 \<or> 8294 \<le> v \<and> v \<le> 8297"

definition shown_rune :: "nat \<Rightarrow> bool" where
  "shown_rune v \<longleftrightarrow> v = 10 \<or> v = 9 \<or> \<not> control_rune v \<and> \<not> bidi_rune v"

fun terminalSafe :: "bytes \<Rightarrow> bytes" where
  "terminalSafe [] = []"
| "terminalSafe (c # s) = (let n = rune_size (c # s) in
     if n = 0 then replacement @ terminalSafe s
     else (if shown_rune (rune_value (take n (c # s))) then take n (c # s) else replacement)
       @ terminalSafe (drop (n - 1) s))"

subsection \<open>Writers\<close>

datatype arg = AStr bytes | AInt int

definition terminalValue :: "arg \<Rightarrow> bytes" where
  "terminalValue a = (case a of AStr s \<Rightarrow> terminalSafe s | AInt i \<Rightarrow> show_int i)"

text \<open>\<open>fmt.Fprintf\<close> on formats with \<open>%s\<close> and \<open>%d\<close>.\<close>

fun sprintf :: "bytes \<Rightarrow> bytes list \<Rightarrow> bytes" where
  "sprintf (c # v # f) (a # as) =
     (if c = CHR ''%'' then a @ sprintf f as else c # sprintf (v # f) (a # as))"
| "sprintf f as = f"

definition writeText :: "bytes \<Rightarrow> bytes" where
  "writeText v = terminalSafe v"

definition writeLine :: "bytes \<Rightarrow> bytes" where
  "writeLine v = terminalSafe v @ [nl]"

definition writeFormatted :: "bytes \<Rightarrow> arg list \<Rightarrow> bytes" where
  "writeFormatted f as = sprintf f (map terminalValue as)"

subsection \<open>Events and records\<close>

text \<open>
  \<open>eventRenderer.event\<close>: what is written, and whether a delta was seen since the last block. The
  cause of a failure whose payload does not decode is empty; info events always decode.
\<close>

definition failed_cause :: "event \<Rightarrow> bytes" where
  "failed_cause ev = (case ev_decode (ev_kind ev) (ev_payload ev) of Some (RunFailedPayload c) \<Rightarrow> c | _ \<Rightarrow> [])"

definition render_event :: "event \<Rightarrow> bool \<Rightarrow> bytes \<times> bool" where
  "render_event ev had =
    (let p = ev_decode (ev_kind ev) (ev_payload ev) in
     case ev_kind ev of
       KindAssistantDelta \<Rightarrow> (case p of Some (AssistantDeltaPayload t) \<Rightarrow> (writeText (terminalSafe t), True) | _ \<Rightarrow> ([], had))
     | KindAssistantText \<Rightarrow>
         ((if had then [] else (case p of Some (AssistantTextPayload t) \<Rightarrow> writeText (terminalSafe t) | _ \<Rightarrow> [])), False)
     | KindToolStarted \<Rightarrow> ((case p of
         Some (ToolStartedPayload i n) \<Rightarrow> writeFormatted (nl # ''[%s %s]'' @ [nl]) [AStr (terminalSafe n), AStr (terminalSafe i)]
       | _ \<Rightarrow> []), had)
     | KindToolFinished \<Rightarrow> ((case p of
         Some (ToolFinishedPayload i r) \<Rightarrow> writeFormatted (''[%s %s]'' @ [nl]) [AStr (terminalSafe r), AStr (terminalSafe i)]
       | _ \<Rightarrow> []), had)
     | KindRetryScheduled \<Rightarrow> ((case p of
         Some (RetryScheduledPayload a d c) \<Rightarrow>
           writeFormatted (nl # ''[retry %d in %dms: %s]'' @ [nl]) [AInt a, AInt d, AStr (terminalSafe c)]
       | _ \<Rightarrow> []), had)
     | KindRunCompleted \<Rightarrow> (writeLine [], had)
     | KindRunCancelled \<Rightarrow> (writeLine (nl # ''[cancelled]''), had)
     | KindRunFailed \<Rightarrow> (writeFormatted (nl # ''[failed: %s]'' @ [nl]) [AStr (terminalSafe (failed_cause ev))], had)
     | _ \<Rightarrow> ([], had))"

definition replay_record :: "trecord \<Rightarrow> bytes" where
  "replay_record r = (case (r_kind r, DecodePayload r) of
     (KindUserMessage, Some (UserMessagePayload t)) \<Rightarrow> writeFormatted (''> %s'' @ [nl]) [AStr (terminalSafe t)]
   | (KindAssistantBlock, Some (AssistantBlockPayload t)) \<Rightarrow> writeLine (terminalSafe t)
   | (KindRunOutcome, Some (RunOutcomePayload oc c)) \<Rightarrow>
       if oc \<noteq> RunOutcomeCompleted then writeFormatted (''[%s]'' @ [nl]) [AStr (terminalSafe oc)] else []
   | _ \<Rightarrow> [])"

definition replay :: "trecord list \<Rightarrow> bytes" where
  "replay rs = concat (map replay_record rs)"

subsection \<open>Flags\<close>

text \<open>
  \<open>flag.FlagSet.Parse\<close> for flags that take a text: the values given, in order, and the arguments
  left. None is a usage error, or a request for help.
\<close>

fun parse_flags :: "bytes list \<Rightarrow> bytes list \<Rightarrow> ((bytes \<times> bytes) list \<times> bytes list) option" where
  "parse_flags known [] = Some ([], [])"
| "parse_flags known (a # as) =
    (if length a < 2 \<or> hd a \<noteq> CHR ''-'' then Some ([], a # as)
     else if a = ''--'' then Some ([], as)
     else (let name = (if a ! 1 = CHR ''-'' then drop 2 a else drop 1 a) in
       if name = [] \<or> hd name = CHR ''-'' \<or> hd name = CHR ''='' then None
       else (let key = hd name # takeWhile (\<lambda>c. c \<noteq> CHR ''='') (tl name);
                 given = drop (length key) name
         in if key \<notin> set known then None
            else if given \<noteq> [] then map_option (\<lambda>(vs, rest). ((key, tl given) # vs, rest)) (parse_flags known as)
            else (case as of
               [] \<Rightarrow> None
             | v # as' \<Rightarrow> map_option (\<lambda>(vs, rest). ((key, v) # vs, rest)) (parse_flags known as')))))"

definition flag_value :: "(bytes \<times> bytes) list \<Rightarrow> bytes \<Rightarrow> bytes \<Rightarrow> bytes" where
  "flag_value vs key otherwise = (case map_of (rev vs) key of None \<Rightarrow> otherwise | Some v \<Rightarrow> v)"

subsection \<open>The process\<close>

datatype cli_error =
    CliSettings settings_error | CliAdapter openai_error | CliHome | CliList | CliEngine eng_error
  | CliStore store_error | CliClosed | CliApply engine_error | CliObservation | CliRunFailed bytes | CliScan

datatype put = Out bytes | ErrText bytes | ErrValue cli_error

datatype turn_input = Interrupted | Received event | ObservationClosed

record cli_env =
  ce_engine :: engine_env
  ce_net :: net_lib
  ce_float :: "bytes \<Rightarrow> bytes option"
  ce_home :: "bytes option"
  ce_files :: "bytes \<Rightarrow> file_read"
  ce_names :: "bytes list option"
  ce_time :: "gotime \<Rightarrow> bytes"
  ce_rand :: "nat \<Rightarrow> bytes option"
  ce_nanos :: "nat \<Rightarrow> int"
  ce_watch :: "nat \<Rightarrow> session \<Rightarrow> turn_input list \<times> session"

definition newCommandID :: "cli_env \<Rightarrow> nat \<Rightarrow> bytes" where
  "newCommandID env k = (case ce_rand env k of
     Some hex \<Rightarrow> ''cmd-'' @ hex | None \<Rightarrow> ''cmd-'' @ show_int (ce_nanos env k))"

definition DefaultStoreRoot :: "cli_env \<Rightarrow> bytes option" where
  "DefaultStoreRoot env = map_option (\<lambda>home. Join [home, ''.coragent'', ''sessions'']) (ce_home env)"

definition adapter_config :: "provider_settings \<Rightarrow> oconfig" where
  "adapter_config p = \<lparr>oc_endpoint = ps_endpoint p, oc_model = ps_model p, oc_window = ps_window p,
     oc_max_output = ps_max_output p, oc_temperature = ps_temperature p, oc_seed = ps_seed p,
     oc_tool_choice = ps_tool_choice p, oc_credential = Some (EnvSource (ps_key_env p))\<rparr>"

definition newRuntime :: "cli_env \<Rightarrow> bytes \<Rightarrow> (cli_error, engine) result" where
  "newRuntime env workspacePath =
    (case Load_settings (ce_float env) (ce_files env) (ce_home env) workspacePath of
       Inl e \<Rightarrow> Inl (CliSettings e)
     | Inr cfg \<Rightarrow>
        (case Validate_settings cfg of
           Inl e \<Rightarrow> Inl (CliSettings e)
         | Inr _ \<Rightarrow>
            (case New_adapter (ce_net env) (adapter_config (set_provider cfg)) of
               Inl e \<Rightarrow> Inl (CliAdapter e)
             | Inr adapter \<Rightarrow>
                (case DefaultStoreRoot env of
                   None \<Rightarrow> Inl CliHome
                 | Some root \<Rightarrow>
                    map_sum CliEngine id (New_engine (ee_lib (ce_engine env))
                      \<lparr>ec_root = root, ec_provider = Some (Some (adapter_Identity (ce_net env) adapter)),
                       ec_window = ps_window (set_provider cfg), ec_max_output = ps_max_output (set_provider cfg),
                       ec_preferences = set_preferences cfg\<rparr>)))))"

subsection \<open>A turn\<close>

text \<open>
  The loop of \<open>runTurn\<close> on what it receives: what it writes, how many cancel commands it sends,
  and its result, or None while it waits.
\<close>

fun turn_loop :: "turn_input list \<Rightarrow> bool \<Rightarrow> bytes \<times> nat \<times> cli_error option option" where
  "turn_loop [] had = ([], 0, None)"
| "turn_loop (Interrupted # is) had = (case turn_loop is had of (out, n, res) \<Rightarrow> (out, Suc n, res))"
| "turn_loop (ObservationClosed # is) had = ([], 0, Some (Some CliObservation))"
| "turn_loop (Received ev # is) had =
    (case render_event ev had of (out, had') \<Rightarrow>
       if ev_kind ev = KindRunCompleted \<or> ev_kind ev = KindRunCancelled then (out, 0, Some None)
       else if ev_kind ev = KindRunFailed then (out, 0, Some (Some (CliRunFailed (failed_cause ev))))
       else (case turn_loop is had' of (out', n, res) \<Rightarrow> (out @ out', n, res)))"

text \<open>
  \<open>runTurn\<close>, the \<open>k\<close>-th of the process: the error it returns, what it writes and the session after it; None
  if the loop still waits. The observation ends with the function.
\<close>

definition runTurn :: "cli_env \<Rightarrow> world \<Rightarrow> nat \<Rightarrow> bytes \<Rightarrow> session \<Rightarrow> (cli_error option \<times> put list \<times> session) option" where
  "runTurn env w k prompt s =
    (let i = length (s_subs s); s1 = snd (Observe (s_cursor s) s) in
     case Apply w False (ForSession (NewSubmit (newCommandID env k) prompt) (s_id s1)) s1 of
       (Inl e, s2) \<Rightarrow> Some (Some (CliApply e), [], unsubscribe i s2)
     | (Inr _, s2) \<Rightarrow>
        (case ce_watch env k s2 of (inputs, s3) \<Rightarrow>
           (case turn_loop inputs False of (out, n, res) \<Rightarrow>
              map_option (\<lambda>e. (e, [Out out], unsubscribe i s3)) res)))"

text \<open>
  The prompt loop of \<open>interact\<close> over the lines of standard input; \<open>failed\<close> says that the scanner
  stopped with an error. The result is the exit code, the writes and the session left.
\<close>

fun interact_lines :: "cli_env \<Rightarrow> world \<Rightarrow> bool \<Rightarrow> bytes list \<Rightarrow> nat \<Rightarrow> session \<Rightarrow> (int \<times> put list \<times> session) option" where
  "interact_lines env w failed [] k s =
     Some (if failed then (1, [Out (writeText ''> ''), ErrValue CliScan], s) else (0, [Out (writeText ''> '')], s))"
| "interact_lines env w failed (l # ls) k s =
    (let line = TrimSpace l in
     if line = [] then map_option (\<lambda>(code, ps, s'). (code, Out (writeText ''> '') # ps, s')) (interact_lines env w failed ls k s)
     else (case runTurn env w k line s of
       None \<Rightarrow> None
     | Some (e, ps, s1) \<Rightarrow>
        map_option (\<lambda>(code, qs, s2).
            (code, Out (writeText ''> '') # ps @ (case e of None \<Rightarrow> [] | Some e \<Rightarrow> [ErrValue e]) @ qs, s2))
          (interact_lines env w failed ls (Suc k) s1)))"

definition interact :: "cli_env \<Rightarrow> world \<Rightarrow> nat \<Rightarrow> bytes \<Rightarrow> bytes \<times> bool \<Rightarrow> session \<Rightarrow> (int \<times> put list \<times> session) option" where
  "interact env w k onePrompt stdin s =
    (if onePrompt \<noteq> [] then
       map_option (\<lambda>(e, ps, s'). case e of
           None \<Rightarrow> (0, ps, s')
         | Some e \<Rightarrow> (1, ps @ [ErrValue e], s')) (runTurn env w k onePrompt s)
     else (case scan_tokens (64 * 1024) (snd stdin) (split_byte nl (fst stdin)) of (tokens, failed) \<Rightarrow>
       interact_lines env w failed (map fst tokens) k s))"

subsection \<open>Subcommands\<close>

text \<open>
  Each returns its exit code, its writes, and the session or the closed store it leaves; None if a
  turn still waits. The deferred \<open>Shutdown\<close> comes after.
\<close>

definition runSessions :: "cli_env \<Rightarrow> bytes list \<Rightarrow> int \<times> put list" where
  "runSessions env args =
    (if args \<noteq> [] then (2, [ErrText (writeLine ''usage: coragent sessions'')])
     else (case DefaultStoreRoot env of
       None \<Rightarrow> (1, [ErrValue CliHome])
     | Some _ \<Rightarrow> (case ce_names env of
          None \<Rightarrow> (1, [ErrValue CliList])
        | Some names \<Rightarrow> (0, map (\<lambda>x. Out (writeFormatted (''%s'' @ [CHR 0x09] @ ''%s'' @ [CHR 0x09] @ ''%s'' @ [CHR 0x09] @ ''%s'' @ [nl])
              [AStr (terminalSafe (ss_session x)), AStr (if ss_closed x then ''closed'' else ''open''),
               AStr (ce_time env (ss_activity x)), AStr (terminalSafe (ss_workspace x))]))
            (ListStoredSessions (ce_engine env) names)))))"

definition runClose :: "cli_env \<Rightarrow> bytes list \<Rightarrow> int \<times> put list \<times> store option" where
  "runClose env args =
    (case args of
       [i] \<Rightarrow>
         (case DefaultStoreRoot env of
            None \<Rightarrow> (1, [ErrValue CliHome], None)
          | Some _ \<Rightarrow> (case InspectStoredSession (ce_engine env) i of
               Inl e \<Rightarrow> (1, [ErrValue (CliStore e)], None)
             | Inr info \<Rightarrow>
                if ss_closed info then (0, [Out (writeFormatted (''session %s already closed'' @ [nl]) [AStr i])], None)
                else (case CloseStoredSession (ce_engine env) False i (newCommandID env 0) of
                  Inl e \<Rightarrow> (1, [ErrValue (CliEngine e)], None)
                | Inr st \<Rightarrow> (0, [Out (writeFormatted (''session %s closed'' @ [nl]) [AStr i])], Some st))))
     | _ \<Rightarrow> (2, [ErrText (writeLine ''usage: coragent close <session-id>'')], None))"

definition startNew :: "cli_env \<Rightarrow> bytes \<Rightarrow> bytes \<Rightarrow> bytes \<times> bool \<Rightarrow> (int \<times> put list \<times> session option) option" where
  "startNew env path onePrompt stdin =
    (case newRuntime env path of
       Inl e \<Rightarrow> Some (1, [ErrValue e], None)
     | Inr e \<Rightarrow> (case Create_session (ce_engine env) False e path of
          Inl err \<Rightarrow> Some (1, [ErrValue (CliEngine err)], None)
        | Inr (w, s) \<Rightarrow>
           map_option (\<lambda>(code, ps, s'). (code, Out (writeFormatted (''session %s'' @ [nl]) [AStr (s_id s)]) # ps, Some s'))
             (interact env w 0 onePrompt stdin s)))"

definition resume_session :: "cli_env \<Rightarrow> bytes \<Rightarrow> bytes \<Rightarrow> bytes \<times> bool \<Rightarrow> stored_session
    \<Rightarrow> (int \<times> put list \<times> session option) option" where
  "resume_session env i onePrompt stdin info =
    (if ss_closed info then Some (1, [ErrValue CliClosed], None)
     else (case newRuntime env (ss_workspace info) of
       Inl e \<Rightarrow> Some (1, [ErrValue e], None)
     | Inr e \<Rightarrow> (case Load_session (ce_engine env) False e i of
          Inl err \<Rightarrow> Some (1, [ErrValue (CliEngine err)], None)
        | Inr (w, s) \<Rightarrow> (case Apply w False (ForSession (NewResume (newCommandID env 0)) i) s of
             (Inl err, s1) \<Rightarrow> Some (1, [ErrValue (CliApply err)], Some s1)
           | (Inr _, s1) \<Rightarrow>
              map_option (\<lambda>(code, ps, s'). (code, Out (writeFormatted (''session %s resumed'' @ [nl]) [AStr (s_id s1)]) # ps, Some s'))
                (interact env w 1 onePrompt stdin s1)))))"

definition runResume :: "cli_env \<Rightarrow> bytes list \<Rightarrow> bytes \<times> bool \<Rightarrow> (int \<times> put list \<times> session option) option" where
  "runResume env args stdin =
    (case args of
       [] \<Rightarrow> Some (2, [ErrText (writeLine ''usage: coragent resume <session-id> [--prompt text]'')], None)
     | i # rest \<Rightarrow>
        (case parse_flags [''prompt''] rest of
           Some (vs, []) \<Rightarrow>
             (case DefaultStoreRoot env of
                None \<Rightarrow> Some (1, [ErrValue CliHome], None)
              | Some _ \<Rightarrow> (case InspectStoredSession (ce_engine env) i of
                   Inl e \<Rightarrow> Some (1, [ErrValue (CliStore e)], None)
                 | Inr info \<Rightarrow> (case LoadStoredTranscript (ce_engine env) i of
                      Inl e \<Rightarrow> Some (1, [ErrValue (CliStore e)], None)
                    | Inr records \<Rightarrow>
                       map_option (\<lambda>(code, ps, s). (code, Out (replay records) # ps, s))
                         (resume_session env i (flag_value vs ''prompt'' []) stdin info))))
         | _ \<Rightarrow> Some (2, [], None)))"

definition printUsage :: bytes where
  "printUsage = writeLine ''usage:'' @ writeLine ''  coragent -C <workspace> [--prompt text]'' @
     writeLine ''  coragent sessions'' @ writeLine ''  coragent resume <session-id> [--prompt text]'' @
     writeLine ''  coragent close <session-id>''"

definition version :: bytes where "version = ''m1-dev''"

definition run :: "cli_env \<Rightarrow> bytes list \<Rightarrow> bytes \<times> bool \<Rightarrow> (int \<times> put list \<times> session option) option" where
  "run env args stdin =
    (let start = (case parse_flags [''C'', ''prompt''] args of
         None \<Rightarrow> Some (2, [], None)
       | Some (vs, []) \<Rightarrow> startNew env (flag_value vs ''C'' ''.'') (flag_value vs ''prompt'' []) stdin
       | Some (vs, a # _) \<Rightarrow> Some (2, [ErrText (''coragent: unexpected argument '' @
           go_quote (ee_lib (ce_engine env)) (terminalSafe a) @ [nl])], None))
     in case args of
       [] \<Rightarrow> start
     | a # rest \<Rightarrow>
        if a = ''sessions'' then (case runSessions env rest of (code, ps) \<Rightarrow> Some (code, ps, None))
        else if a = ''resume'' then runResume env rest stdin
        else if a = ''close'' then (case runClose env rest of (code, ps, _) \<Rightarrow> Some (code, ps, None))
        else if a = ''version'' \<or> a = ''--version'' then Some (0, [Out (writeLine version)], None)
        else if a = ''help'' \<or> a = ''--help'' \<or> a = ''-h'' then Some (0, [Out printUsage], None)
        else start)"

subsection \<open>What reaches the terminal\<close>

definition harmless :: "nat \<Rightarrow> bool" where
  "harmless v \<longleftrightarrow> v \<in> {9, 10} \<or> v \<in> - ({..31} \<union> {127..159} \<union> {0x061C, 0x200E, 0x200F} \<union> {0x202A..0x202E} \<union> {0x2066..0x2069})"

fun clean_text :: "bytes \<Rightarrow> bool" where
  "clean_text [] = True"
| "clean_text (c # s) = (let n = rune_size (c # s) in
     n \<noteq> 0 \<and> harmless (rune_value (take n (c # s))) \<and> clean_text (drop (n - 1) s))"

lemma shown_harmless: "shown_rune v = harmless v"
  by (auto simp: harmless_def shown_rune_def control_rune_def bidi_rune_def)

declare clean_text.simps [simp del]

lemma clean_text_simps [simp]:
  "clean_text [] = True"
  "clean_text (c # s) = (let n = rune_size (c # s) in
     n \<noteq> 0 \<and> shown_rune (rune_value (take n (c # s))) \<and> clean_text (drop (n - 1) s))"
  by (simp_all add: clean_text.simps shown_harmless)

lemma clean_rune:
  assumes "rune_size s = n" "n \<noteq> 0" "shown_rune (rune_value (take n s))" "clean_text t"
  shows "clean_text (take n s @ t)"
proof -
  from assms(1,2) obtain c r where s: "s = c # r" by (cases s) auto
  have len: "length (take n s) = n" using rune_size_le [of s] assms(1) by simp
  obtain m where m: "n = Suc m" using assms(2) by (cases n) auto
  from len have lr: "length (take m r) = m" by (simp add: s m)
  have split: "take n s @ t = c # (take m r @ t)" by (simp add: s m)
  have size: "rune_size (c # (take m r @ t)) = n" using rune_size_take [OF assms(1,2)] split by metis
  have "take n (c # (take m r @ t)) = take n s" using lr by (simp add: s m)
  moreover have "drop m (take m r @ t) = t" using lr by simp
  ultimately have "clean_text (c # (take m r @ t))"
    unfolding clean_text_simps Let_def size using assms m by simp
  then show ?thesis by (simp only: split)
qed

lemma clean_replacement: "clean_text t \<Longrightarrow> clean_text (replacement @ t)"
proof -
  have r: "rune_size replacement = 3" "take 3 replacement = replacement" by code_simp+
  have "shown_rune (rune_value replacement)"
    by (simp add: rune_value_def replacement_def shown_rune_def control_rune_def bidi_rune_def)
  then show "clean_text t \<Longrightarrow> ?thesis" using clean_rune [of replacement 3 t] by (simp only: r)
qed

lemma clean_append: "clean_text s \<Longrightarrow> clean_text t \<Longrightarrow> clean_text (s @ t)"
proof (induction s rule: clean_text.induct)
  case (2 c s)
  define n where "n = rune_size (c # s)"
  from 2(2) have n: "n \<noteq> 0" "shown_rune (rune_value (take n (c # s)))" "clean_text (drop (n - 1) s)"
    unfolding clean_text_simps Let_def n_def by blast+
  from 2(1) [OF n_def n(3) 2(3)] have "clean_text (take n (c # s) @ drop (n - 1) s @ t)"
    by (intro clean_rune) (simp_all add: n n_def [symmetric])
  moreover have "take n (c # s) @ drop (n - 1) s = c # s" using n(1) by (cases n) simp_all
  ultimately show ?case by (metis append_assoc)
qed simp

lemma clean_concat: "\<forall>s \<in> set ss. clean_text s \<Longrightarrow> clean_text (concat ss)"
  by (induction ss) (auto intro: clean_append)

lemma terminalSafe_clean [simp]: "clean_text (terminalSafe s)"
proof (induction s rule: terminalSafe.induct)
  case (2 c s)
  define n where "n = rune_size (c # s)"
  have "n \<noteq> 0 \<Longrightarrow> shown_rune (rune_value (take n (c # s))) \<Longrightarrow> clean_text (take n (c # s) @ terminalSafe (drop (n - 1) s))"
    using 2(2) [OF n_def] by (intro clean_rune) (simp_all add: n_def)
  with 2 show ?case unfolding terminalSafe.simps Let_def n_def [symmetric] by (auto intro: clean_replacement)
qed simp

lemma terminalSafe_id: "clean_text s \<Longrightarrow> terminalSafe s = s"
proof (induction s rule: terminalSafe.induct)
  case (2 c s)
  then show ?case by (cases "rune_size (c # s)") (simp_all add: Let_def)
qed simp

text \<open>Plain ASCII, such as the formats.\<close>

definition plain_text :: "bytes \<Rightarrow> bool" where
  "plain_text s \<longleftrightarrow> list_all (\<lambda>c. ord_of c < 128 \<and> shown_rune (ord_of c)) s"

lemmas plain_defs = nl_def plain_text_def shown_rune_def control_rune_def bidi_rune_def

lemma plain_clean: "plain_text s \<Longrightarrow> clean_text s"
  by (induction s) (auto simp: plain_text_def Let_def rune_value_def)

lemma sprintf_clean: "plain_text f \<Longrightarrow> \<forall>a \<in> set as. clean_text a \<Longrightarrow> clean_text (sprintf f as)"
proof (induction f as rule: sprintf.induct)
  case (1 c v f a as)
  have "clean_text [c]" using 1(3) by (intro plain_clean) (simp add: plain_text_def)
  from clean_append [OF this, of "sprintf (v # f) (a # as)"] clean_append [of a "sprintf f as"] 1
  show ?case by (auto simp: plain_text_def)
qed (auto intro: plain_clean simp del: clean_text_simps)

lemma show_int_plain: "plain_text (show_int i)"
proof -
  have "\<forall>c \<in> set (show_nat n). ord_of c < 128 \<and> shown_rune (ord_of c)" for n
    using show_nat_digits [of _ n] by (fastforce simp: is_digit_def byte_in_def shown_rune_def control_rune_def bidi_rune_def)
  then show ?thesis
    by (auto simp: show_int_def plain_text_def list_all_iff shown_rune_def control_rune_def bidi_rune_def)
qed

lemma writers_clean [simp]: "clean_text (writeText v)" "clean_text (writeLine v)"
  "plain_text f \<Longrightarrow> clean_text (writeFormatted f as)"
proof -
  have nl: "clean_text [nl]" by (rule plain_clean) (simp add: plain_defs)
  show "clean_text (writeText v)" "clean_text (writeLine v)"
    using clean_append [OF _ nl] by (simp_all add: writeText_def writeLine_def)
  show "plain_text f \<Longrightarrow> clean_text (writeFormatted f as)"
    unfolding writeFormatted_def
    by (rule sprintf_clean) (auto simp: terminalValue_def show_int_plain plain_clean split: arg.split)
qed

lemma render_clean: "clean_text (fst (render_event ev had))"
proof -
  have "plain_text (nl # ''[%s %s]'' @ [nl])" "plain_text (''[%s %s]'' @ [nl])" "plain_text (nl # ''[retry %d in %dms: %s]'' @ [nl])"
    "plain_text (nl # ''[failed: %s]'' @ [nl])" by (simp_all add: plain_defs)
  note formats = this [THEN writers_clean(3)]
  show ?thesis
    by (cases "ev_kind ev"; cases "ev_decode (ev_kind ev) (ev_payload ev)")
       (simp_all only: render_event_def Let_def kind.simps option.simps formats writers_clean(1,2) clean_text_simps(1)
         fst_conv if_True if_False split: ev_payload.split if_split, simp_all)
qed

lemma replay_clean: "clean_text (replay rs)"
proof -
  have "plain_text (''> %s'' @ [nl])" "plain_text (''[%s]'' @ [nl])" by (simp_all add: plain_defs)
  note formats = this [THEN writers_clean(3)]
  have "clean_text (replay_record r)" for r
    by (cases "r_kind r"; cases "DecodePayload r")
       (simp_all only: replay_record_def prod.case record_kind.simps option.simps formats writers_clean(1,2) clean_text_simps(1)
         split: tpayload.split if_split, simp_all)
  then show ?thesis unfolding replay_def by (intro clean_concat) auto
qed

lemma render_cleanD: "render_event ev had = (out, had') \<Longrightarrow> clean_text out"
  using render_clean [of ev had] by simp

lemma turn_clean: "turn_loop is had = (out, n, res) \<Longrightarrow> clean_text out"
  by (induction "is" had arbitrary: out n res rule: turn_loop.induct)
     (auto intro: clean_append dest: render_cleanD split: prod.splits if_splits)

text \<open>Writes to standard output.\<close>

definition clean_puts :: "put list \<Rightarrow> bool" where
  "clean_puts ps \<longleftrightarrow> (\<forall>t. Out t \<in> set ps \<longrightarrow> clean_text t)"

lemma clean_puts_simps [simp]:
  "clean_puts []" "clean_puts (Out t # ps) \<longleftrightarrow> clean_text t \<and> clean_puts ps" "clean_puts (ErrText t # ps) \<longleftrightarrow> clean_puts ps"
  "clean_puts (ErrValue e # ps) \<longleftrightarrow> clean_puts ps" "clean_puts (ps @ qs) \<longleftrightarrow> clean_puts ps \<and> clean_puts qs"
  by (auto simp: clean_puts_def)

lemma runTurn_clean: "runTurn env w k prompt s = Some (e, ps, s') \<Longrightarrow> clean_puts ps"
  by (auto simp: runTurn_def Let_def dest: turn_clean split: prod.splits sum.splits)

lemma lines_clean: "interact_lines env w failed ls k s = Some (code, ps, s') \<Longrightarrow> clean_puts ps"
proof (induction env w failed ls k s arbitrary: code ps s' rule: interact_lines.induct)
  case (2 env w failed l ls k s)
  show ?case
  proof (cases "TrimSpace l = []")
    case True
    with 2 show ?thesis by (auto simp: Let_def)
  next
    case False
    with 2(3) obtain e qs s1 where turn: "runTurn env w k (TrimSpace l) s = Some (e, qs, s1)"
      by (auto simp: Let_def split: option.splits)
    with False 2(3) obtain rs where "interact_lines env w failed ls (Suc k) s1 = Some (code, rs, s')"
      "ps = Out (writeText ''> '') # qs @ (case e of None \<Rightarrow> [] | Some e \<Rightarrow> [ErrValue e]) @ rs"
      by (auto simp: Let_def)
    with 2(2) [OF refl False turn refl refl] runTurn_clean [OF turn] show ?thesis by (auto split: option.split)
  qed
qed (auto split: if_splits)

lemma interact_clean: "interact env w k prompt stdin s = Some (code, ps, s') \<Longrightarrow> clean_puts ps"
  by (auto simp: interact_def dest!: runTurn_clean lines_clean split: if_splits option.splits prod.splits)

lemma session_line_clean [simp]: "clean_text (writeFormatted (''session %s'' @ [nl]) as)"
    "clean_text (writeFormatted (''session %s resumed'' @ [nl]) as)" "clean_text (writeFormatted (''session %s closed'' @ [nl]) as)"
    "clean_text (writeFormatted (''session %s already closed'' @ [nl]) as)"
    "clean_text (writeFormatted (''%s'' @ [CHR 0x09] @ ''%s'' @ [CHR 0x09] @ ''%s'' @ [CHR 0x09] @ ''%s'' @ [nl]) as)"
  by (rule writers_clean(3), simp add: plain_defs)+

lemma startNew_clean: "startNew env path prompt stdin = Some (code, ps, s) \<Longrightarrow> clean_puts ps"
  by (auto simp: startNew_def simp del: append.simps dest: interact_clean split: sum.splits prod.splits)

lemma resume_clean: "runResume env args stdin = Some (code, ps, s) \<Longrightarrow> clean_puts ps"
  by (auto simp: runResume_def resume_session_def replay_clean simp del: append.simps dest: interact_clean
      split: sum.splits prod.splits option.splits list.splits if_splits)

lemma sessions_clean: "runSessions env args = (code, ps) \<Longrightarrow> clean_puts ps"
  by (auto simp: runSessions_def clean_puts_def simp del: append.simps split: option.splits if_splits)

lemma close_clean: "runClose env args = (code, ps, st) \<Longrightarrow> clean_puts ps"
  by (auto simp: runClose_def simp del: append.simps split: option.splits sum.splits list.splits if_splits)

lemma usage_clean [simp]: "clean_text printUsage"
  unfolding printUsage_def by (intro clean_append writers_clean)

lemma run_clean: "run env args stdin = Some (code, ps, s) \<Longrightarrow> clean_puts ps"
proof -
  define start where "start = (case parse_flags [''C'', ''prompt''] args of
         None \<Rightarrow> Some (2, [], None)
       | Some (vs, []) \<Rightarrow> startNew env (flag_value vs ''C'' ''.'') (flag_value vs ''prompt'' []) stdin
       | Some (vs, a # _) \<Rightarrow> Some (2, [ErrText (''coragent: unexpected argument '' @
           go_quote (ee_lib (ce_engine env)) (terminalSafe a) @ [nl])], None))"
  have start: "start = Some (code, ps, s) \<Longrightarrow> clean_puts ps"
    unfolding start_def by (auto dest: startNew_clean simp del: append.simps split: option.splits list.splits)
  assume run: "run env args stdin = Some (code, ps, s)"
  show ?thesis
  proof (cases args)
    case Nil
    with run start show ?thesis unfolding run_def Let_def start_def [symmetric] by simp
  next
    case (Cons a rest)
    consider "runSessions env rest = (code, ps)" | "runResume env rest stdin = Some (code, ps, s)"
      | st where "runClose env rest = (code, ps, st)" | "ps = [Out (writeLine version)]" | "ps = [Out printUsage]"
      | "start = Some (code, ps, s)"
      using run unfolding run_def Let_def start_def [symmetric] unfolding Cons list.case
      by (simp split: if_split_asm prod.split_asm)
    then show ?thesis
      by cases (auto dest: start resume_clean sessions_clean close_clean)
  qed
qed

subsection \<open>Properties\<close>

text \<open>
  C24: Nothing the program writes to standard output can drive the terminal: whatever the model,
  the tools, the stored sessions or the provider put into names, texts and identifiers, every
  text written by any subcommand is valid UTF-8 without control characters (newline and tab
  apart) and without marks that change the direction of text.
\<close>

theorem output_clean:
  assumes "run env args stdin = Some (code, ps, s)" "Out t \<in> set ps"
  shows "clean_text t"
  using run_clean [OF assms(1)] assms(2) by (simp add: clean_puts_def)

text \<open>The process on a home with one stored session and no settings.\<close>

definition sample_cli :: cli_env where
  "sample_cli = \<lparr>ce_engine = sample_env, ce_net = sample_net, ce_float = (\<lambda>_. None), ce_home = Some ''/h'',
     ce_files = (\<lambda>_. Missing), ce_names = Some [''s''], ce_time = (\<lambda>_. ''2026''), ce_rand = (\<lambda>_. Some ''0a''), ce_nanos = int,
     ce_watch = (\<lambda>_ s. ([], s))\<rparr>"

lemma sample_listed: "ListStoredSessions sample_env [''s''] =
    [\<lparr>ss_session = ''s'', ss_workspace = ''/w'', ss_activity = 1, ss_closed = False\<rparr>]"
proof -
  have "ee_root sample_env ''s'' = SessionDir (st_disk stored_sample)" "ee_lib sample_env = sample_lib" "ee_clock sample_env = sample_clock"
    by (simp_all add: sample_env_def)
  then show ?thesis
    by (simp add: ListStoredSessions_def List_sessions_def stored_opened summary_of_def Let_def)
       (simp add: stored_sample_def stored_manifest_def sample_manifest_def)
qed

theorem output_clean_witness:
  "\<exists>t. run sample_cli [''sessions''] ([], False) = Some (0, [Out t], None) \<and> clean_text t"
proof -
  have "\<exists>t. run sample_cli [''sessions''] ([], False) = Some (0, [Out t], None)"
    by (simp add: run_def runSessions_def sample_cli_def DefaultStoreRoot_def sample_listed Let_def)
  then show ?thesis using output_clean [of sample_cli "[''sessions'']" "([], False)" 0] by fastforce
qed

subsection \<open>What a turn shows\<close>

text \<open>The rendering of a list of events, and the events a turn takes in before it ends.\<close>

fun show_events :: "event list \<Rightarrow> bool \<Rightarrow> bytes" where
  "show_events [] had = []"
| "show_events (ev # es) had = (case render_event ev had of (out, had') \<Rightarrow> out @ show_events es had')"

fun received :: "turn_input list \<Rightarrow> event list" where
  "received [] = []"
| "received (Interrupted # is) = received is"
| "received (ObservationClosed # is) = []"
| "received (Received ev # is) = ev # received is"

fun until_end :: "event list \<Rightarrow> event list" where
  "until_end [] = []"
| "until_end (ev # es) = (if isTerminal (ev_kind ev) then [ev] else ev # until_end es)"

definition turn_result :: "event \<Rightarrow> cli_error option" where
  "turn_result ev = (if ev_kind ev = KindRunFailed then Some (CliRunFailed (failed_cause ev)) else None)"

lemma prefix_until: "prefix (until_end es) es"
  by (induction es) auto

lemma until_end_Nil [simp]: "until_end es = [] \<longleftrightarrow> es = []"
  by (cases es) auto

lemma until_end_facts:
  "\<not> list_ex (\<lambda>ev. isTerminal (ev_kind ev)) (butlast (until_end es))"
  "list_ex (\<lambda>ev. isTerminal (ev_kind ev)) es \<Longrightarrow> isTerminal (ev_kind (last (until_end es)))"
  "\<not> list_ex (\<lambda>ev. isTerminal (ev_kind ev)) es \<Longrightarrow> until_end es = es"
  by (induction es) auto

lemma turn_loop_spec:
  assumes "turn_loop is had = (out, n, res)"
  shows "out = show_events (until_end (received is)) had \<and>
    (if list_ex (\<lambda>ev. isTerminal (ev_kind ev)) (received is)
     then res = Some (turn_result (last (until_end (received is))))
     else res = None \<or> res = Some (Some CliObservation))"
  using assms
proof (induction "is" had arbitrary: out n res rule: turn_loop.induct)
  case (4 ev "is" had)
  obtain o1 had' where r: "render_event ev had = (o1, had')" by fastforce
  show ?case
  proof (cases "isTerminal (ev_kind ev)")
    case True
    with 4(2) r show ?thesis by (auto simp: isTerminal_def turn_result_def split: if_splits)
  next
    case False
    obtain o2 n2 res2 where l: "turn_loop is had' = (o2, n2, res2)" by (metis prod_cases3)
    with False 4(2) r have o: "out = o1 @ o2" "res = res2" by (auto simp: isTerminal_def)
    with 4(1) [OF r [symmetric] _ _ l] False o r show ?thesis
      by (auto simp: isTerminal_def)
  qed
qed (auto split: prod.splits)

text \<open>
  C25: What a turn shows: when the loop of \<open>runTurn\<close> received what its observer was handed (with
  interrupts at any point), it writes exactly the rendering of a first part of the session's events
  after the cursor it observed from, in order and none twice, up to the first terminal event; it
  returns once that event came, with the error of a failed run and with none of a completed
  or cancelled one; and until then it returns only because the observation was cut off.
\<close>

theorem turn_shows:
  assumes "NewSession w i docs durable = (Inr (), s0)" "\<And>st. durable = Some st \<Longrightarrow> created st"
    and "reach w s0 s" "n \<in> set (s_subs s)" "prefix (received is) (sub_out (sn_sub n))"
    and "turn_loop is False = (out, cancels, res)"
  shows "\<exists>es. prefix es (due (s_history s) n) \<and> out = show_events es False \<and> clean_text out \<and>
    \<not> list_ex (\<lambda>ev. isTerminal (ev_kind ev)) (butlast es) \<and>
    (if list_ex (\<lambda>ev. isTerminal (ev_kind ev)) (received is)
     then isTerminal (ev_kind (last es)) \<and> res = Some (turn_result (last es))
     else es = received is \<and> (res = None \<or> res = Some (Some CliObservation)))"
proof -
  from reach_live [OF assms(3) NewSession_live [OF assms(1,2)]] assms(4) have "sub_ok (due (s_history s) n) (sn_sub n)"
    by (auto simp: live_def list_all_iff observed_def)
  with sub_okD have "prefix (sub_out (sn_sub n)) (due (s_history s) n)" by blast
  with assms(5) prefix_until have "prefix (until_end (received is)) (due (s_history s) n)"
    by (blast intro: prefix_order.trans)
  with turn_loop_spec [OF assms(6)] turn_clean [OF assms(6)] until_end_facts [of "received is"] show ?thesis
    by (intro exI [of _ "until_end (received is)"]) auto
qed

theorem turn_shows_witness:
  "prefix ([] :: event list) [] \<and> turn_loop [Interrupted, ObservationClosed] False = ([], 1, Some (Some CliObservation))"
proof -
  have l: "turn_loop [Interrupted, ObservationClosed] False = ([], 1, Some (Some CliObservation))" by simp
  have "\<exists>es. prefix es ([] :: event list)"
    using turn_shows [OF sample_new _ reach_observe [of sample_world "fresh_session ''s'' []" 0],
      of "\<lparr>sn_after = 0, sn_from = 0, sn_sub = newSubscriber []\<rparr>" "[Interrupted, ObservationClosed]"] l
    by (auto simp: Observe_def fresh_session_def)
  with l show ?thesis by simp
qed

text \<open>
  \<open>coragent close\<close> does not report what did not happen: when it exits with 0, the stored session
  was closed before or the store it leaves is durably closed; when it exits with 1, an
  error is reported and nothing else.
\<close>

theorem close_reports:
  assumes "runClose env [i] = (code, ps, r)"
  shows "(code = 0 \<longrightarrow> (\<exists>st. Open (ee_lib (ce_engine env)) (ee_clock (ce_engine env)) i (ee_root (ce_engine env) i) = Inr st \<and>
      (m_closed (st_manifest st) \<and> r = None \<or> (\<exists>st'. r = Some st' \<and> m_closed (st_manifest st'))))) \<and>
    (code \<noteq> 0 \<longrightarrow> code = 1 \<and> r = None \<and> (\<exists>e. ps = [ErrValue e]))"
  using assms CloseStored_closed [of "ce_engine env" False i "newCommandID env 0"]
  by (cases "Open (ee_lib (ce_engine env)) (ee_clock (ce_engine env)) i (ee_root (ce_engine env) i)";
      auto simp: runClose_def InspectStoredSession_def Let_def split: option.splits sum.splits if_splits)

theorem close_reports_witness:
  "\<exists>ps st'. runClose sample_cli [''s''] = (0, ps, Some st') \<and> m_closed (st_manifest st')"
proof -
  have st: "m_session (st_manifest stored_sample) = ''s''" "\<not> m_closed (st_manifest stored_sample)"
    "m_seen (st_manifest stored_sample) ''cmd-0a'' = None"
    by (simp_all add: stored_sample_def stored_manifest_def sample_manifest_def)
  have env: "ee_root sample_env ''s'' = SessionDir (st_disk stored_sample)" "ee_lib sample_env = sample_lib" "ee_clock sample_env = sample_clock"
    "ce_engine sample_cli = sample_env" "newCommandID sample_cli 0 = ''cmd-0a''" "DefaultStoreRoot sample_cli \<noteq> None"
    by (simp_all add: sample_env_def sample_cli_def newCommandID_def DefaultStoreRoot_def)
  obtain st' where st': "CloseStoredSession sample_env False ''s'' ''cmd-0a'' = Inr st'"
    using sample_closes by blast
  obtain ps where "runClose sample_cli [''s''] = (0, ps, Some st')"
    using env st st' by (auto simp: runClose_def InspectStoredSession_def stored_opened Let_def)
  with close_reports [OF this] show ?thesis using env stored_opened st(2) by auto
qed

end
